(* ===== verification/Relay_Prelude.thy ===== *)
theory Relay_Prelude
  imports Main "HOL-Library.Code_Target_Nat" "HOL-Library.Word" "HOL-Library.AList" "HOL-Library.Char_ord"
    "HOL-Library.List_Lexorder" "HOL-Library.Multiset"
begin

text \<open>
  Shared vocabulary of the Relay development.

  \<^item> Machine integers: \<open>u8\<close>, \<open>u16\<close>, \<open>u32\<close>, \<open>u64\<close> and \<open>usize\<close> (64-bit targets) are words, so
    every \<open>wrapping_add\<close> of the source is the word addition.
  \<^item> A Rust \<open>String\<close> is its UTF-8 byte sequence; Isabelle's \<open>char\<close> is one byte, so \<open>string\<close> is
    that sequence and the list order of \<open>List_Lexorder\<close> is Rust's bytewise \<open>Ord\<close> for \<open>str\<close>.
    Splitting at an ASCII character is the same operation on bytes and on code points.
  \<^item> A \<open>HashMap\<close> is an association list with distinct keys. The order of the list stands for the
    iteration order, which Rust leaves unspecified; lemmas that depend on it say so.
  \<^item> \<open>str::split\<close>, \<open>str::split_once\<close>, \<open>str::strip_prefix\<close>, \<open>to_be_bytes\<close> and \<open>from_be_bytes\<close> are
    the functions of the Rust standard library that the source calls.
\<close>

section \<open>Machine integers and maps\<close>

type_synonym u8 = "8 word"
type_synonym u16 = "16 word"
type_synonym u32 = "32 word"
type_synonym u64 = "64 word"
type_synonym usize = "64 word"
type_synonym bytes = "u8 list"

type_synonym ('k, 'v) hash_map = "('k \<times> 'v) list"

abbreviation hm_get :: "('k, 'v) hash_map \<Rightarrow> 'k \<Rightarrow> 'v option" where
  "hm_get m k \<equiv> map_of m k"

abbreviation hm_insert :: "'k \<Rightarrow> 'v \<Rightarrow> ('k, 'v) hash_map \<Rightarrow> ('k, 'v) hash_map" where
  "hm_insert \<equiv> AList.update"

abbreviation hm_remove :: "'k \<Rightarrow> ('k, 'v) hash_map \<Rightarrow> ('k, 'v) hash_map" where
  "hm_remove \<equiv> AList.delete"

abbreviation hm_ok :: "('k, 'v) hash_map \<Rightarrow> bool" where
  "hm_ok m \<equiv> distinct (map fst m)"

named_theorems hm_simps \<open>lookup and key-distinctness laws of hash maps\<close>
named_theorems str_simps \<open>laws of the string functions of the standard library\<close>
named_theorems codec_simps \<open>laws of the byte readers and writers\<close>

lemmas [hm_simps] =
  update_conv' delete_conv'

lemma hm_get_iff_mem: "hm_ok m \<Longrightarrow> hm_get m k = Some v \<longleftrightarrow> (k, v) \<in> set m"
  by (simp add: map_of_eq_Some_iff)

lemma hm_set_remove [hm_simps]: "set (hm_remove k m) = {x \<in> set m. fst x \<noteq> k}"
  by (auto simp: AList.delete_eq)

lemma hm_set_insert [hm_simps]:
  "hm_ok m \<Longrightarrow> set (hm_insert k v m) = insert (k, v) {x \<in> set m. fst x \<noteq> k}"
  by (induction m) (auto simp: rev_image_eqI)

lemma hm_ok_insert [hm_simps]: "hm_ok m \<Longrightarrow> hm_ok (hm_insert k v m)"
  by (rule distinct_update)

lemma hm_ok_remove [hm_simps]: "hm_ok m \<Longrightarrow> hm_ok (hm_remove k m)"
  by (rule distinct_delete)

lemma hm_ok_filter [hm_simps]: "hm_ok m \<Longrightarrow> hm_ok (filter P m)"
  by (induction m) auto

lemma hm_get_filter:
  "hm_ok m \<Longrightarrow> hm_get (filter P m) k = (case hm_get m k of
     Some v \<Rightarrow> if P (k, v) then Some v else None | None \<Rightarrow> None)"
  by (induction m) (auto simp: map_of_eq_None_iff split: option.splits dest: map_of_SomeD)

lemma fst_comp_map_values [simp]: "fst \<circ> (\<lambda>(k, v). (k, f k v)) = fst"
  by (simp add: fun_eq_iff split: prod.split)

lemma hm_ok_map_values [hm_simps]: "hm_ok (map (\<lambda>(k, v). (k, f k v)) m) = hm_ok m"
  by (simp add: comp_def case_prod_beta)

lemma hm_get_map_values [hm_simps]:
  "hm_get (map (\<lambda>(k, v). (k, f k v)) m) k = map_option (f k) (hm_get m k)"
  by (induction m) auto

text \<open>The iteration order of a hash map does not change what it maps.\<close>

lemma hm_ok_mset: "mset m' = mset m \<Longrightarrow> hm_ok m' \<longleftrightarrow> hm_ok m"
  using mset_eq_imp_distinct_iff [of "map fst m'" "map fst m"] by simp

lemma hm_get_mset: "mset m' = mset m \<Longrightarrow> hm_ok m \<Longrightarrow> hm_get m' = hm_get m"
  by (metis hm_ok_mset map_of_inject_set mset_eq_setD)

section \<open>Strings\<close>

text \<open>\<open>str::split(c)\<close>: never empty, one empty level for the empty string.\<close>

fun split_on :: "char \<Rightarrow> string \<Rightarrow> string list" where
  "split_on c [] = [[]]"
| "split_on c (x # xs) =
     (if x = c then [] # split_on c xs
      else (x # hd (split_on c xs)) # tl (split_on c xs))"

fun join_with :: "char \<Rightarrow> string list \<Rightarrow> string" where
  "join_with c [] = []"
| "join_with c [l] = l"
| "join_with c (l # ls) = l @ c # join_with c ls"

lemma split_on_not_Nil [simp]: "split_on c s \<noteq> []"
  by (cases s) auto

lemma split_on_nonempty: "0 < length (split_on c s)"
  by (cases s) auto

lemma split_on_single: "c \<notin> set s \<Longrightarrow> split_on c s = [s]"
  by (induction s) auto

lemma split_on_append_sep:
  "c \<notin> set a \<Longrightarrow> split_on c (a @ c # b) = a # split_on c b"
  by (induction a) auto

lemma split_on_no_sep: "l \<in> set (split_on c s) \<Longrightarrow> c \<notin> set l"
proof (induction s arbitrary: l)
  case Nil
  then show ?case by simp
next
  case (Cons x xs)
  have "hd (split_on c xs) \<in> set (split_on c xs)" by simp
  moreover have "set (tl (split_on c xs)) \<subseteq> set (split_on c xs)"
    by (simp add: list.set_sel(2) subsetI)
  ultimately show ?case using Cons by (auto split: if_splits)
qed

lemma join_split_on [simp]: "join_with c (split_on c s) = s"
proof (induction s)
  case Nil
  then show ?case by simp
next
  case (Cons x xs)
  obtain l ls where eq: "split_on c xs = l # ls" by (cases "split_on c xs") auto
  with Cons show ?case by (cases ls) auto
qed

lemma split_on_join:
  "ls \<noteq> [] \<Longrightarrow> \<forall>l \<in> set ls. c \<notin> set l \<Longrightarrow> split_on c (join_with c ls) = ls"
  by (induction c ls rule: join_with.induct) (auto simp: split_on_append_sep split_on_single)

lemma split_on_inj: "split_on c s = split_on c t \<longleftrightarrow> s = t"
  by (metis join_split_on)

text \<open>\<open>str::split_once(c)\<close>: the text before and after the first \<open>c\<close>.\<close>

fun split_once :: "char \<Rightarrow> string \<Rightarrow> (string \<times> string) option" where
  "split_once c [] = None"
| "split_once c (x # xs) =
     (if x = c then Some ([], xs)
      else map_option (\<lambda>(a, b). (x # a, b)) (split_once c xs))"

lemma split_once_Some_iff:
  "split_once c s = Some (a, b) \<longleftrightarrow> s = a @ c # b \<and> c \<notin> set a"
proof (induction s arbitrary: a)
  case Nil
  then show ?case by simp
next
  case (Cons x xs)
  then show ?case by (cases a) auto
qed

lemma split_once_append [str_simps]:
  "c \<notin> set a \<Longrightarrow> split_once c (a @ c # b) = Some (a, b)"
  by (simp add: split_once_Some_iff)

lemma split_once_None_iff: "split_once c s = None \<longleftrightarrow> c \<notin> set s"
  by (induction s) auto

text \<open>\<open>str::starts_with\<close> and \<open>str::strip_prefix\<close>.\<close>

fun starts_with :: "string \<Rightarrow> string \<Rightarrow> bool" where
  "starts_with [] s = True"
| "starts_with (p # ps) [] = False"
| "starts_with (p # ps) (x # xs) = (p = x \<and> starts_with ps xs)"

definition strip_prefix :: "string \<Rightarrow> string \<Rightarrow> string option" where
  "strip_prefix p s = (if starts_with p s then Some (drop (length p) s) else None)"

lemma starts_with_iff: "starts_with p s \<longleftrightarrow> (\<exists>r. s = p @ r)"
  by (induction p s rule: starts_with.induct) auto

lemma starts_with_append [simp, str_simps]: "starts_with p (p @ r)"
  by (auto simp: starts_with_iff)

lemma strip_prefix_Some_iff: "strip_prefix p s = Some r \<longleftrightarrow> s = p @ r"
  by (auto simp: strip_prefix_def starts_with_iff)

lemma strip_prefix_append [simp, str_simps]: "strip_prefix p (p @ r) = Some r"
  by (simp add: strip_prefix_Some_iff)

section \<open>Big-endian integers\<close>

text \<open>
  \<open>be_bytes n k\<close> is the \<open>n\<close>-byte big-endian encoding of \<open>k mod 256 ^ n\<close>, the result of
  \<open>to_be_bytes\<close> on an \<open>n\<close>-byte integer; \<open>be_value\<close> reads such a list back.
\<close>

fun be_bytes :: "nat \<Rightarrow> nat \<Rightarrow> bytes" where
  "be_bytes 0 k = []"
| "be_bytes (Suc n) k = be_bytes n (k div 256) @ [of_nat k]"

definition be_value :: "bytes \<Rightarrow> nat" where
  "be_value bs = foldl (\<lambda>a b. a * 256 + unat b) 0 bs"

lemma be_value_snoc: "be_value (bs @ [b]) = be_value bs * 256 + unat b"
  by (simp add: be_value_def)

lemma length_be_bytes [simp]: "length (be_bytes n k) = n"
  by (induction n arbitrary: k) auto

lemma be_value_be_bytes: "be_value (be_bytes n k) = k mod 256 ^ n"
proof (induction n arbitrary: k)
  case 0
  then show ?case by (simp add: be_value_def)
next
  case (Suc n)
  have "be_value (be_bytes (Suc n) k) = k div 256 mod 256 ^ n * 256 + k mod 256"
    by (simp add: be_value_snoc Suc.IH unat_of_nat)
  also have "\<dots> = k mod (256 * 256 ^ n)"
    by (simp add: mod_mult2_eq)
  finally show ?case by simp
qed

definition u16_to_be :: "u16 \<Rightarrow> bytes" where "u16_to_be w = be_bytes 2 (unat w)"
definition u32_to_be :: "u32 \<Rightarrow> bytes" where "u32_to_be w = be_bytes 4 (unat w)"
definition u64_to_be :: "u64 \<Rightarrow> bytes" where "u64_to_be w = be_bytes 8 (unat w)"
definition u16_from_be :: "bytes \<Rightarrow> u16" where "u16_from_be bs = of_nat (be_value bs)"
definition u32_from_be :: "bytes \<Rightarrow> u32" where "u32_from_be bs = of_nat (be_value bs)"

lemma length_to_be [simp]:
  "length (u16_to_be a) = 2" "length (u32_to_be b) = 4" "length (u64_to_be c) = 8"
  by (simp_all add: u16_to_be_def u32_to_be_def u64_to_be_def)

lemma unat_lt_pow:
  "unat (a :: u16) < 65536" "unat (b :: u32) < 4294967296"
  using unsigned_less [of a] unsigned_less [of b] by simp_all

lemma u16_be_roundtrip [simp]: "u16_from_be (u16_to_be w) = w"
  using unat_lt_pow(1) [of w]
  by (simp add: u16_from_be_def u16_to_be_def be_value_be_bytes)

lemma u32_be_roundtrip [simp]: "u32_from_be (u32_to_be w) = w"
  using unat_lt_pow(2) [of w]
  by (simp add: u32_from_be_def u32_to_be_def be_value_be_bytes)

text \<open>\<open>ToString\<close> of an unsigned integer: its decimal digits.\<close>

fun dec_string :: "nat \<Rightarrow> string" where
  "dec_string n = (if n < 10 then [char_of (48 + n)] else dec_string (n div 10) @ [char_of (48 + n mod 10)])"

declare dec_string.simps [simp del]

text \<open>
  \<open>FromStr\<close> of an unsigned integer below \<open>bound\<close>: an optional plus sign and at least one digit, an
  error on any other character and on overflow.
\<close>

definition digit_of :: "char \<Rightarrow> nat option" where
  "digit_of c = (let n = of_char c in if 48 \<le> n \<and> n < 58 then Some (n - 48) else None)"

fun parse_digits :: "nat \<Rightarrow> nat \<Rightarrow> string \<Rightarrow> nat option" where
  "parse_digits bound acc [] = Some acc"
| "parse_digits bound acc (c # cs) =
     (case digit_of c of
        None \<Rightarrow> None
      | Some d \<Rightarrow> if 10 * acc + d < bound then parse_digits bound (10 * acc + d) cs else None)"

definition parse_uint :: "nat \<Rightarrow> string \<Rightarrow> nat option" where
  "parse_uint bound s =
     (case s of
        [] \<Rightarrow> None
      | c # cs \<Rightarrow>
          if c = CHR ''+'' then (if cs = [] then None else parse_digits bound 0 cs)
          else parse_digits bound 0 s)"

definition parse_u64 :: "string \<Rightarrow> u64 option" where
  "parse_u64 s = map_option of_nat (parse_uint (2 ^ 64) s)"

lemma digit_of_char: "d < 10 \<Longrightarrow> digit_of (char_of (48 + d)) = Some d"
  by (simp add: digit_of_def Let_def)

lemma parse_digits_append:
  "parse_digits bound acc (a @ b) = Option.bind (parse_digits bound acc a) (\<lambda>n. parse_digits bound n b)"
  by (induction bound acc a rule: parse_digits.induct) (simp_all split: option.split)

lemma parse_digits_dec_string: "n < bound \<Longrightarrow> parse_digits bound 0 (dec_string n) = Some n"
proof (induction n rule: dec_string.induct)
  case (1 n)
  show ?case
  proof (cases "n < 10")
    case True
    with 1 show ?thesis by (simp add: dec_string.simps [of n] digit_of_char)
  next
    case False
    with 1 have "parse_digits bound 0 (dec_string (n div 10)) = Some (n div 10)" by simp
    with False 1(2) show ?thesis
      by (simp add: dec_string.simps [of n] parse_digits_append digit_of_char)
  qed
qed

lemma dec_string_digits: "c \<in> set (dec_string n) \<Longrightarrow> digit_of c \<noteq> None"
proof (induction n rule: dec_string.induct)
  case (1 n)
  then show ?case
    by (cases "n < 10") (auto simp: dec_string.simps [of n] digit_of_char)
qed

lemma dec_string_nonempty: "dec_string n \<noteq> []"
  by (simp add: dec_string.simps [of n])

lemma parse_uint_dec_string: "n < bound \<Longrightarrow> parse_uint bound (dec_string n) = Some n"
proof -
  assume n: "n < bound"
  obtain c cs where s: "dec_string n = c # cs" using dec_string_nonempty by (cases "dec_string n") auto
  then have "digit_of c \<noteq> None" using dec_string_digits [of c n] by simp
  then have "c \<noteq> CHR ''+''" by (auto simp: digit_of_def)
  with s parse_digits_dec_string [OF n] show ?thesis by (simp add: parse_uint_def)
qed

lemma parse_u64_dec_string: "parse_u64 (dec_string (unat x)) = Some (x :: u64)"
proof -
  have "unat x < 2 ^ 64" using unsigned_less [of x] by simp
  then show ?thesis by (simp add: parse_u64_def parse_uint_dec_string)
qed

text \<open>\<open>str::find(c)\<close>: the position of the first \<open>c\<close>.\<close>

fun find_char :: "char \<Rightarrow> string \<Rightarrow> nat option" where
  "find_char c [] = None"
| "find_char c (x # xs) = (if x = c then Some 0 else map_option Suc (find_char c xs))"

lemma find_char_None_iff: "find_char c s = None \<longleftrightarrow> c \<notin> set s"
  by (induction s) auto

lemma find_char_Some_iff:
  "find_char c s = Some i \<longleftrightarrow> i < length s \<and> s ! i = c \<and> c \<notin> set (take i s)"
proof (induction s arbitrary: i)
  case (Cons x xs)
  then show ?case by (cases i) auto
qed simp

lemma find_char_append: "c \<notin> set a \<Longrightarrow> find_char c (a @ c # b) = Some (length a)"
  by (simp add: find_char_Some_iff nth_append)

lemma find_charE:
  assumes "find_char c s = Some i"
  obtains a b where "s = a @ c # b" "c \<notin> set a"
proof
  show "s = take i s @ c # drop (Suc i) s" "c \<notin> set (take i s)"
    using assms by (auto simp: find_char_Some_iff Cons_nth_drop_Suc)
qed

text \<open>
  \<open>str::trim\<close>: the UTF-8 encodings of the characters with the Unicode property \<open>White_Space\<close>, and
  the removal of them at both ends.
\<close>

definition white_space :: "string list" where
  "white_space =
     map (\<lambda>b. [char_of b]) [9, 10, 11, 12, 13, 32 :: nat] @
     map (map char_of) ([[0xC2, 0x85], [0xC2, 0xA0], [0xE1, 0x9A, 0x80]] @
       map (\<lambda>b. [0xE2, 0x80, b]) ([0x80..<0x8B] @ [0xA8, 0xA9, 0xAF]) @
       [[0xE2, 0x81, 0x9F], [0xE3, 0x80, 0x80 :: nat]])"

lemma white_space_nonempty: "w \<in> set white_space \<Longrightarrow> w \<noteq> []"
  by (auto simp: white_space_def)

function strip_ws :: "string list \<Rightarrow> string \<Rightarrow> string" where
  "strip_ws ws s =
     (case List.find (\<lambda>w. w \<noteq> [] \<and> starts_with w s) ws of
        Some w \<Rightarrow> strip_ws ws (drop (length w) s)
      | None \<Rightarrow> s)"
  by pat_completeness auto
termination
proof (relation "measure (\<lambda>(ws, s). length s)")
  fix ws s w assume "List.find (\<lambda>w. w \<noteq> [] \<and> starts_with w s) ws = Some w"
  then have "w \<noteq> []" "starts_with w s" by (auto simp: find_Some_iff)
  then show "((ws, drop (length w) s), ws, s) \<in> measure (\<lambda>(ws, s). length s)"
    by (cases s) (auto simp: starts_with_iff)
qed simp

declare strip_ws.simps [simp del]

definition trim :: "string \<Rightarrow> string" where
  "trim s = rev (strip_ws (map rev white_space) (rev (strip_ws white_space s)))"

section \<open>Errors of the operating system\<close>

text \<open>\<open>std::io::ErrorKind\<close>, as far as the code distinguishes it.\<close>

datatype IoErrorKind = NotFound | OtherIoError

end
