(* ===== verification/Topic.thy ===== *)
theory Topic
  imports Relay_Prelude
begin

text \<open>
  \<open>relay-core/src/topic.rs\<close>: validation of topic filters, the \<open>$share\<close> prefix, and the matching
  loop of \<open>topic_matches\<close>, with a positional specification of MQTT matching that the loop is
  shown to implement.
\<close>

section \<open>Filters\<close>

datatype TopicFilter = TopicFilter (as_str: string)

text \<open>The checks the \<open>for\<close> loop of \<open>TopicFilter::parse\<close> makes on level \<open>i\<close> of \<open>n\<close>.\<close>

definition level_ok :: "nat \<Rightarrow> nat \<Rightarrow> string \<Rightarrow> bool" where
  "level_ok n i level =
     (if CHR ''#'' \<in> set level \<and> (level \<noteq> ''#'' \<or> i \<noteq> n - 1) then False
      else if CHR ''+'' \<in> set level \<and> level \<noteq> ''+'' then False
      else True)"

fun levels_ok :: "nat \<Rightarrow> nat \<Rightarrow> string list \<Rightarrow> bool" where
  "levels_ok n i [] = True"
| "levels_ok n i (l # ls) = (level_ok n i l \<and> levels_ok n (Suc i) ls)"

definition topic_filter_parse :: "string \<Rightarrow> TopicFilter option" where
  "topic_filter_parse flt =
     (if flt = [] then None
      else let levels = split_on CHR ''/'' flt in
        if levels_ok (length levels) 0 levels then Some (TopicFilter flt) else None)"

section \<open>Matching\<close>

fun match_levels :: "string list \<Rightarrow> string list \<Rightarrow> bool" where
  "match_levels [] [] = True"
| "match_levels [] (t # ts) = False"
| "match_levels (f # fs) [] = (f = ''#'')"
| "match_levels (f # fs) (t # ts) =
     (if f = ''#'' then True
      else if f = ''+'' then match_levels fs ts
      else if f = t then match_levels fs ts
      else False)"

definition wildcard_level :: "string \<Rightarrow> bool" where
  "wildcard_level l \<longleftrightarrow> l = ''+'' \<or> l = ''#''"

definition topic_matches :: "string \<Rightarrow> string \<Rightarrow> bool" where
  "topic_matches flt topic =
     (if starts_with ''$'' topic \<and> wildcard_level (hd (split_on CHR ''/'' flt)) then False
      else match_levels (split_on CHR ''/'' flt) (split_on CHR ''/'' topic))"

definition topic_filter_matches :: "TopicFilter \<Rightarrow> string \<Rightarrow> bool" where
  "topic_filter_matches f topic = topic_matches (as_str f) topic"

section \<open>Shared subscriptions\<close>

record SharedSubscription =
  ss_group :: string
  ss_filter :: TopicFilter

definition shared_parse :: "string \<Rightarrow> SharedSubscription option" where
  "shared_parse subscription =
     (case strip_prefix ''$share/'' subscription of
        None \<Rightarrow> None
      | Some rest \<Rightarrow> (case split_once CHR ''/'' rest of
          None \<Rightarrow> None
        | Some (grp, flt) \<Rightarrow>
            if grp = [] \<or> CHR ''+'' \<in> set grp \<or> CHR ''#'' \<in> set grp then None
            else (case topic_filter_parse flt of
                None \<Rightarrow> None
              | Some tf \<Rightarrow> Some \<lparr>ss_group = grp, ss_filter = tf\<rparr>)))"

section \<open>Specification of matching\<close>

text \<open>
  Position by position: a filter without \<open>#\<close> matches topics with as many levels, a filter that
  ends in \<open>#\<close> matches topics that have at least the levels before it; each level of the filter
  is \<open>+\<close> or the level of the topic at its position.
\<close>

definition levels_agree :: "string list \<Rightarrow> string list \<Rightarrow> bool" where
  "levels_agree fs ts \<longleftrightarrow>
     length fs \<le> length ts \<and> (\<forall>i < length fs. fs ! i = ''+'' \<or> fs ! i = ts ! i)"

definition spec_match :: "string list \<Rightarrow> string list \<Rightarrow> bool" where
  "spec_match fs ts =
     (if last fs = ''#'' then levels_agree (butlast fs) ts
      else length fs = length ts \<and> levels_agree fs ts)"

text \<open>The levels of a valid filter: \<open>#\<close> occurs only as the whole last level.\<close>

definition valid_levels :: "string list \<Rightarrow> bool" where
  "valid_levels ls \<longleftrightarrow>
     (\<forall>i < length ls. (CHR ''#'' \<in> set (ls ! i) \<longrightarrow> ls ! i = ''#'' \<and> i = length ls - 1) \<and>
       (CHR ''+'' \<in> set (ls ! i) \<longrightarrow> ls ! i = ''+''))"

lemma level_ok_iff:
  "level_ok n i l \<longleftrightarrow>
     (CHR ''#'' \<in> set l \<longrightarrow> l = ''#'' \<and> i = n - 1) \<and> (CHR ''+'' \<in> set l \<longrightarrow> l = ''+'')"
  by (auto simp: level_ok_def)

lemma levels_ok_iff: "levels_ok n i ls \<longleftrightarrow> (\<forall>j < length ls. level_ok n (i + j) (ls ! j))"
  by (induction ls arbitrary: i) (auto simp: less_Suc_eq_0_disj)

lemma topic_filter_parse_Some_iff:
  "topic_filter_parse s = Some tf \<longleftrightarrow>
     tf = TopicFilter s \<and> s \<noteq> [] \<and> valid_levels (split_on CHR ''/'' s)"
  by (auto simp: topic_filter_parse_def Let_def levels_ok_iff level_ok_iff valid_levels_def)

lemma as_str_parse: "topic_filter_parse s = Some tf \<Longrightarrow> as_str tf = s"
  by (simp add: topic_filter_parse_Some_iff)

lemma levels_agree_Nil [simp]: "levels_agree [] ts"
  by (simp add: levels_agree_def)

lemma levels_agree_Cons [simp]:
  "levels_agree (f # fs) ts \<longleftrightarrow>
     (\<exists>t ts'. ts = t # ts' \<and> (f = ''+'' \<or> f = t) \<and> levels_agree fs ts')"
proof (cases ts)
  case (Cons t ts')
  then show ?thesis by (auto simp: levels_agree_def less_Suc_eq_0_disj)
qed (simp add: levels_agree_def)

lemma valid_levels_Nil [simp]: "valid_levels []"
  by (simp add: valid_levels_def)

lemma valid_levels_Cons [simp]:
  "valid_levels (f # fs) \<longleftrightarrow>
     (CHR ''#'' \<in> set f \<longrightarrow> f = ''#'' \<and> fs = []) \<and> (CHR ''+'' \<in> set f \<longrightarrow> f = ''+'') \<and>
     valid_levels fs"
proof -
  have "Suc i = length fs \<longleftrightarrow> i = length fs - 1" if "i < length fs" for i
    using that by auto
  then show ?thesis
    unfolding valid_levels_def by (auto simp: All_less_Suc2)
qed

lemma spec_match_single:
  "spec_match [f] ts \<longleftrightarrow> f = ''#'' \<or> (\<exists>t. ts = [t] \<and> (f = ''+'' \<or> f = t))"
  by (auto simp: spec_match_def length_Suc_conv)

lemma spec_match_Cons:
  "fs \<noteq> [] \<Longrightarrow> spec_match (f # fs) ts \<longleftrightarrow>
     (\<exists>t ts'. ts = t # ts' \<and> (f = ''+'' \<or> f = t) \<and> spec_match fs ts')"
  unfolding spec_match_def by (cases ts) (simp_all, blast)

lemma match_levels_single:
  "match_levels [f] ts \<longleftrightarrow> f = ''#'' \<or> (\<exists>t. ts = [t] \<and> (f = ''+'' \<or> f = t))"
proof (cases ts)
  case (Cons t ts')
  then show ?thesis by (cases ts') auto
qed simp

lemma match_levels_Cons:
  "f \<noteq> ''#'' \<Longrightarrow> match_levels (f # fs) ts \<longleftrightarrow>
     (\<exists>t ts'. ts = t # ts' \<and> (f = ''+'' \<or> f = t) \<and> match_levels fs ts')"
  by (cases ts) simp_all

lemma match_levels_spec:
  "valid_levels fs \<Longrightarrow> fs \<noteq> [] \<Longrightarrow> match_levels fs ts \<longleftrightarrow> spec_match fs ts"
proof (induction fs arbitrary: ts)
  case (Cons f fs)
  show ?case
  proof (cases "fs = []")
    case True
    then show ?thesis by (simp only: match_levels_single spec_match_single)
  next
    case False
    with Cons.prems have "f \<noteq> ''#''" and "valid_levels fs" by auto
    then show ?thesis
      unfolding match_levels_Cons [OF \<open>f \<noteq> ''#''\<close>] spec_match_Cons [OF False]
      using Cons.IH [OF \<open>valid_levels fs\<close> False] by simp
  qed
qed simp

lemma match_levels_hash [simp]: "match_levels (''#'' # fs) ts"
  by (cases ts) simp_all

lemma match_levels_refl: "match_levels ts ts"
  by (induction ts) auto

section \<open>Correctness\<close>

text \<open>
  C14. A filter accepted by \<open>TopicFilter::parse\<close> matches a topic exactly when the positional
  specification says so: \<open>+\<close> stands for one level, a final \<open>#\<close> for the parent and everything below
  it, every other level for itself; and a filter whose first level is a wildcard matches no
  topic that starts with \<open>$\<close>.
\<close>

theorem topic_matches_correct:
  assumes "topic_filter_parse f = Some tf"
  shows "topic_filter_matches tf t \<longleftrightarrow>
    \<not> (starts_with ''$'' t \<and> wildcard_level (hd (split_on CHR ''/'' f))) \<and>
    spec_match (split_on CHR ''/'' f) (split_on CHR ''/'' t)"
proof -
  from assms have "valid_levels (split_on CHR ''/'' f)" and "as_str tf = f"
    by (simp_all add: topic_filter_parse_Some_iff)
  then show ?thesis
    by (simp add: topic_filter_matches_def topic_matches_def match_levels_spec)
qed

theorem topic_matches_correct_witness:
  "topic_filter_parse ''a/+/#'' = Some (TopicFilter ''a/+/#'') \<and>
   (topic_filter_matches (TopicFilter ''a/+/#'') ''a/b/c/d'' \<longleftrightarrow>
    \<not> (starts_with ''$'' ''a/b/c/d'' \<and> wildcard_level (hd (split_on CHR ''/'' ''a/+/#''))) \<and>
    spec_match (split_on CHR ''/'' ''a/+/#'') (split_on CHR ''/'' ''a/b/c/d''))"
proof -
  have h: "topic_filter_parse ''a/+/#'' = Some (TopicFilter ''a/+/#'')" by code_simp
  show ?thesis using h topic_matches_correct [OF h, of "''a/b/c/d''"] by blast
qed

lemma shared_parse_Some_iff:
  "shared_parse s = Some ss \<longleftrightarrow>
     (\<exists>f. s = ''$share/'' @ ss_group ss @ ''/'' @ f \<and> ss_group ss \<noteq> [] \<and>
       set (ss_group ss) \<inter> {CHR ''/'', CHR ''+'', CHR ''#''} = {} \<and>
       topic_filter_parse f = Some (ss_filter ss))"
  (is "?L \<longleftrightarrow> ?R")
proof
  assume ?L
  then obtain rest g f where
    "strip_prefix ''$share/'' s = Some rest" "split_once CHR ''/'' rest = Some (g, f)"
    "g \<noteq> []" "CHR ''+'' \<notin> set g" "CHR ''#'' \<notin> set g"
    "topic_filter_parse f = Some (ss_filter ss)" "ss_group ss = g"
    by (auto simp: shared_parse_def split: option.splits if_splits)
  then show ?R
    by (auto simp: strip_prefix_Some_iff split_once_Some_iff)
next
  assume ?R
  then obtain f where s: "s = ''$share/'' @ (ss_group ss @ CHR ''/'' # f)"
    and g: "ss_group ss \<noteq> []" "CHR ''/'' \<notin> set (ss_group ss)" "CHR ''+'' \<notin> set (ss_group ss)"
      "CHR ''#'' \<notin> set (ss_group ss)"
    and f: "topic_filter_parse f = Some (ss_filter ss)"
    by auto
  have "strip_prefix ''$share/'' s = Some (ss_group ss @ CHR ''/'' # f)"
    unfolding s by (rule strip_prefix_append)
  with g f show ?L by (simp add: shared_parse_def split_once_append)
qed

text \<open>
  The comment on \<open>topic_matches\<close> says that a malformed filter never matches; the loop returns as
  soon as it meets \<open>#\<close>, so a filter with levels after it matches.
\<close>

lemma topic_matches_malformed:
  "topic_filter_parse ''a/#/b'' = None" "topic_matches ''a/#/b'' ''a/x''"
  by code_simp+

end
