(* ===== verification/Message.thy ===== *)
theory Message
  imports Relay_Prelude
begin

text \<open>
  The data of \<open>relay-core\<close>: the quality-of-service levels of \<open>qos.rs\<close>, with the order Rust
  derives from the discriminants, and the message of \<open>message.rs\<close> with its builders.
\<close>

section \<open>Quality of service\<close>

datatype QoS = AtMostOnce | AtLeastOnce | ExactlyOnce

text \<open>The cast \<open>qos as u8\<close> yields the discriminant.\<close>

primrec qos_as_u8 :: "QoS \<Rightarrow> u8" where
  "qos_as_u8 AtMostOnce = 0"
| "qos_as_u8 AtLeastOnce = 1"
| "qos_as_u8 ExactlyOnce = 2"

definition qos_from_u8 :: "u8 \<Rightarrow> QoS option" where
  "qos_from_u8 v =
     (if v = 0 then Some AtMostOnce
      else if v = 1 then Some AtLeastOnce
      else if v = 2 then Some ExactlyOnce
      else None)"

text \<open>\<open>#[derive(PartialOrd, Ord)]\<close> compares the discriminants.\<close>

instantiation QoS :: linorder
begin

definition less_eq_QoS :: "QoS \<Rightarrow> QoS \<Rightarrow> bool" where
  "less_eq_QoS a b \<longleftrightarrow> qos_as_u8 a \<le> qos_as_u8 b"

definition less_QoS :: "QoS \<Rightarrow> QoS \<Rightarrow> bool" where
  "less_QoS a b \<longleftrightarrow> qos_as_u8 a < qos_as_u8 b"

lemma qos_as_u8_inj: "qos_as_u8 a = qos_as_u8 b \<longleftrightarrow> a = b"
  by (cases a; cases b) simp_all

instance
proof
  fix x y z :: QoS
  show "(x < y) = (x \<le> y \<and> \<not> y \<le> x)"
    by (auto simp: less_eq_QoS_def less_QoS_def)
  show "x \<le> x" by (simp add: less_eq_QoS_def)
  show "x \<le> y \<Longrightarrow> y \<le> z \<Longrightarrow> x \<le> z" by (auto simp: less_eq_QoS_def)
  show "x \<le> y \<Longrightarrow> y \<le> x \<Longrightarrow> x = y"
    by (metis less_eq_QoS_def qos_as_u8_inj order_antisym)
  show "x \<le> y \<or> y \<le> x" by (auto simp: less_eq_QoS_def)
qed

end

lemma qos_le_AtMostOnce_left [simp]: "AtMostOnce \<le> q"
  by (simp add: less_eq_QoS_def)

lemma qos_le_ExactlyOnce_right [simp]: "q \<le> ExactlyOnce"
  by (cases q) (simp_all add: less_eq_QoS_def word_le_nat_alt)

lemma qos_le_simps [simp]:
  "\<not> AtLeastOnce \<le> AtMostOnce" "\<not> ExactlyOnce \<le> AtMostOnce" "\<not> ExactlyOnce \<le> AtLeastOnce"
  by (simp_all add: less_eq_QoS_def word_le_nat_alt)

lemma qos_le_AtMostOnce [simp]: "q \<le> AtMostOnce \<longleftrightarrow> q = AtMostOnce"
  by (cases q) auto

lemma qos_as_u8_bound: "qos_as_u8 q \<le> 2"
  by (cases q) (simp_all add: word_le_nat_alt)

lemma qos_u8_roundtrip [simp, codec_simps]: "qos_from_u8 (qos_as_u8 q) = Some q"
  by (cases q) (simp_all add: qos_from_u8_def)

lemma qos_from_u8_Some_iff: "qos_from_u8 v = Some q \<longleftrightarrow> v = qos_as_u8 q"
  by (cases q) (auto simp: qos_from_u8_def)

section \<open>Messages\<close>

record Message =
  m_topic :: string
  m_payload :: bytes
  m_qos :: QoS
  m_retain :: bool

definition message_new :: "string \<Rightarrow> bytes \<Rightarrow> Message" where
  "message_new t p = \<lparr>m_topic = t, m_payload = p, m_qos = AtMostOnce, m_retain = False\<rparr>"

definition message_with_qos :: "QoS \<Rightarrow> Message \<Rightarrow> Message" where
  "message_with_qos q m = m\<lparr>m_qos := q\<rparr>"

definition message_retained :: "Message \<Rightarrow> Message" where
  "message_retained m = m\<lparr>m_retain := True\<rparr>"

end
