(* ===== verification/Router.thy ===== *)
theory Router
  imports Topic Message
begin

text \<open>
  \<open>relay-core/src/router.rs\<close>: the table of normal (fan-out) and shared subscriptions and the
  resolution of a published topic to its recipients. The two kinds of subscription table are one
  interface, the locale \<open>sub_container\<close>, interpreted on the subscription list of a client and on
  the member list of a share group.
\<close>

section \<open>Data\<close>

type_synonym ClientId = u64

record Sub =
  sub_filter :: TopicFilter
  sub_qos :: QoS

record SharedGroup =
  members :: "(ClientId \<times> Sub) list"
  cursor :: usize

record Router =
  normal :: "(ClientId, Sub list) hash_map"
  shared :: "(string, SharedGroup) hash_map"

definition router_new :: Router where
  "router_new = \<lparr>normal = [], shared = []\<rparr>"

definition group_default :: SharedGroup where
  "group_default = \<lparr>members = [], cursor = 0\<rparr>"

section \<open>Operations\<close>

text \<open>\<open>iter_mut().find(..)\<close>, then update the element found or push a new one.\<close>

fun upsert :: "('a \<Rightarrow> bool) \<Rightarrow> ('a \<Rightarrow> 'a) \<Rightarrow> 'a \<Rightarrow> 'a list \<Rightarrow> 'a list" where
  "upsert P f new [] = [new]"
| "upsert P f new (x # xs) = (if P x then f x # xs else x # upsert P f new xs)"

definition subs_put :: "Sub list \<Rightarrow> TopicFilter \<Rightarrow> QoS \<Rightarrow> Sub list" where
  "subs_put subs flt qos =
     upsert (\<lambda>s. as_str (sub_filter s) = as_str flt) (\<lambda>s. s\<lparr>sub_qos := qos\<rparr>)
       \<lparr>sub_filter = flt, sub_qos = qos\<rparr> subs"

definition subscribe :: "Router \<Rightarrow> ClientId \<Rightarrow> TopicFilter \<Rightarrow> QoS \<Rightarrow> Router" where
  "subscribe r client flt qos =
     (let subs = (case hm_get (normal r) client of Some s \<Rightarrow> s | None \<Rightarrow> [])
      in r\<lparr>normal := hm_insert client (subs_put subs flt qos) (normal r)\<rparr>)"

definition group_put :: "SharedGroup \<Rightarrow> ClientId \<Rightarrow> TopicFilter \<Rightarrow> QoS \<Rightarrow> SharedGroup" where
  "group_put g client flt qos =
     g\<lparr>members := upsert (\<lambda>(c, s). c = client \<and> as_str (sub_filter s) = as_str flt)
       (\<lambda>(c, s). (c, s\<lparr>sub_qos := qos\<rparr>)) (client, \<lparr>sub_filter = flt, sub_qos = qos\<rparr>) (members g)\<rparr>"

definition subscribe_shared ::
    "Router \<Rightarrow> string \<Rightarrow> ClientId \<Rightarrow> TopicFilter \<Rightarrow> QoS \<Rightarrow> Router" where
  "subscribe_shared r grp client flt qos =
     (let g = (case hm_get (shared r) grp of Some g \<Rightarrow> g | None \<Rightarrow> group_default)
      in r\<lparr>shared := hm_insert grp (group_put g client flt qos) (shared r)\<rparr>)"

definition unsubscribe :: "Router \<Rightarrow> ClientId \<Rightarrow> string \<Rightarrow> bool \<times> Router" where
  "unsubscribe r client flt =
     (case hm_get (normal r) client of
        Some subs \<Rightarrow>
          let subs' = filter (\<lambda>s. as_str (sub_filter s) \<noteq> flt) subs;
              removed = (length subs' \<noteq> length subs)
          in (removed, r\<lparr>normal := if subs' = [] then hm_remove client (normal r)
                                   else hm_insert client subs' (normal r)\<rparr>)
      | None \<Rightarrow> (False, r))"

definition unsubscribe_shared ::
    "Router \<Rightarrow> string \<Rightarrow> ClientId \<Rightarrow> string \<Rightarrow> bool \<times> Router" where
  "unsubscribe_shared r grp client flt =
     (case hm_get (shared r) grp of
        Some g \<Rightarrow>
          let g' = g\<lparr>members :=
                filter (\<lambda>(c, s). \<not> (c = client \<and> as_str (sub_filter s) = flt)) (members g)\<rparr>;
              removed = (length (members g') \<noteq> length (members g))
          in (removed, r\<lparr>shared := if members g' = [] then hm_remove grp (shared r)
                                   else hm_insert grp g' (shared r)\<rparr>)
      | None \<Rightarrow> (False, r))"

definition group_drop_client :: "ClientId \<Rightarrow> SharedGroup \<Rightarrow> SharedGroup" where
  "group_drop_client client g = g\<lparr>members := filter (\<lambda>(c, _). c \<noteq> client) (members g)\<rparr>"

definition remove_client :: "Router \<Rightarrow> ClientId \<Rightarrow> Router" where
  "remove_client r client =
     r\<lparr>normal := hm_remove client (normal r),
       shared := filter (\<lambda>(_, g). members g \<noteq> [])
         (map (\<lambda>(k, g). (k, group_drop_client client g)) (shared r))\<rparr>"

definition subscription_count :: "Router \<Rightarrow> nat" where
  "subscription_count r =
     sum_list (map (\<lambda>(_, v). length v) (normal r)) +
     sum_list (map (\<lambda>(_, g). length (members g)) (shared r))"

text \<open>\<open>Iterator::max\<close>.\<close>

fun iter_max :: "QoS list \<Rightarrow> QoS option" where
  "iter_max [] = None"
| "iter_max (q # qs) = Some (fold max qs q)"

definition granted_qos :: "string \<Rightarrow> Sub list \<Rightarrow> QoS option" where
  "granted_qos topic subs =
     iter_max (map sub_qos (filter (\<lambda>s. topic_filter_matches (sub_filter s) topic) subs))"

definition matching_subscribers :: "Router \<Rightarrow> string \<Rightarrow> (ClientId \<times> QoS) list" where
  "matching_subscribers r topic =
     sort_key fst (List.map_filter (\<lambda>(client, subs).
       map_option (\<lambda>qos. (client, qos)) (granted_qos topic subs)) (normal r))"

definition group_matching :: "string \<Rightarrow> SharedGroup \<Rightarrow> (ClientId \<times> QoS) list" where
  "group_matching topic g =
     map (\<lambda>(c, s). (c, sub_qos s))
       (filter (\<lambda>(_, s). topic_filter_matches (sub_filter s) topic) (members g))"

text \<open>One iteration of the loop over the share groups in \<open>Router::route\<close>.\<close>

definition route_group :: "string \<Rightarrow> SharedGroup \<Rightarrow> (ClientId \<times> QoS) option \<times> SharedGroup" where
  "route_group topic g =
     (let matching = group_matching topic g in
      if matching = [] then (None, g)
      else let pick = unat (cursor g) mod length matching
        in (Some (matching ! pick), g\<lparr>cursor := cursor g + 1\<rparr>))"

definition route :: "Router \<Rightarrow> string \<Rightarrow> (ClientId \<times> QoS) list \<times> Router" where
  "route r topic =
     (let recipients = matching_subscribers r topic @
            List.map_filter (\<lambda>(_, g). fst (route_group topic g)) (shared r);
          r' = r\<lparr>shared := map (\<lambda>(k, g). (k, snd (route_group topic g))) (shared r)\<rparr>
      in (sort_key fst recipients, r'))"

section \<open>The interface of a subscription table\<close>

text \<open>
  A container of subscriptions with keys of type \<open>'k\<close>: adding under a key replaces the granted
  QoS, removing forgets it, and an empty container has nothing in it.
\<close>

locale sub_container =
  fixes look :: "'l \<Rightarrow> 'k \<Rightarrow> QoS option"
    and default :: 'l
    and put :: "'l \<Rightarrow> 'k \<Rightarrow> QoS \<Rightarrow> 'l"
    and del :: "'l \<Rightarrow> 'k \<Rightarrow> 'l"
    and count :: "'l \<Rightarrow> nat"
  assumes look_default: "look default k = None"
    and look_put: "look (put l k q) = (look l)(k \<mapsto> q)"
    and look_del: "look (del l k) = (look l)(k := None)"
    and look_empty: "count l = 0 \<Longrightarrow> look l k = None"
    and count_del: "count (del l k) \<noteq> count l \<longleftrightarrow> look l k \<noteq> None"

text \<open>A map of such containers, as a partial function of both keys.\<close>

definition nested_look ::
    "('l \<Rightarrow> 'k \<Rightarrow> QoS option) \<Rightarrow> ('c, 'l) hash_map \<Rightarrow> 'c \<times> 'k \<Rightarrow> QoS option" where
  "nested_look look m ck = (case hm_get m (fst ck) of None \<Rightarrow> None | Some l \<Rightarrow> look l (snd ck))"

context sub_container
begin

lemma nested_put:
  "nested_look look
     (hm_insert c (put (case hm_get m c of Some l \<Rightarrow> l | None \<Rightarrow> default) k q) m) =
     (nested_look look m)((c, k) \<mapsto> q)"
  by (auto simp: nested_look_def hm_simps fun_eq_iff look_put look_default split: option.splits)

lemma nested_del:
  assumes "hm_get m c = Some l"
  shows "nested_look look
      (if count (del l k) = 0 then hm_remove c m else hm_insert c (del l k) m) =
      (nested_look look m)((c, k) := None)"
proof -
  have "look l k' = None" if "count (del l k) = 0" "k' \<noteq> k" for k'
    using look_del [of l k] look_empty [OF that(1), of k'] that(2) by (simp add: fun_eq_iff)
  then show ?thesis
    using assms by (auto simp: nested_look_def hm_simps fun_eq_iff look_del split: option.splits)
qed

lemma nested_del_existed:
  "hm_get m c = Some l \<Longrightarrow> count (del l k) \<noteq> count l \<longleftrightarrow> nested_look look m (c, k) \<noteq> None"
  by (simp add: nested_look_def count_del)

end

definition subs_look :: "Sub list \<Rightarrow> string \<Rightarrow> QoS option" where
  "subs_look subs = map_of (map (\<lambda>s. (as_str (sub_filter s), sub_qos s)) subs)"

definition group_look :: "SharedGroup \<Rightarrow> ClientId \<times> string \<Rightarrow> QoS option" where
  "group_look g = map_of (map (\<lambda>(c, s). ((c, as_str (sub_filter s)), sub_qos s)) (members g))"

abbreviation subs_del :: "Sub list \<Rightarrow> string \<Rightarrow> Sub list" where
  "subs_del subs flt \<equiv> filter (\<lambda>s. as_str (sub_filter s) \<noteq> flt) subs"

abbreviation group_del :: "SharedGroup \<Rightarrow> ClientId \<times> string \<Rightarrow> SharedGroup" where
  "group_del g k \<equiv> g\<lparr>members :=
     filter (\<lambda>(c, s). \<not> (c = fst k \<and> as_str (sub_filter s) = snd k)) (members g)\<rparr>"

lemma map_of_upsert:
  assumes "\<And>x. P x \<longleftrightarrow> key x = k" and "\<And>x. P x \<Longrightarrow> key (f x) = k \<and> val (f x) = v"
    and "key new = k" "val new = v"
  shows "map_of (map (\<lambda>x. (key x, val x)) (upsert P f new xs)) =
    (map_of (map (\<lambda>x. (key x, val x)) xs))(k \<mapsto> v)"
  using assms by (induction xs) (auto simp: fun_eq_iff)

lemma map_of_filter_key:
  "map_of (map (\<lambda>x. (key x, val x)) (filter (\<lambda>x. key x \<noteq> k) xs)) =
     (map_of (map (\<lambda>x. (key x, val x)) xs))(k := None)"
  by (induction xs) (auto simp: fun_eq_iff)

lemma length_filter_key:
  "length (filter (\<lambda>x. key x \<noteq> k) xs) \<noteq> length xs \<longleftrightarrow>
     map_of (map (\<lambda>x. (key x, val x)) xs) k \<noteq> None"
proof (induction xs)
  case (Cons x xs)
  have "length (filter (\<lambda>x. key x \<noteq> k) xs) \<noteq> Suc (length xs)"
    by (metis Suc_n_not_le_n length_filter_le)
  with Cons show ?case by auto
qed simp

interpretation nsubs: sub_container subs_look "[]" "\<lambda>l k q. subs_put l (TopicFilter k) q"
  subs_del length
proof
  fix l k q
  show "subs_look (subs_put l (TopicFilter k) q) = (subs_look l)(k \<mapsto> q)"
    unfolding subs_look_def subs_put_def by (rule map_of_upsert) auto
  show "subs_look (subs_del l k) = (subs_look l)(k := None)"
    unfolding subs_look_def by (rule map_of_filter_key)
  show "(length (subs_del l k) \<noteq> length l) = (subs_look l k \<noteq> None)"
    unfolding subs_look_def by (rule length_filter_key)
qed (auto simp: subs_look_def)

interpretation gsubs: sub_container group_look group_default
  "\<lambda>l k q. group_put l (fst k) (TopicFilter (snd k)) q" group_del "\<lambda>g. length (members g)"
proof -
  have eq: "(case x of (c, s) \<Rightarrow> ((c, as_str (sub_filter s)), sub_qos s)) =
      ((fst x, as_str (sub_filter (snd x))), sub_qos (snd x))" for x :: "ClientId \<times> Sub"
    by (cases x) simp
  have del: "group_del g k =
      g\<lparr>members := filter (\<lambda>x. (fst x, as_str (sub_filter (snd x))) \<noteq> k) (members g)\<rparr>" for g k
    by (cases k) (simp add: case_prod_unfold)
  show "sub_container group_look group_default
      (\<lambda>l k q. group_put l (fst k) (TopicFilter (snd k)) q) group_del (\<lambda>g. length (members g))"
  proof
    fix g and k :: "ClientId \<times> string" and q
    show "group_look (group_put g (fst k) (TopicFilter (snd k)) q) = (group_look g)(k \<mapsto> q)"
      unfolding group_look_def group_put_def eq select_convs update_convs
      by (simp, rule map_of_upsert) auto
    show "group_look (group_del g k) = (group_look g)(k := None)"
      unfolding group_look_def del eq by (simp add: map_of_filter_key)
    show "(length (members (group_del g k)) \<noteq> length (members g)) = (group_look g k \<noteq> None)"
      unfolding group_look_def del eq
      using length_filter_key [where key = "\<lambda>x. (fst x, as_str (sub_filter (snd x)))"]
      by (simp del: length_filter_le)
  qed (auto simp: group_look_def group_default_def)
qed

section \<open>Invariant\<close>

definition sub_key :: "Sub \<Rightarrow> string" where
  "sub_key s = as_str (sub_filter s)"

definition member_key :: "ClientId \<times> Sub \<Rightarrow> ClientId \<times> string" where
  "member_key m = (fst m, sub_key (snd m))"

definition subs_ok :: "Sub list \<Rightarrow> bool" where
  "subs_ok subs \<longleftrightarrow> subs \<noteq> [] \<and> distinct (map sub_key subs)"

definition group_ok :: "SharedGroup \<Rightarrow> bool" where
  "group_ok g \<longleftrightarrow> members g \<noteq> [] \<and> distinct (map member_key (members g))"

definition router_ok :: "Router \<Rightarrow> bool" where
  "router_ok r \<longleftrightarrow> hm_ok (normal r) \<and> hm_ok (shared r) \<and>
     (\<forall>(c, subs) \<in> set (normal r). subs_ok subs) \<and> (\<forall>(k, g) \<in> set (shared r). group_ok g)"

lemma upsert_not_Nil [simp]: "upsert P f new xs \<noteq> []"
  by (cases xs) auto

lemma set_upsert_keys:
  assumes "\<And>x. P x \<Longrightarrow> key (f x) = key x"
  shows "key ` set (upsert P f new xs) \<subseteq> insert (key new) (key ` set xs)"
  using assms by (induction xs) auto

lemma distinct_upsert:
  assumes "\<And>x. P x \<Longrightarrow> key (f x) = key x" and "\<And>x. P x \<longleftrightarrow> key x = key new"
    and "distinct (map key xs)"
  shows "distinct (map key (upsert P f new xs))"
  using assms(3)
proof (induction xs)
  case (Cons x xs)
  have "key x \<notin> key ` set (upsert P f new xs)" if "\<not> P x"
    using that Cons.prems set_upsert_keys [of P key f new xs, OF assms(1)] assms(2)
    by (auto simp del: upsert.simps)
  with Cons assms(1) show ?case by auto
qed simp

lemma subs_ok_put: "subs = [] \<or> subs_ok subs \<Longrightarrow> subs_ok (subs_put subs f q)"
  unfolding subs_ok_def subs_put_def by (auto intro!: distinct_upsert simp: sub_key_def)

lemma group_ok_put: "members g = [] \<or> group_ok g \<Longrightarrow> group_ok (group_put g c f q)"
  unfolding group_ok_def group_put_def
  by (auto intro!: distinct_upsert simp: sub_key_def member_key_def)

lemma subs_ok_del: "subs_ok subs \<Longrightarrow> filter P subs \<noteq> [] \<Longrightarrow> subs_ok (filter P subs)"
  by (auto simp: subs_ok_def distinct_map_filter)

lemma group_ok_del:
  "group_ok g \<Longrightarrow> filter P (members g) \<noteq> [] \<Longrightarrow> group_ok (g\<lparr>members := filter P (members g)\<rparr>)"
  by (auto simp: group_ok_def distinct_map_filter)

lemma router_ok_new [simp]: "router_ok router_new"
  by (simp add: router_ok_def router_new_def)

lemma router_ok_subscribe [simp]: "router_ok r \<Longrightarrow> router_ok (subscribe r c f q)"
  by (auto simp: router_ok_def subscribe_def Let_def hm_simps subs_ok_put hm_get_iff_mem
      split: option.splits)

lemma router_ok_subscribe_shared [simp]: "router_ok r \<Longrightarrow> router_ok (subscribe_shared r g c f q)"
  by (auto simp: router_ok_def subscribe_shared_def Let_def hm_simps group_ok_put hm_get_iff_mem
      group_default_def split: option.splits)

lemma router_ok_unsubscribe [simp]: "router_ok r \<Longrightarrow> router_ok (snd (unsubscribe r c f))"
  by (auto simp: router_ok_def unsubscribe_def Let_def hm_simps hm_get_iff_mem
      intro!: subs_ok_del split: option.splits)

lemma router_ok_unsubscribe_shared [simp]:
  "router_ok r \<Longrightarrow> router_ok (snd (unsubscribe_shared r g c f))"
  by (auto simp: router_ok_def unsubscribe_shared_def Let_def hm_simps hm_get_iff_mem
      intro!: group_ok_del split: option.splits)

lemma router_ok_remove_client [simp]: "router_ok r \<Longrightarrow> router_ok (remove_client r c)"
  by (auto simp: router_ok_def remove_client_def hm_simps group_drop_client_def
      intro!: group_ok_del)

lemma route_group_members [simp]: "members (snd (route_group t g)) = members g"
  by (simp add: route_group_def Let_def)

lemma router_ok_route [simp]: "router_ok r \<Longrightarrow> router_ok (snd (route r t))"
  by (auto simp: router_ok_def route_def Let_def hm_simps group_ok_def)

section \<open>The subscription table\<close>

definition normal_subs :: "Router \<Rightarrow> ClientId \<times> string \<Rightarrow> QoS option" where
  "normal_subs r = nested_look subs_look (normal r)"

definition shared_subs :: "Router \<Rightarrow> string \<times> (ClientId \<times> string) \<Rightarrow> QoS option" where
  "shared_subs r = nested_look group_look (shared r)"

lemma normal_subs_subscribe [simp]:
  "normal_subs (subscribe r c f q) = (normal_subs r)((c, as_str f) \<mapsto> q)"
  using nsubs.nested_put [of c "normal r" "as_str f" q]
  by (simp add: normal_subs_def subscribe_def Let_def)

lemma shared_subs_subscribe [simp]: "shared_subs (subscribe r c f q) = shared_subs r"
  by (simp add: shared_subs_def subscribe_def Let_def)

lemma shared_subs_subscribe_shared [simp]:
  "shared_subs (subscribe_shared r g c f q) = (shared_subs r)((g, c, as_str f) \<mapsto> q)"
  using gsubs.nested_put [of g "shared r" "(c, as_str f)" q]
  by (simp add: shared_subs_def subscribe_shared_def Let_def)

lemma normal_subs_subscribe_shared [simp]: "normal_subs (subscribe_shared r g c f q) = normal_subs r"
  by (simp add: normal_subs_def subscribe_shared_def Let_def)

lemma normal_subs_unsubscribe [simp]:
  "normal_subs (snd (unsubscribe r c f)) = (normal_subs r)((c, f) := None)"
proof (cases "hm_get (normal r) c")
  case None
  then have "normal_subs r (c, f) = None" by (simp add: normal_subs_def nested_look_def)
  with None show ?thesis by (simp add: unsubscribe_def fun_upd_idem)
next
  case (Some l)
  then show ?thesis
    using nsubs.nested_del [OF Some, of f] by (simp add: normal_subs_def unsubscribe_def Let_def)
qed

lemma unsubscribe_existed: "fst (unsubscribe r c f) \<longleftrightarrow> normal_subs r (c, f) \<noteq> None"
  using nsubs.count_del by (auto simp: normal_subs_def unsubscribe_def Let_def nested_look_def
      split: option.splits)

lemma shared_subs_unsubscribe [simp]: "shared_subs (snd (unsubscribe r c f)) = shared_subs r"
  by (auto simp: shared_subs_def unsubscribe_def Let_def split: option.splits)

lemma shared_subs_unsubscribe_shared [simp]:
  "shared_subs (snd (unsubscribe_shared r g c f)) = (shared_subs r)((g, c, f) := None)"
proof (cases "hm_get (shared r) g")
  case None
  then have "shared_subs r (g, c, f) = None" by (simp add: shared_subs_def nested_look_def)
  with None show ?thesis by (simp add: unsubscribe_shared_def fun_upd_idem)
next
  case (Some l)
  then show ?thesis using gsubs.nested_del [OF Some, of "(c, f)"]
    by (simp add: shared_subs_def unsubscribe_shared_def Let_def cong: if_cong)
qed

lemma unsubscribe_shared_existed:
  "fst (unsubscribe_shared r g c f) \<longleftrightarrow> shared_subs r (g, c, f) \<noteq> None"
  using gsubs.count_del [where k = "(c, f)"]
  by (auto simp: shared_subs_def unsubscribe_shared_def Let_def nested_look_def
      split: option.splits)

lemma normal_subs_unsubscribe_shared [simp]:
  "normal_subs (snd (unsubscribe_shared r g c f)) = normal_subs r"
  by (auto simp: normal_subs_def unsubscribe_shared_def Let_def split: option.splits)

lemma nested_look_Some:
  "hm_ok m \<Longrightarrow> nested_look look m (c, k) = Some q \<longleftrightarrow> (\<exists>l. (c, l) \<in> set m \<and> look l k = Some q)"
  using hm_get_iff_mem [of m c]
  by (cases "hm_get m c") (auto simp: nested_look_def simp del: map_of_eq_Some_iff)

lemma subs_look_iff:
  assumes "subs_ok subs"
  shows "subs_look subs f = Some q \<longleftrightarrow> (\<exists>s \<in> set subs. sub_key s = f \<and> sub_qos s = q)"
proof -
  have "hm_ok (map (\<lambda>s. (as_str (sub_filter s), sub_qos s)) subs)"
    using assms by (simp add: subs_ok_def comp_def flip: sub_key_def)
  then show ?thesis by (auto simp: subs_look_def hm_get_iff_mem sub_key_def)
qed

lemma group_look_iff:
  assumes "group_ok g"
  shows "group_look g (c, f) = Some q \<longleftrightarrow>
    (\<exists>s. (c, s) \<in> set (members g) \<and> sub_key s = f \<and> sub_qos s = q)"
proof -
  have "hm_ok (map (\<lambda>(c, s). ((c, as_str (sub_filter s)), sub_qos s)) (members g))"
    using assms by (simp add: group_ok_def comp_def case_prod_unfold member_key_def [abs_def]
        sub_key_def)
  then show ?thesis by (auto simp: group_look_def hm_get_iff_mem sub_key_def)
qed

lemma normal_subs_iff:
  "router_ok r \<Longrightarrow> normal_subs r (c, f) = Some q \<longleftrightarrow>
     (\<exists>subs. (c, subs) \<in> set (normal r) \<and> (\<exists>s \<in> set subs. sub_key s = f \<and> sub_qos s = q))"
  by (auto simp: router_ok_def normal_subs_def nested_look_Some dest!: subs_look_iff [THEN iffD1, rotated]
      intro!: subs_look_iff [THEN iffD2])

lemma shared_subs_iff:
  "router_ok r \<Longrightarrow> shared_subs r (k, c, f) = Some q \<longleftrightarrow>
     (\<exists>g s. (k, g) \<in> set (shared r) \<and> (c, s) \<in> set (members g) \<and> sub_key s = f \<and> sub_qos s = q)"
  by (auto simp: router_ok_def shared_subs_def nested_look_Some dest!: group_look_iff [THEN iffD1, rotated]
      intro!: group_look_iff [THEN iffD2])

section \<open>Routing\<close>

lemma iter_max_iff: "iter_max qs = Some q \<longleftrightarrow> q \<in> set qs \<and> (\<forall>q' \<in> set qs. q' \<le> q)"
proof (cases qs)
  case (Cons x xs)
  have "fold max xs x = Max (set qs)" using Max.set_eq_fold [of x xs] by (simp add: Cons)
  then have "iter_max qs = Some q \<longleftrightarrow> q = Max (set qs)" by (auto simp: Cons)
  also have "\<dots> \<longleftrightarrow> q \<in> set qs \<and> (\<forall>q' \<in> set qs. q' \<le> q)"
    by (metis Cons List.finite_set Max_eqI Max_ge Max_in empty_iff list.set_intros(1))
  finally show ?thesis .
qed simp

lemma granted_qos_iff:
  "granted_qos t subs = Some q \<longleftrightarrow>
     (\<exists>s \<in> set subs. topic_matches (sub_key s) t \<and> sub_qos s = q) \<and>
     (\<forall>s \<in> set subs. topic_matches (sub_key s) t \<longrightarrow> sub_qos s \<le> q)"
  by (auto simp: granted_qos_def iter_max_iff topic_filter_matches_def sub_key_def)

lemma set_map_filter: "set (List.map_filter f xs) = {y. \<exists>x \<in> set xs. f x = Some y}"
  by (induction xs) (auto simp: List.map_filter_simps split: option.split)

lemma map_fst_map_filter_values:
  "map fst (List.map_filter (\<lambda>(k, v). map_option (\<lambda>x. (k, x)) (f v)) m) =
     map fst (filter (\<lambda>(k, v). f v \<noteq> None) m)"
  by (induction m) (auto simp: List.map_filter_simps split: option.split)

lemma mem_matching_subscribers:
  "(c, q) \<in> set (matching_subscribers r t) \<longleftrightarrow>
     (\<exists>subs. (c, subs) \<in> set (normal r) \<and> granted_qos t subs = Some q)"
  by (force simp: matching_subscribers_def set_map_filter)

lemma distinct_matching_subscribers:
  assumes "router_ok r"
  shows "distinct (map fst (matching_subscribers r t))"
proof -
  let ?xs = "List.map_filter (\<lambda>(client, subs).
       map_option (\<lambda>qos. (client, qos)) (granted_qos t subs)) (normal r)"
  have "distinct (map fst ?xs)"
    using assms by (simp add: map_fst_map_filter_values router_ok_def hm_ok_filter)
  moreover have "mset (map fst (matching_subscribers r t)) = mset (map fst ?xs)"
    by (simp add: matching_subscribers_def)
  ultimately show ?thesis using mset_eq_imp_distinct_iff by blast
qed

lemma matching_subscribers_iff:
  assumes "router_ok r"
  shows "(c, q) \<in> set (matching_subscribers r t) \<longleftrightarrow>
    (\<exists>f. normal_subs r (c, f) = Some q \<and> topic_matches f t) \<and>
    (\<forall>f q'. normal_subs r (c, f) = Some q' \<and> topic_matches f t \<longrightarrow> q' \<le> q)"
proof (cases "\<exists>subs. (c, subs) \<in> set (normal r)")
  case True
  then obtain subs where "(c, subs) \<in> set (normal r)" ..
  with assms have "(\<exists>subs'. (c, subs') \<in> set (normal r) \<and> Q subs') \<longleftrightarrow> Q subs" for Q
    by (auto simp: router_ok_def dest: eq_key_imp_eq_value)
  then show ?thesis
    by (auto simp: mem_matching_subscribers granted_qos_iff normal_subs_iff [OF assms])
next
  case False
  then show ?thesis by (auto simp: mem_matching_subscribers normal_subs_iff [OF assms])
qed

text \<open>
  C28. The router implements a table from (client, filter) and (group, client, filter) to the
  granted QoS. A subscription sets exactly its own entry, so that subscribing again replaces the
  QoS; an unsubscription clears exactly its own entry and reports whether it was there.
\<close>

theorem subscription_table_refinement:
  "normal_subs (subscribe r c f q) = (normal_subs r)((c, as_str f) \<mapsto> q) \<and>
   shared_subs (subscribe r c f q) = shared_subs r \<and>
   shared_subs (subscribe_shared r g c f q) = (shared_subs r)((g, c, as_str f) \<mapsto> q) \<and>
   normal_subs (subscribe_shared r g c f q) = normal_subs r \<and>
   unsubscribe r c s = (normal_subs r (c, s) \<noteq> None, snd (unsubscribe r c s)) \<and>
   normal_subs (snd (unsubscribe r c s)) = (normal_subs r)((c, s) := None) \<and>
   shared_subs (snd (unsubscribe r c s)) = shared_subs r \<and>
   unsubscribe_shared r g c s = (shared_subs r (g, c, s) \<noteq> None, snd (unsubscribe_shared r g c s)) \<and>
   shared_subs (snd (unsubscribe_shared r g c s)) = (shared_subs r)((g, c, s) := None) \<and>
   normal_subs (snd (unsubscribe_shared r g c s)) = normal_subs r"
  by (simp add: prod_eq_iff unsubscribe_existed unsubscribe_shared_existed)

lemma group_look_drop_client:
  "group_look (group_drop_client client g) (c, f) = (if c = client then None else group_look g (c, f))"
proof -
  have "map_of (map h (filter (\<lambda>(c, _). c \<noteq> client) xs)) (c, f) =
      (if c = client then None else map_of (map h xs) (c, f))"
    if "h = (\<lambda>(c, s). ((c, as_str (sub_filter s)), sub_qos s))" for h and xs :: "(ClientId \<times> Sub) list"
    unfolding that by (induction xs) auto
  then show ?thesis by (simp add: group_look_def group_drop_client_def)
qed

lemma normal_subs_remove_client [simp]:
  "normal_subs (remove_client r client) (c, f) = (if c = client then None else normal_subs r (c, f))"
  by (simp add: normal_subs_def remove_client_def nested_look_def hm_simps)

lemma shared_subs_remove_client [simp]:
  assumes "router_ok r"
  shows "shared_subs (remove_client r client) (g, c, f) =
    (if c = client then None else shared_subs r (g, c, f))"
proof -
  let ?m = "map (\<lambda>(k, g). (k, group_drop_client client g)) (shared r)"
  have "hm_ok ?m" using assms by (simp add: router_ok_def)
  then have "shared_subs (remove_client r client) (g, c, f) = nested_look group_look ?m (g, c, f)"
    by (auto simp: shared_subs_def remove_client_def nested_look_def hm_get_filter group_look_def
        split: option.splits)
  also have "\<dots> = (if c = client then None else shared_subs r (g, c, f))"
    by (auto simp: shared_subs_def nested_look_def hm_simps group_look_drop_client split: option.splits)
  finally show ?thesis .
qed

lemma route_group_Some:
  "fst (route_group t g) = Some p \<Longrightarrow> p \<in> set (group_matching t g)"
  by (auto simp: route_group_def Let_def split: if_splits)

lemma route_group_None: "fst (route_group t g) = None \<longleftrightarrow> group_matching t g = []"
  by (simp add: route_group_def Let_def)

lemma mem_group_matching:
  "(c, q) \<in> set (group_matching t g) \<longleftrightarrow>
     (\<exists>s. (c, s) \<in> set (members g) \<and> sub_qos s = q \<and> topic_matches (sub_key s) t)"
  by (auto simp: group_matching_def topic_filter_matches_def sub_key_def image_iff)

lemma mem_route:
  "(c, q) \<in> set (fst (route r t)) \<longleftrightarrow> (c, q) \<in> set (matching_subscribers r t) \<or>
     (\<exists>k g. (k, g) \<in> set (shared r) \<and> fst (route_group t g) = Some (c, q))"
  by (auto simp: route_def Let_def set_map_filter)

text \<open>
  C29. Dropping a client removes every normal subscription and every group membership of that
  client and leaves those of the other clients as they were; afterwards nothing is routed to it.
\<close>

theorem remove_client_correct:
  assumes "router_ok r"
  shows "normal_subs (remove_client r client) (c, f) =
      (if c = client then None else normal_subs r (c, f)) \<and>
    shared_subs (remove_client r client) (g, c, f) =
      (if c = client then None else shared_subs r (g, c, f)) \<and>
    client \<notin> fst ` set (fst (route (remove_client r client) t))"
proof (intro conjI)
  have "(client, q) \<notin> set (matching_subscribers (remove_client r client) t)" for q
    by (auto simp: mem_matching_subscribers remove_client_def hm_simps)
  moreover have "(client, q) \<notin> set (group_matching t g)"
    if "(k, g) \<in> set (shared (remove_client r client))" for k g q
    using that by (auto simp: mem_group_matching remove_client_def group_drop_client_def)
  ultimately show "client \<notin> fst ` set (fst (route (remove_client r client) t))"
    using route_group_Some by (auto simp: mem_route) metis
qed (simp_all add: assms)

theorem remove_client_correct_witness:
  "\<exists>r. router_ok r \<and> fst (route r ''jobs'') = [(1, AtMostOnce)] \<and>
     1 \<notin> fst ` set (fst (route (remove_client r 1) ''jobs''))"
proof -
  define r where "r = subscribe_shared router_new ''workers'' 1 (TopicFilter ''jobs'') AtMostOnce"
  have ok: "router_ok r" by (simp add: r_def)
  have "fst (route r ''jobs'') = [(1, AtMostOnce)]" unfolding r_def by code_simp
  then show ?thesis using ok remove_client_correct [OF ok, of 1 _ _ _ "''jobs''"] by blast
qed

lemma hm_get_shared_route:
  "hm_get (shared (snd (route r t))) k = map_option (\<lambda>g. snd (route_group t g)) (hm_get (shared r) k)"
  by (simp add: route_def Let_def hm_get_map_values)

lemma normal_subs_route [simp]: "normal_subs (snd (route r t)) = normal_subs r"
  by (simp add: normal_subs_def route_def Let_def)

lemma shared_subs_route [simp]: "shared_subs (snd (route r t)) = shared_subs r"
  by (auto simp: shared_subs_def nested_look_def fun_eq_iff hm_get_shared_route group_look_def
      split: option.split)

text \<open>The groups with a member whose filter matches, and the member the loop picks from each.\<close>

definition matching_groups :: "Router \<Rightarrow> string \<Rightarrow> string set" where
  "matching_groups r t = {g. \<exists>c f q. shared_subs r (g, c, f) = Some q \<and> topic_matches f t}"

definition group_pick :: "Router \<Rightarrow> string \<Rightarrow> string \<Rightarrow> ClientId \<times> QoS" where
  "group_pick r t k = the (fst (route_group t (the (hm_get (shared r) k))))"

lemma matching_groups_eq:
  assumes "router_ok r"
  shows "matching_groups r t =
    fst ` set (filter (\<lambda>(k, g). fst (route_group t g) \<noteq> None) (shared r))"
proof -
  have "fst (route_group t g) \<noteq> None \<longleftrightarrow>
      (\<exists>c s. (c, s) \<in> set (members g) \<and> topic_matches (sub_key s) t)" for g
    unfolding route_group_None
    by (auto simp: group_matching_def filter_empty_conv topic_filter_matches_def sub_key_def)
  then show ?thesis by (force simp: matching_groups_def shared_subs_iff [OF assms])
qed

lemma mset_group_picks:
  assumes "router_ok r"
  shows "mset (List.map_filter (\<lambda>(_, g). fst (route_group t g)) (shared r)) =
    image_mset (group_pick r t) (mset_set (matching_groups r t))"
proof -
  define ys where "ys = filter (\<lambda>(k, g). fst (route_group t g) \<noteq> None) (shared r)"
  have ok: "hm_ok (shared r)" using assms by (simp add: router_ok_def)
  have "List.map_filter (\<lambda>(_, g). fst (route_group t g)) (shared r) =
      map (\<lambda>(_, g). the (fst (route_group t g))) ys"
    by (simp add: List.map_filter_def ys_def comp_def case_prod_unfold)
  also have "\<dots> = map (group_pick r t) (map fst ys)"
    using ok by (auto simp: ys_def group_pick_def)
  finally have "mset (List.map_filter (\<lambda>(_, g). fst (route_group t g)) (shared r)) =
      image_mset (group_pick r t) (mset (map fst ys))"
    by (simp add: multiset.map_comp)
  moreover have "mset (map fst ys) = mset_set (matching_groups r t)"
    using ok mset_set_set [of "map fst ys"]
    by (simp add: matching_groups_eq [OF assms] ys_def hm_ok_filter)
  ultimately show ?thesis by simp
qed



section \<open>Round robin\<close>

text \<open>The members that share group \<open>k\<close> contributes to \<open>n\<close> successive messages on a topic.\<close>

fun router_picks :: "nat \<Rightarrow> string \<Rightarrow> string \<Rightarrow> Router \<Rightarrow> (ClientId \<times> QoS) list" where
  "router_picks 0 k t r = []"
| "router_picks (Suc n) k t r =
     (case hm_get (shared r) k of
        None \<Rightarrow> []
      | Some g \<Rightarrow> (case fst (route_group t g) of
          None \<Rightarrow> []
        | Some p \<Rightarrow> p # router_picks n k t (snd (route r t))))"

lemma router_picks_nth:
  assumes "hm_get (shared r) k = Some g" "group_matching t g \<noteq> []" "unat (cursor g) + n < 2 ^ 64"
  shows "router_picks n k t r =
    map (\<lambda>i. group_matching t g ! ((unat (cursor g) + i) mod length (group_matching t g))) [0..<n]"
  using assms
proof (induction n arbitrary: r g)
  case (Suc n)
  define g' where "g' = snd (route_group t g)"
  have g': "g' = g\<lparr>cursor := cursor g + 1\<rparr>" using Suc.prems(2) by (simp add: g'_def route_group_def Let_def)
  have m: "group_matching t g' = group_matching t g" by (simp add: g' group_matching_def)
  have c: "unat (cursor g') = Suc (unat (cursor g))"
    using Suc.prems(3) by (simp add: g' unat_word_ariths)
  have "hm_get (shared (snd (route r t))) k = Some g'"
    by (simp add: hm_get_shared_route Suc.prems(1) g'_def)
  then have "router_picks n k t (snd (route r t)) =
      map (\<lambda>i. group_matching t g ! ((Suc (unat (cursor g)) + i) mod length (group_matching t g))) [0..<n]"
    using Suc.IH [of "snd (route r t)" g'] Suc.prems(2,3) by (simp add: m c)
  with Suc.prems(1,2) show ?case
    by (simp add: route_group_def Let_def upt_conv_Cons map_Suc_upt [symmetric] comp_def
        del: upt_Suc map_Suc_upt)
qed simp

text \<open>
  C21. Round robin is fair: as many messages as a share group has matching members go to each of
  them once, in subscription order starting from the cursor (as long as the counter does not
  wrap around in between).
\<close>

theorem route_round_robin:
  assumes "hm_get (shared r) k = Some g" and "group_matching t g \<noteq> []"
    and "unat (cursor g) + length (group_matching t g) < 2 ^ 64"
  shows "router_picks (length (group_matching t g)) k t r =
    rotate (unat (cursor g) mod length (group_matching t g)) (group_matching t g)"
  unfolding router_picks_nth [OF assms]
  by (rule nth_equalityI) (simp_all add: nth_rotate mod_simps)

theorem route_round_robin_witness:
  "\<exists>r g. hm_get (shared r) ''w'' = Some g \<and>
     router_picks 3 ''w'' ''jobs'' r = [(1, AtMostOnce), (2, AtMostOnce), (3, AtMostOnce)] \<and>
     router_picks 3 ''w'' ''jobs'' r = rotate (unat (cursor g) mod 3) (group_matching ''jobs'' g)"
proof -
  define s where "s = \<lparr>sub_filter = TopicFilter ''jobs'', sub_qos = AtMostOnce\<rparr>"
  define g where "g = \<lparr>members = [(1, s), (2, s), (3, s)], cursor = 0\<rparr>"
  define r where "r = \<lparr>normal = [], shared = [(''w'', g)]\<rparr>"
  have m: "group_matching ''jobs'' g = [(1, AtMostOnce), (2, AtMostOnce), (3, AtMostOnce)]"
    unfolding g_def s_def by code_simp
  have l: "length (group_matching ''jobs'' g) = 3" by (simp add: m)
  have g: "hm_get (shared r) ''w'' = Some g" "group_matching ''jobs'' g \<noteq> []"
    "unat (cursor g) + length (group_matching ''jobs'' g) < 2 ^ 64"
    by (simp_all add: r_def m) (simp add: g_def)
  have "router_picks 3 ''w'' ''jobs'' r = rotate (unat (cursor g) mod 3) (group_matching ''jobs'' g)"
    using route_round_robin [OF g] by (simp only: l)
  moreover have "rotate (unat (cursor g) mod 3) (group_matching ''jobs'' g) =
      [(1, AtMostOnce), (2, AtMostOnce), (3, AtMostOnce)]"
    by (simp add: m) (simp add: g_def)
  ultimately show ?thesis using g(1) by (intro exI [of _ r] exI [of _ g]) simp
qed

section \<open>Iteration order\<close>

lemma mset_map_filter:
  "mset xs = mset ys \<Longrightarrow> mset (List.map_filter f xs) = mset (List.map_filter f ys)"
  by (simp add: List.map_filter_def)

text \<open>
  C30. Rust leaves the iteration order of the two hash maps open. Whatever it is, routing a topic
  reaches the same recipients, each as often, and leaves every share group in the same state.
\<close>

theorem route_order_irrelevant:
  assumes "router_ok r" and "mset (normal r') = mset (normal r)" and "mset (shared r') = mset (shared r)"
  shows "mset (fst (route r' t)) = mset (fst (route r t)) \<and>
    map_of (shared (snd (route r' t))) = map_of (shared (snd (route r t)))"
proof
  show "mset (fst (route r' t)) = mset (fst (route r t))"
    by (simp add: route_def Let_def matching_subscribers_def
        mset_map_filter [OF assms(2)] mset_map_filter [OF assms(3)])
  have "hm_get (shared r') = hm_get (shared r)"
    using hm_get_mset [OF assms(3)] assms(1) by (simp add: router_ok_def)
  then show "map_of (shared (snd (route r' t))) = map_of (shared (snd (route r t)))"
    by (simp add: fun_eq_iff hm_get_shared_route)
qed

theorem route_order_irrelevant_witness:
  "\<exists>r r'. router_ok r \<and> shared r' = rev (shared r) \<and> length (shared r) = 2 \<and>
     mset (fst (route r' ''t'')) = mset (fst (route r ''t''))"
proof -
  define r where "r = subscribe_shared (subscribe_shared router_new ''a'' 1 (TopicFilter ''t'') AtMostOnce)
      ''b'' 2 (TopicFilter ''t'') AtMostOnce"
  define r' where "r' = r\<lparr>shared := rev (shared r)\<rparr>"
  have ok: "router_ok r" by (simp add: r_def)
  have "mset (normal r') = mset (normal r)" "mset (shared r') = mset (shared r)" by (simp_all add: r'_def)
  then have "mset (fst (route r' ''t'')) = mset (fst (route r ''t''))"
    using route_order_irrelevant [OF ok] by blast
  moreover have "length (shared r) = 2"
    by (simp add: r_def subscribe_shared_def Let_def router_new_def)
  ultimately show ?thesis using ok by (intro exI [of _ r] exI [of _ r']) (simp add: r'_def)
qed

end
