(* ===== verification/Packet.thy ===== *)
theory Packet
  imports Message
begin

text \<open>
  The MQTT packets the server exchanges with its codec, reduced to the fields the source reads or
  sets, and the helpers of \<open>hub.rs\<close> and \<open>connection.rs\<close> that build them. A \<open>NonZeroU16\<close> packet
  identifier is a \<open>u16\<close>; where the source constructs one from a possibly zero value the model
  uses \<open>nonzero_new\<close>.
\<close>

datatype WireQoS = WireAtMostOnce | WireAtLeastOnce | WireExactlyOnce

definition nonzero_new :: "u16 \<Rightarrow> u16 option" where
  "nonzero_new x = (if x = 0 then None else Some x)"

record Publish =
  p_dup :: bool
  p_retain :: bool
  p_qos :: WireQoS
  p_topic :: string
  p_packet_id :: "u16 option"
  p_payload :: bytes
  p_user_properties :: "(string \<times> string) list"

record LastWill =
  w_topic :: string
  w_message :: bytes
  w_qos :: WireQoS
  w_retain :: bool

record Connect =
  c_client_id :: string
  c_clean_start :: bool
  c_password :: "bytes option"
  c_last_will :: "LastWill option"
  c_session_expiry_interval_secs :: u32

datatype ConnectAckReason = ConnSuccess | ConnNotAuthorized
datatype PublishAckReason = PubSuccess | PubNotAuthorized | PubOtherReason u8
datatype SubscribeAckReason =
  GrantedQos0 | GrantedQos1 | GrantedQos2 | SubNotAuthorized | SubQuotaExceeded | SubTopicFilterInvalid
datatype UnsubscribeAckReason = UnsubSuccess | NoSubscriptionExisted
datatype DisconnectReasonCode = NormalDisconnection | OtherDisconnection u8

datatype Packet =
    PktConnect Connect
  | PktConnectAck bool ConnectAckReason
  | PktPublish Publish
  | PktPublishAck u16 PublishAckReason
  | PktPublishReceived u16 PublishAckReason
  | PktPublishRelease u16
  | PktPublishComplete u16
  | PktSubscribe u16 "(string \<times> WireQoS) list"
  | PktSubscribeAck u16 "SubscribeAckReason list"
  | PktUnsubscribe u16 "string list"
  | PktUnsubscribeAck u16 "UnsubscribeAckReason list"
  | PktPingRequest
  | PktPingResponse
  | PktDisconnect DisconnectReasonCode
  | PktAuth

section \<open>Helpers of hub.rs\<close>

primrec to_core_qos :: "WireQoS \<Rightarrow> QoS" where
  "to_core_qos WireAtMostOnce = AtMostOnce"
| "to_core_qos WireAtLeastOnce = AtLeastOnce"
| "to_core_qos WireExactlyOnce = ExactlyOnce"

definition pubrel :: "u16 \<Rightarrow> Packet" where
  "pubrel packet_id = PktPublishRelease packet_id"

definition make_publish ::
    "string \<Rightarrow> bytes \<Rightarrow> WireQoS \<Rightarrow> u16 option \<Rightarrow> bool \<Rightarrow> bool \<Rightarrow> Publish" where
  "make_publish topic payload qos packet_id retain dup =
     \<lparr>p_dup = dup, p_retain = retain, p_qos = qos, p_topic = topic, p_packet_id = packet_id,
      p_payload = payload, p_user_properties = []\<rparr>"

definition is_dlq_topic :: "string \<Rightarrow> bool" where
  "is_dlq_topic topic = starts_with ''$dlq/'' topic"

section \<open>Helpers of connection.rs\<close>

primrec granted_reason :: "QoS \<Rightarrow> SubscribeAckReason" where
  "granted_reason AtMostOnce = GrantedQos0"
| "granted_reason AtLeastOnce = GrantedQos1"
| "granted_reason ExactlyOnce = GrantedQos2"

definition pubrec :: "u16 \<Rightarrow> Packet" where
  "pubrec packet_id = PktPublishReceived packet_id PubSuccess"

definition pubcomp :: "u16 \<Rightarrow> Packet" where
  "pubcomp packet_id = PktPublishComplete packet_id"

lemma make_publish_sel [simp]:
  "p_dup (make_publish t p q i r d) = d" "p_retain (make_publish t p q i r d) = r"
  "p_qos (make_publish t p q i r d) = q" "p_topic (make_publish t p q i r d) = t"
  "p_packet_id (make_publish t p q i r d) = i" "p_payload (make_publish t p q i r d) = p"
  "p_user_properties (make_publish t p q i r d) = []"
  by (simp_all add: make_publish_def)

lemma nonzero_new_nz [simp]: "x \<noteq> 0 \<Longrightarrow> nonzero_new x = Some x"
  by (simp add: nonzero_new_def)

lemma nonzero_new_SomeD: "nonzero_new x = Some y \<Longrightarrow> y = x \<and> x \<noteq> 0"
  by (simp add: nonzero_new_def split: if_splits)

end
