(* ===== verification/Utf8.thy ===== *)
theory Utf8
  imports Relay_Prelude
begin

text \<open>
  The two conversions between bytes and strings that the source takes from the Rust standard
  library: \<open>std::str::from_utf8\<close> and \<open>String::from_utf8_lossy\<close>. A string is its UTF-8 byte
  sequence, so \<open>as_bytes\<close> only changes the type of the elements.
\<close>

definition str_bytes :: "string \<Rightarrow> bytes" where
  "str_bytes s = map (\<lambda>c. of_nat (of_char c)) s"

definition bytes_str :: "bytes \<Rightarrow> string" where
  "bytes_str bs = map (\<lambda>b. char_of (unat b)) bs"

definition byte_in :: "nat \<Rightarrow> nat \<Rightarrow> u8 \<Rightarrow> bool" where
  "byte_in lo hi b \<longleftrightarrow> lo \<le> unat b \<and> unat b \<le> hi"

text \<open>The range of the second byte of a well-formed sequence (Unicode, table 3-7).\<close>

definition second_ok :: "u8 \<Rightarrow> u8 \<Rightarrow> bool" where
  "second_ok b0 b1 =
     (if b0 = 0xE0 then byte_in 0xA0 0xBF b1
      else if b0 = 0xED then byte_in 0x80 0x9F b1
      else if b0 = 0xF0 then byte_in 0x90 0xBF b1
      else if b0 = 0xF4 then byte_in 0x80 0x8F b1
      else byte_in 0x80 0xBF b1)"

text \<open>
  The first chunk of a non-empty byte list: how many bytes it takes, and whether they are one
  well-formed sequence. An ill-formed chunk is the longest prefix of a well-formed sequence, or
  one byte.
\<close>

definition utf8_chunk :: "bytes \<Rightarrow> nat \<times> bool" where
  "utf8_chunk bs = (case bs of
     [] \<Rightarrow> (0, True)
   | b0 # rest \<Rightarrow>
      if byte_in 0 0x7F b0 then (1, True)
      else if byte_in 0xC2 0xDF b0 then
        (case rest of b1 # _ \<Rightarrow> if second_ok b0 b1 then (2, True) else (1, False) | [] \<Rightarrow> (1, False))
      else if byte_in 0xE0 0xEF b0 then
        (case rest of
           b1 # rest2 \<Rightarrow> if second_ok b0 b1
             then (case rest2 of
                b2 # _ \<Rightarrow> if byte_in 0x80 0xBF b2 then (3, True) else (2, False)
              | [] \<Rightarrow> (2, False))
             else (1, False)
         | [] \<Rightarrow> (1, False))
      else if byte_in 0xF0 0xF4 b0 then
        (case rest of
           b1 # rest2 \<Rightarrow> if second_ok b0 b1
             then (case rest2 of
                b2 # rest3 \<Rightarrow> if byte_in 0x80 0xBF b2
                  then (case rest3 of
                     b3 # _ \<Rightarrow> if byte_in 0x80 0xBF b3 then (4, True) else (3, False)
                   | [] \<Rightarrow> (3, False))
                  else (2, False)
              | [] \<Rightarrow> (2, False))
             else (1, False)
         | [] \<Rightarrow> (1, False))
      else (1, False))"

lemma utf8_chunk_pos: "bs \<noteq> [] \<Longrightarrow> 0 < fst (utf8_chunk bs)"
  by (cases bs) (auto simp: utf8_chunk_def split: list.split)

function utf8_valid :: "bytes \<Rightarrow> bool" where
  "utf8_valid bs =
     (if bs = [] then True
      else snd (utf8_chunk bs) \<and> utf8_valid (drop (fst (utf8_chunk bs)) bs))"
  by pat_completeness auto
termination
  by (relation "measure length") (simp_all add: utf8_chunk_pos)

text \<open>U+FFFD replaces each ill-formed chunk.\<close>

definition replacement :: bytes where
  "replacement = [0xEF, 0xBF, 0xBD]"

function utf8_lossy :: "bytes \<Rightarrow> bytes" where
  "utf8_lossy bs =
     (if bs = [] then []
      else (if snd (utf8_chunk bs) then take (fst (utf8_chunk bs)) bs else replacement) @
        utf8_lossy (drop (fst (utf8_chunk bs)) bs))"
  by pat_completeness auto
termination
  by (relation "measure length") (simp_all add: utf8_chunk_pos)

declare utf8_valid.simps [simp del] utf8_lossy.simps [simp del]

definition from_utf8_lossy :: "bytes \<Rightarrow> string" where
  "from_utf8_lossy bs = bytes_str (utf8_lossy bs)"

definition from_utf8 :: "bytes \<Rightarrow> string option" where
  "from_utf8 bs = (if utf8_valid bs then Some (bytes_str bs) else None)"

text \<open>A value of type \<open>String\<close> is well-formed.\<close>

definition string_ok :: "string \<Rightarrow> bool" where
  "string_ok s \<longleftrightarrow> utf8_valid (str_bytes s)"

lemma unat_of_char [simp]: "unat (of_nat (of_char c) :: u8) = of_char c"
  by (simp add: unat_of_nat)

lemma bytes_str_str_bytes [simp]: "bytes_str (str_bytes s) = s"
  by (simp add: bytes_str_def str_bytes_def comp_def)

lemma length_str_bytes [simp]: "length (str_bytes s) = length s"
  by (simp add: str_bytes_def)

lemma utf8_lossy_valid: "utf8_valid bs \<Longrightarrow> utf8_lossy bs = bs"
proof (induction bs rule: utf8_valid.induct)
  case (1 bs)
  then show ?case
    unfolding utf8_valid.simps [of bs] utf8_lossy.simps [of bs] by (cases "bs = []") simp_all
qed

lemma from_utf8_lossy_str_bytes: "string_ok s \<Longrightarrow> from_utf8_lossy (str_bytes s) = s"
  by (simp add: from_utf8_lossy_def string_ok_def utf8_lossy_valid)

lemma from_utf8_str_bytes: "string_ok s \<Longrightarrow> from_utf8 (str_bytes s) = Some s"
  by (simp add: from_utf8_def string_ok_def)

text \<open>ASCII strings are well-formed.\<close>

lemma utf8_valid_ascii: "\<forall>b \<in> set bs. unat b < 128 \<Longrightarrow> utf8_valid bs"
proof (induction bs)
  case (Cons b bs)
  then have "utf8_chunk (b # bs) = (1, True)" by (simp add: utf8_chunk_def byte_in_def)
  with Cons show ?case by (simp add: utf8_valid.simps [of "b # bs"])
qed (simp add: utf8_valid.simps)

lemma string_ok_ascii: "\<forall>c \<in> set s. (of_char c :: nat) < 128 \<Longrightarrow> string_ok s"
  unfolding string_ok_def
  by (rule utf8_valid_ascii) (auto simp: str_bytes_def)

end
