(* ===== verification/Inflight.thy ===== *)
theory Inflight
  imports Packet Utf8 "HOL-Library.Monad_Syntax"
begin

text \<open>
  The in-flight queue of a session and its persistent form (\<open>hub.rs\<close>): the retry policy and its
  back-off, the byte cursor, the encodings of in-flight entries, dead letters and logged events,
  and the decoders. A \<open>Duration\<close> is a number of nanoseconds bounded by \<open>Duration::MAX\<close>, an
  \<open>Instant\<close> a number of nanoseconds. The positions of the cursor are natural numbers: a blob is
  far shorter than \<open>usize::MAX\<close>, so the \<open>checked_add\<close> of \<open>read_bytes\<close> cannot fail.
\<close>

section \<open>Retry policy\<close>

type_synonym Duration = nat
type_synonym Instant = nat

definition duration_max :: Duration where
  "duration_max = (2 ^ 64 - 1) * 10 ^ 9 + 999999999"

definition from_secs :: "nat \<Rightarrow> Duration" where
  "from_secs s = s * 10 ^ 9"

definition saturating_mul :: "Duration \<Rightarrow> nat \<Rightarrow> Duration" where
  "saturating_mul d k = min (d * k) duration_max"

record RetryConfig =
  max_attempts :: u32
  base :: Duration
  cap :: Duration

definition retry_default :: RetryConfig where
  "retry_default = \<lparr>max_attempts = 5, base = from_secs 5, cap = from_secs 60\<rparr>"

definition backoff :: "RetryConfig \<Rightarrow> u32 \<Rightarrow> Duration" where
  "backoff cfg attempt =
     (let shift = min (unat attempt - 1) 20
      in min (saturating_mul (base cfg) (2 ^ shift)) (cap cfg))"

section \<open>Entries\<close>

datatype Inflight =
    Qos1 Publish
  | Qos2AwaitRec Publish
  | Qos2AwaitComp u16

record InflightEntry =
  e_state :: Inflight
  e_attempts :: u32
  e_next_due :: Instant

record DeadMsg =
  d_publish :: Publish
  d_attempts :: u32

section \<open>Cursor\<close>

record Cursor =
  cur_buf :: bytes
  cur_pos :: nat

definition read_u8 :: "Cursor \<Rightarrow> (u8 \<times> Cursor) option" where
  "read_u8 c =
     (if cur_pos c < length (cur_buf c)
      then Some (cur_buf c ! cur_pos c, c\<lparr>cur_pos := cur_pos c + 1\<rparr>) else None)"

definition read_bytes :: "Cursor \<Rightarrow> nat \<Rightarrow> (bytes \<times> Cursor) option" where
  "read_bytes c n =
     (let pos = cur_pos c; end = pos + n in
      if end \<le> length (cur_buf c)
      then Some (take n (drop pos (cur_buf c)), c\<lparr>cur_pos := end\<rparr>) else None)"

definition read_u16 :: "Cursor \<Rightarrow> (u16 \<times> Cursor) option" where
  "read_u16 c = do { (bs, c) \<leftarrow> read_bytes c 2; Some (u16_from_be bs, c) }"

definition read_u32 :: "Cursor \<Rightarrow> (u32 \<times> Cursor) option" where
  "read_u32 c = do { (bs, c) \<leftarrow> read_bytes c 4; Some (u32_from_be bs, c) }"

section \<open>In-flight queue\<close>

definition encode_publish_entry :: "bytes \<Rightarrow> u8 \<Rightarrow> u32 \<Rightarrow> Publish \<Rightarrow> bytes" where
  "encode_publish_entry out tag attempts p =
     (let pid = (case p_packet_id p of Some x \<Rightarrow> x | None \<Rightarrow> 0); topic = str_bytes (p_topic p) in
      out @ [tag] @ u32_to_be attempts @ u16_to_be pid @ [if p_retain p then 1 else 0] @
      u16_to_be (of_nat (length topic)) @ topic @
      u32_to_be (of_nat (length (p_payload p))) @ p_payload p)"

definition encode_entry :: "bytes \<Rightarrow> InflightEntry \<Rightarrow> bytes" where
  "encode_entry out entry = (case e_state entry of
     Qos1 p \<Rightarrow> encode_publish_entry out 1 (e_attempts entry) p
   | Qos2AwaitRec p \<Rightarrow> encode_publish_entry out 2 (e_attempts entry) p
   | Qos2AwaitComp pid \<Rightarrow> out @ [3] @ u32_to_be (e_attempts entry) @ u16_to_be pid)"

definition encode_queue :: "u16 \<Rightarrow> InflightEntry list \<Rightarrow> bytes" where
  "encode_queue next_id queue = foldl encode_entry (u16_to_be next_id) queue"

definition decode_state :: "u8 \<Rightarrow> Cursor \<Rightarrow> (Inflight \<times> Cursor) option" where
  "decode_state tag c =
     (if tag = 1 \<or> tag = 2 then do {
        (raw, c) \<leftarrow> read_u16 c;
        pid \<leftarrow> nonzero_new raw;
        (flags, c) \<leftarrow> read_u8 c;
        (topic_len, c) \<leftarrow> read_u16 c;
        (topic, c) \<leftarrow> read_bytes c (unat topic_len);
        (payload_len, c) \<leftarrow> read_u32 c;
        (payload, c) \<leftarrow> read_bytes c (unat payload_len);
        let p = make_publish (from_utf8_lossy topic) payload
                  (if tag = 1 then WireAtLeastOnce else WireExactlyOnce) (Some pid) (flags \<noteq> 0) False;
        Some (if tag = 1 then Qos1 p else Qos2AwaitRec p, c) }
      else if tag = 3 then do {
        (raw, c) \<leftarrow> read_u16 c;
        pid \<leftarrow> nonzero_new raw;
        Some (Qos2AwaitComp pid, c) }
      else None)"

text \<open>One iteration of the \<open>while\<close> loop of \<open>decode_inflight\<close>.\<close>

definition decode_entry :: "Instant \<Rightarrow> RetryConfig \<Rightarrow> Cursor \<Rightarrow> (InflightEntry \<times> Cursor) option" where
  "decode_entry now cfg c = do {
     (tag, c) \<leftarrow> read_u8 c;
     (attempts, c) \<leftarrow> read_u32 c;
     (state, c) \<leftarrow> decode_state tag c;
     Some (\<lparr>e_state = state, e_attempts = attempts,
            e_next_due = now + backoff cfg (max attempts 1)\<rparr>, c) }"

text \<open>Every read keeps the buffer and never moves backwards, so the loop ends.\<close>

definition forward :: "Cursor \<Rightarrow> Cursor \<Rightarrow> bool" where
  "forward c c' \<longleftrightarrow> cur_buf c' = cur_buf c \<and> cur_pos c \<le> cur_pos c'"

lemma forward_refl [simp]: "forward c c"
  by (simp add: forward_def)

lemma forward_trans: "forward a b \<Longrightarrow> forward b c \<Longrightarrow> forward a c"
  by (simp add: forward_def)

lemma read_bytes_forward: "read_bytes c n = Some (x, c') \<Longrightarrow> forward c c'"
  by (auto simp: read_bytes_def forward_def Let_def split: if_splits)

lemma read_u8_forward: "read_u8 c = Some (x, c') \<Longrightarrow> forward c c'"
  by (auto simp: read_u8_def forward_def split: if_splits)

lemma read_u8_advances: "read_u8 c = Some (x, c') \<Longrightarrow> cur_pos c' = Suc (cur_pos c) \<and> cur_pos c < length (cur_buf c)"
  by (auto simp: read_u8_def split: if_splits)

lemma read_u16_forward: "read_u16 c = Some (x, c') \<Longrightarrow> forward c c'"
  by (auto simp: read_u16_def bind_eq_Some_conv intro: read_bytes_forward)

lemma read_u32_forward: "read_u32 c = Some (x, c') \<Longrightarrow> forward c c'"
  by (auto simp: read_u32_def bind_eq_Some_conv intro: read_bytes_forward)

lemmas read_forward = read_u8_forward read_u16_forward read_u32_forward read_bytes_forward

lemma decode_state_forward: "decode_state tag c = Some (x, c') \<Longrightarrow> forward c c'"
  unfolding decode_state_def
  by (auto simp: bind_eq_Some_conv split: if_splits dest!: read_forward) (auto simp: forward_def)

lemma decode_entry_advances:
  assumes "decode_entry now cfg c = Some (e, c')"
  shows "cur_buf c' = cur_buf c \<and> cur_pos c < cur_pos c' \<and> cur_pos c < length (cur_buf c)"
proof -
  from assms obtain tag c1 att c2 st where
    "read_u8 c = Some (tag, c1)" "read_u32 c1 = Some (att, c2)" "decode_state tag c2 = Some (st, c')"
    by (auto simp: decode_entry_def bind_eq_Some_conv)
  then show ?thesis
    using read_u8_advances [of c tag c1] read_u8_forward [of c tag c1]
      read_u32_forward [of c1 att c2] decode_state_forward [of tag c2 st c']
    by (auto simp: forward_def)
qed

function decode_loop ::
    "Instant \<Rightarrow> RetryConfig \<Rightarrow> Cursor \<Rightarrow> InflightEntry list \<Rightarrow> InflightEntry list option" where
  "decode_loop now cfg c queue =
     (if cur_pos c < length (cur_buf c) then
        (case decode_entry now cfg c of
           None \<Rightarrow> None
         | Some (entry, c') \<Rightarrow> decode_loop now cfg c' (queue @ [entry]))
      else Some queue)"
  by pat_completeness auto
termination
  by (relation "measure (\<lambda>(now, cfg, c, queue). length (cur_buf c) - cur_pos c)")
    (auto dest!: decode_entry_advances)

declare decode_loop.simps [simp del]

definition decode_inflight ::
    "bytes \<Rightarrow> Instant \<Rightarrow> RetryConfig \<Rightarrow> (u16 \<times> InflightEntry list) option" where
  "decode_inflight blob now cfg = do {
     (next_id, c) \<leftarrow> read_u16 \<lparr>cur_buf = blob, cur_pos = 0\<rparr>;
     queue \<leftarrow> decode_loop now cfg c [];
     Some (next_id, queue) }"

section \<open>Dead letters and events\<close>

definition encode_dead_letter ::
    "u64 \<Rightarrow> string \<Rightarrow> string \<Rightarrow> string \<Rightarrow> u32 \<Rightarrow> u8 \<Rightarrow> bytes \<Rightarrow> bytes" where
  "encode_dead_letter ts client_id topic reason attempts qos payload =
     u64_to_be ts @ u32_to_be attempts @
     u16_to_be (of_nat (length reason)) @ str_bytes reason @
     u16_to_be (of_nat (length client_id)) @ str_bytes client_id @
     u16_to_be (of_nat (length topic)) @ str_bytes topic @ [qos] @ payload"

definition encode_event :: "u64 \<Rightarrow> string \<Rightarrow> u8 \<Rightarrow> bytes \<Rightarrow> bytes" where
  "encode_event ts topic qos payload =
     u64_to_be ts @ [qos] @ u16_to_be (of_nat (length topic)) @ str_bytes topic @ payload"

definition decode_event :: "bytes \<Rightarrow> (string \<times> bytes \<times> QoS) option" where
  "decode_event blob = do {
     (_, c) \<leftarrow> read_bytes \<lparr>cur_buf = blob, cur_pos = 0\<rparr> 8;
     (q, c) \<leftarrow> read_u8 c;
     let qos = (case qos_from_u8 q of Some q \<Rightarrow> q | None \<Rightarrow> AtMostOnce);
     (topic_len, c) \<leftarrow> read_u16 c;
     (topic, c) \<leftarrow> read_bytes c (unat topic_len);
     Some (from_utf8_lossy topic, drop (cur_pos c) (cur_buf c), qos) }"

section \<open>The interface of a codec\<close>

text \<open>The cursor stands in front of exactly the bytes \<open>bs\<close>.\<close>

definition reads_at :: "Cursor \<Rightarrow> bytes \<Rightarrow> bool" where
  "reads_at c bs \<longleftrightarrow> cur_pos c \<le> length (cur_buf c) \<and> drop (cur_pos c) (cur_buf c) = bs"

lemma reads_at_length: "reads_at c bs \<Longrightarrow> length (cur_buf c) = cur_pos c + length bs"
  by (auto simp: reads_at_def)

text \<open>
  What a reader promises about a writer: standing in front of an encoded value it returns that
  value (up to what the encoding does not keep) and stops right behind it.
\<close>

locale codec =
  fixes enc :: "'a \<Rightarrow> bytes"
    and dec :: "Cursor \<Rightarrow> ('b \<times> Cursor) option"
    and ok :: "'a \<Rightarrow> bool"
    and norm :: "'a \<Rightarrow> 'b"
  assumes dec_enc: "ok x \<Longrightarrow> reads_at c (enc x @ rest) \<Longrightarrow>
    \<exists>c'. dec c = Some (norm x, c') \<and> reads_at c' rest"

text \<open>A loop that decodes values until the buffer is exhausted.\<close>

locale codec_loop = codec enc dec ok norm
  for enc :: "'a \<Rightarrow> bytes" and dec :: "Cursor \<Rightarrow> ('b \<times> Cursor) option" and ok and norm +
  fixes loop :: "Cursor \<Rightarrow> 'b list \<Rightarrow> 'b list option"
  assumes enc_nonempty: "enc x \<noteq> []"
    and loop_unfold: "loop c acc =
      (if cur_pos c < length (cur_buf c) then
         (case dec c of None \<Rightarrow> None | Some (x, c') \<Rightarrow> loop c' (acc @ [x]))
       else Some acc)"
begin

lemma loop_concat:
  "\<forall>x \<in> set xs. ok x \<Longrightarrow> reads_at c (concat (map enc xs)) \<Longrightarrow> loop c acc = Some (acc @ map norm xs)"
proof (induction xs arbitrary: c acc)
  case Nil
  then show ?case by (simp add: loop_unfold [of c] reads_at_def)
next
  case (Cons x xs)
  then obtain c' where c': "dec c = Some (norm x, c')" "reads_at c' (concat (map enc xs))"
    using dec_enc [of x c "concat (map enc xs)"] by auto
  from Cons.prems(2) enc_nonempty [of x] have "cur_pos c < length (cur_buf c)"
    by (auto dest!: reads_at_length)
  with c' Cons show ?case by (simp add: loop_unfold [of c])
qed

end

lemma reads_at_read_bytes:
  assumes "reads_at c (bs @ rest)"
  shows "read_bytes c (length bs) = Some (bs, c\<lparr>cur_pos := cur_pos c + length bs\<rparr>)"
    and "reads_at (c\<lparr>cur_pos := cur_pos c + length bs\<rparr>) rest"
proof -
  have len: "length (cur_buf c) = cur_pos c + (length bs + length rest)"
    using reads_at_length [OF assms] by simp
  have drop: "drop (cur_pos c) (cur_buf c) = bs @ rest" using assms by (simp add: reads_at_def)
  show "read_bytes c (length bs) = Some (bs, c\<lparr>cur_pos := cur_pos c + length bs\<rparr>)"
    by (simp add: read_bytes_def Let_def len drop)
  have "drop (cur_pos c + length bs) (cur_buf c) = drop (length bs) (drop (cur_pos c) (cur_buf c))"
    by (simp add: add.commute)
  then show "reads_at (c\<lparr>cur_pos := cur_pos c + length bs\<rparr>) rest"
    by (simp add: reads_at_def len drop)
qed

interpretation slice_codec: codec "\<lambda>bs. bs" "\<lambda>c. read_bytes c n" "\<lambda>bs. length bs = n" id for n
  by unfold_locales (auto dest: reads_at_read_bytes)

interpretation u8_codec: codec "\<lambda>b. [b]" read_u8 "\<lambda>_. True" id
proof
  fix x c rest
  assume at: "reads_at c ([x] @ rest)"
  have "cur_pos c < length (cur_buf c)" using reads_at_length [OF at] by simp
  moreover from this at have "cur_buf c ! cur_pos c = x"
    by (auto simp: reads_at_def hd_drop_conv_nth dest: arg_cong [of _ _ hd])
  ultimately show "\<exists>c'. read_u8 c = Some (id x, c') \<and> reads_at c' rest"
    using reads_at_read_bytes(2) [OF at] by (simp add: read_u8_def)
qed

interpretation u16_codec: codec u16_to_be read_u16 "\<lambda>_. True" id
  by unfold_locales
    (auto simp: read_u16_def dest!: slice_codec.dec_enc [where n = 2, rotated])

interpretation u32_codec: codec u32_to_be read_u32 "\<lambda>_. True" id
  by unfold_locales
    (auto simp: read_u32_def dest!: slice_codec.dec_enc [where n = 4, rotated])

section \<open>Round trips\<close>

text \<open>
  The publishes that the session layer queues: built by \<open>make_publish\<close> with a packet id, a
  well-formed topic and lengths that fit their length fields.
\<close>

definition publish_ok :: "WireQoS \<Rightarrow> Publish \<Rightarrow> bool" where
  "publish_ok q p \<longleftrightarrow> p_dup p = False \<and> p_qos p = q \<and> p_user_properties p = [] \<and>
     (case p_packet_id p of Some pid \<Rightarrow> pid \<noteq> 0 | None \<Rightarrow> False)"

definition publish_fits :: "Publish \<Rightarrow> bool" where
  "publish_fits p \<longleftrightarrow> string_ok (p_topic p) \<and> length (p_topic p) < 2 ^ 16 \<and> length (p_payload p) < 2 ^ 32"

primrec state_ok :: "Inflight \<Rightarrow> bool" where
  "state_ok (Qos1 p) = publish_ok WireAtLeastOnce p"
| "state_ok (Qos2AwaitRec p) = publish_ok WireExactlyOnce p"
| "state_ok (Qos2AwaitComp pid) = (pid \<noteq> 0)"

primrec state_fits :: "Inflight \<Rightarrow> bool" where
  "state_fits (Qos1 p) = publish_fits p"
| "state_fits (Qos2AwaitRec p) = publish_fits p"
| "state_fits (Qos2AwaitComp pid) = True"

text \<open>What reloading does to an entry: the due time is recomputed.\<close>

definition rearm :: "Instant \<Rightarrow> RetryConfig \<Rightarrow> InflightEntry \<Rightarrow> InflightEntry" where
  "rearm now cfg e = e\<lparr>e_next_due := now + backoff cfg (max (e_attempts e) 1)\<rparr>"

lemma rearm_fix: "rearm now cfg e = e \<longleftrightarrow> e_next_due e = now + backoff cfg (max (e_attempts e) 1)"
  by (cases e) (auto simp: rearm_def)

lemma encode_entry_append: "encode_entry out e = out @ encode_entry [] e"
  by (simp add: encode_entry_def encode_publish_entry_def Let_def split: Inflight.split)

lemma foldl_encode_entry: "foldl encode_entry out q = out @ concat (map (encode_entry []) q)"
proof (induction q arbitrary: out)
  case (Cons e q)
  then show ?case by (simp add: encode_entry_append [of out e])
qed simp

lemma encode_queue_concat:
  "encode_queue next_id q = u16_to_be next_id @ concat (map (encode_entry []) q)"
  by (simp add: encode_queue_def foldl_encode_entry)

lemma decode_state_publish:
  assumes ok: "publish_ok (if tag = 1 then WireAtLeastOnce else WireExactlyOnce) p" "publish_fits p"
    and tag: "tag = 1 \<or> tag = 2"
    and at: "reads_at c (u16_to_be (case p_packet_id p of Some x \<Rightarrow> x | None \<Rightarrow> 0) @
      [if p_retain p then 1 else 0] @ u16_to_be (of_nat (length (str_bytes (p_topic p)))) @
      str_bytes (p_topic p) @ u32_to_be (of_nat (length (p_payload p))) @ p_payload p @ rest)"
  shows "\<exists>c'. decode_state tag c = Some (if tag = 1 then Qos1 p else Qos2AwaitRec p, c') \<and> reads_at c' rest"
proof -
  from ok obtain pid where pid: "p_packet_id p = Some pid" "pid \<noteq> 0"
    and dup: "\<not> p_dup p" and qos: "p_qos p = (if tag = 1 then WireAtLeastOnce else WireExactlyOnce)"
    and props: "p_user_properties p = []" and str: "string_ok (p_topic p)"
    and tlen: "length (p_topic p) < 2 ^ 16" and plen: "length (p_payload p) < 2 ^ 32"
    by (auto simp: publish_ok_def publish_fits_def split: option.splits)
  from u16_codec.dec_enc [OF _ at] pid obtain c1 where
    c1: "read_u16 c = Some (pid, c1)" and at1: "reads_at c1 ([if p_retain p then 1 else 0] @
      u16_to_be (of_nat (length (str_bytes (p_topic p)))) @
      str_bytes (p_topic p) @ u32_to_be (of_nat (length (p_payload p))) @ p_payload p @ rest)"
    by auto
  from u8_codec.dec_enc [OF _ at1] obtain c2 where
    c2: "read_u8 c1 = Some (if p_retain p then 1 else 0, c2)"
    and at2: "reads_at c2 (u16_to_be (of_nat (length (str_bytes (p_topic p)))) @
      str_bytes (p_topic p) @ u32_to_be (of_nat (length (p_payload p))) @ p_payload p @ rest)"
    by auto
  from u16_codec.dec_enc [OF _ at2] obtain c3 where
    c3: "read_u16 c2 = Some (of_nat (length (p_topic p)), c3)"
    and at3: "reads_at c3 (str_bytes (p_topic p) @ u32_to_be (of_nat (length (p_payload p))) @ p_payload p @ rest)"
    by (auto simp: length_str_bytes)
  from slice_codec.dec_enc [OF refl at3] obtain c4 where
    c4: "read_bytes c3 (length (p_topic p)) = Some (str_bytes (p_topic p), c4)"
    and at4: "reads_at c4 (u32_to_be (of_nat (length (p_payload p))) @ p_payload p @ rest)"
    by (auto simp: length_str_bytes)
  from u32_codec.dec_enc [OF _ at4] obtain c5 where
    c5: "read_u32 c4 = Some (of_nat (length (p_payload p)), c5)"
    and at5: "reads_at c5 (p_payload p @ rest)"
    by auto
  from slice_codec.dec_enc [OF refl at5] obtain c6 where
    c6: "read_bytes c5 (length (p_payload p)) = Some (p_payload p, c6)" and at6: "reads_at c6 rest"
    by auto
  have "make_publish (p_topic p) (p_payload p) (p_qos p) (Some pid) (p_retain p) False = p"
    using pid dup props by (simp add: make_publish_def)
  moreover have "unat (of_nat (length (p_topic p)) :: u16) = length (p_topic p)"
    "unat (of_nat (length (p_payload p)) :: u32) = length (p_payload p)"
    using tlen plen by (simp_all add: unat_of_nat)
  ultimately show ?thesis
    using c1 c2 c3 c4 c5 c6 at6 pid tag qos str
    by (auto simp: decode_state_def nonzero_new_def from_utf8_lossy_str_bytes)
qed

definition entry_ok :: "InflightEntry \<Rightarrow> bool" where
  "entry_ok e \<longleftrightarrow> state_ok (e_state e) \<and> state_fits (e_state e)"

lemma decode_state_encoded:
  assumes ok: "entry_ok e" and at: "reads_at c (encode_entry [] e @ rest)"
  shows "\<exists>tag c1 c2 c'. read_u8 c = Some (tag, c1) \<and> read_u32 c1 = Some (e_attempts e, c2) \<and>
    decode_state tag c2 = Some (e_state e, c') \<and> reads_at c' rest"
proof -
  define tag :: u8 where "tag = (case e_state e of Qos1 _ \<Rightarrow> 1 | Qos2AwaitRec _ \<Rightarrow> 2 | Qos2AwaitComp _ \<Rightarrow> 3)"
  define body where "body = drop 5 (encode_entry [] e)"
  have enc: "encode_entry [] e = [tag] @ u32_to_be (e_attempts e) @ body"
    by (simp add: tag_def body_def encode_entry_def encode_publish_entry_def Let_def split: Inflight.split)
  from at have "reads_at c ([tag] @ u32_to_be (e_attempts e) @ body @ rest)" by (simp add: enc)
  from u8_codec.dec_enc [OF _ this] obtain c1 where
    c1: "read_u8 c = Some (tag, c1)" and at1: "reads_at c1 (u32_to_be (e_attempts e) @ body @ rest)"
    by auto
  from u32_codec.dec_enc [OF _ at1] obtain c2 where
    c2: "read_u32 c1 = Some (e_attempts e, c2)" and at2: "reads_at c2 (body @ rest)"
    by auto
  have "\<exists>c'. decode_state tag c2 = Some (e_state e, c') \<and> reads_at c' rest"
  proof (cases "e_state e")
    case (Qos2AwaitComp pid)
    then have "reads_at c2 (u16_to_be pid @ rest)"
      using at2 by (simp add: body_def encode_entry_def)
    from u16_codec.dec_enc [OF _ this] ok Qos2AwaitComp show ?thesis
      by (auto simp: tag_def decode_state_def nonzero_new_def entry_ok_def)
  qed (use at2 ok decode_state_publish [of tag _ c2 rest] in
      \<open>simp add: tag_def body_def encode_entry_def encode_publish_entry_def Let_def entry_ok_def\<close>)+
  with c1 c2 show ?thesis by blast
qed

interpretation entry_codec: codec_loop "encode_entry []" "decode_entry now cfg" entry_ok
    "rearm now cfg" "decode_loop now cfg" for now cfg
proof
  show "\<exists>c'. decode_entry now cfg c = Some (rearm now cfg e, c') \<and> reads_at c' rest"
    if "entry_ok e" "reads_at c (encode_entry [] e @ rest)" for e c rest
    using decode_state_encoded [OF that] by (auto simp: decode_entry_def rearm_def)
  show "encode_entry [] e \<noteq> []" for e
    by (simp add: encode_entry_def encode_publish_entry_def Let_def split: Inflight.split)
  show "decode_loop now cfg c acc =
      (if cur_pos c < length (cur_buf c) then
         (case decode_entry now cfg c of None \<Rightarrow> None
          | Some (x, c') \<Rightarrow> decode_loop now cfg c' (acc @ [x]))
       else Some acc)" for c acc
    by (rule decode_loop.simps)
qed

lemma decode_encode_queue:
  assumes "\<forall>e \<in> set queue. entry_ok e"
  shows "decode_inflight (encode_queue next_id queue) now cfg = Some (next_id, map (rearm now cfg) queue)"
proof -
  have "reads_at \<lparr>cur_buf = encode_queue next_id queue, cur_pos = 0\<rparr>
      (u16_to_be next_id @ concat (map (encode_entry []) queue))"
    by (simp add: reads_at_def encode_queue_concat)
  from u16_codec.dec_enc [OF _ this] obtain c where
    "read_u16 \<lparr>cur_buf = encode_queue next_id queue, cur_pos = 0\<rparr> = Some (next_id, c)"
    and at: "reads_at c (concat (map (encode_entry []) queue))"
    by auto
  with entry_codec.loop_concat [OF assms at, of now cfg "[]"] show ?thesis
    by (simp add: decode_inflight_def)
qed

text \<open>
  C17. A queue of in-flight messages survives a restart: the blob that \<open>snapshot\<close> writes is
  decoded to the same packet-id counter and the same entries in the same order, with the attempt
  counts kept and the due time recomputed from them.
\<close>

theorem inflight_roundtrip:
  assumes "\<forall>e \<in> set queue. entry_ok e"
  shows "decode_inflight (encode_queue next_id queue) now cfg = Some (next_id, map (rearm now cfg) queue)"
  by (rule decode_encode_queue [OF assms])

definition sample_publish :: Publish where
  "sample_publish = make_publish ''t/1'' [7, 8] WireAtLeastOnce (Some 3) True False"

definition sample_queue :: "InflightEntry list" where
  "sample_queue = [\<lparr>e_state = Qos1 sample_publish, e_attempts = 2, e_next_due = 9\<rparr>,
     \<lparr>e_state = Qos2AwaitComp 5, e_attempts = 1, e_next_due = 9\<rparr>]"

theorem inflight_roundtrip_witness:
  "list_all entry_ok sample_queue \<and>
   decode_inflight (encode_queue 6 sample_queue) 100 retry_default =
     Some (6, map (rearm 100 retry_default) sample_queue)"
proof -
  have ok: "list_all entry_ok sample_queue" by code_simp
  then have "\<forall>e \<in> set sample_queue. entry_ok e" by (simp add: list_all_iff)
  from inflight_roundtrip [OF this] ok show ?thesis by blast
qed

lemma decode_state_ok:
  assumes "decode_state tag c = Some (st, c')" shows "state_ok st"
  using assms
  by (auto simp: decode_state_def nonzero_new_def make_publish_def publish_ok_def bind_eq_Some_conv
      split: if_splits)

lemma decode_loop_ok:
  assumes "decode_loop now cfg c acc = Some q" and "\<forall>e \<in> set acc. state_ok (e_state e) \<and> rearm now cfg e = e"
  shows "\<forall>e \<in> set q. state_ok (e_state e) \<and> rearm now cfg e = e"
  using assms
proof (induction now cfg c acc rule: decode_loop.induct)
  case (1 now cfg c acc)
  show ?case
  proof (cases "cur_pos c < length (cur_buf c)")
    case True
    with 1(2) obtain e c' where e: "decode_entry now cfg c = Some (e, c')"
      and rest: "decode_loop now cfg c' (acc @ [e]) = Some q"
      by (auto simp: decode_loop.simps [of now cfg c] split: option.splits)
    from e have "state_ok (e_state e) \<and> rearm now cfg e = e"
      by (auto simp: decode_entry_def rearm_def bind_eq_Some_conv dest: decode_state_ok)
    with 1(1) [OF True e refl rest] 1(3) show ?thesis by auto
  next
    case False
    with 1 show ?thesis by (simp add: decode_loop.simps [of now cfg c])
  qed
qed

text \<open>
  C35. Whatever bytes the storage hands back, an entry that \<open>decode_inflight\<close> accepts is
  well formed: a publish carries a non-zero packet id and the wire QoS of its state, the entry is
  armed for the back-off of its attempt count.
\<close>

theorem decode_inflight_ok:
  assumes "decode_inflight blob now cfg = Some (next_id, queue)" and "e \<in> set queue"
  shows "state_ok (e_state e) \<and> e_next_due e = now + backoff cfg (max (e_attempts e) 1)"
proof -
  from assms(1) obtain c where "decode_loop now cfg c [] = Some queue"
    by (auto simp: decode_inflight_def bind_eq_Some_conv)
  from decode_loop_ok [OF this] assms(2) show ?thesis by (simp add: rearm_fix)
qed

theorem decode_inflight_ok_witness:
  "decode_inflight [0, 4, 3, 0, 0, 0, 2, 1, 0] 50 retry_default =
     Some (4, [\<lparr>e_state = Qos2AwaitComp 256, e_attempts = 2, e_next_due = 10000000050\<rparr>]) \<and>
   state_ok (Qos2AwaitComp 256) \<and> 10000000050 = 50 + backoff retry_default (max 2 1)"
proof -
  have eq: "decode_inflight [0, 4, 3, 0, 0, 0, 2, 1, 0] 50 retry_default =
      Some (4, [\<lparr>e_state = Qos2AwaitComp 256, e_attempts = 2, e_next_due = 10000000050\<rparr>])"
    by code_simp
  from decode_inflight_ok [OF eq] eq show ?thesis by simp
qed

text \<open>
  A logged event decodes to the topic, payload and QoS it was encoded from, provided the
  topic fits its 16-bit length field.
\<close>

lemma event_roundtrip:
  assumes str: "string_ok topic" and len: "length topic < 2 ^ 16"
  shows "decode_event (encode_event ts topic (qos_as_u8 qos) payload) = Some (topic, payload, qos)"
proof -
  define c where "c = \<lparr>cur_buf = encode_event ts topic (qos_as_u8 qos) payload, cur_pos = 0\<rparr>"
  have "reads_at c (u64_to_be ts @ [qos_as_u8 qos] @ u16_to_be (of_nat (length topic)) @ str_bytes topic @ payload)"
    by (simp add: c_def reads_at_def encode_event_def)
  from slice_codec.dec_enc [OF refl this] obtain c1 where c1: "read_bytes c 8 = Some (u64_to_be ts, c1)"
    and at1: "reads_at c1 ([qos_as_u8 qos] @ u16_to_be (of_nat (length topic)) @ str_bytes topic @ payload)"
    by auto
  from u8_codec.dec_enc [OF _ at1] obtain c2 where c2: "read_u8 c1 = Some (qos_as_u8 qos, c2)"
    and at2: "reads_at c2 (u16_to_be (of_nat (length topic)) @ str_bytes topic @ payload)"
    by auto
  from u16_codec.dec_enc [OF _ at2] obtain c3 where c3: "read_u16 c2 = Some (of_nat (length topic), c3)"
    and at3: "reads_at c3 (str_bytes topic @ payload)"
    by auto
  from slice_codec.dec_enc [OF refl at3] obtain c4 where
    c4: "read_bytes c3 (length topic) = Some (str_bytes topic, c4)" and at4: "reads_at c4 payload"
    by (auto simp: length_str_bytes)
  have "unat (of_nat (length topic) :: u16) = length topic" using len by (simp add: unat_of_nat)
  then show ?thesis
    using c1 c2 c3 c4 at4 str
    by (simp add: decode_event_def c_def [symmetric] reads_at_def from_utf8_lossy_str_bytes)
qed

lemma decode_state_overrun:
  assumes at: "reads_at c (u16_to_be pid @ [flags] @ u16_to_be 0 @ u32_to_be n @ rest)"
    and short: "length rest < unat n" and tag: "tag = 1 \<or> tag = 2"
  shows "decode_state tag c = None"
proof -
  from u16_codec.dec_enc [OF _ at] obtain c1 where c1: "read_u16 c = Some (pid, c1)"
    and at1: "reads_at c1 ([flags] @ u16_to_be 0 @ u32_to_be n @ rest)" by auto
  from u8_codec.dec_enc [OF _ at1] obtain c2 where c2: "read_u8 c1 = Some (flags, c2)"
    and at2: "reads_at c2 (u16_to_be 0 @ u32_to_be n @ rest)" by auto
  from u16_codec.dec_enc [OF _ at2] obtain c3 where c3: "read_u16 c2 = Some (0, c3)"
    and at3: "reads_at c3 ([] @ u32_to_be n @ rest)" by auto
  from slice_codec.dec_enc [OF refl at3] obtain c4 where c4: "read_bytes c3 0 = Some ([], c4)"
    and at4: "reads_at c4 (u32_to_be n @ rest)" by auto
  from u32_codec.dec_enc [OF _ at4] obtain c5 where c5: "read_u32 c4 = Some (n, c5)"
    and at5: "reads_at c5 rest" by auto
  have "read_bytes c5 (unat n) = None"
    using reads_at_length [OF at5] short by (simp add: read_bytes_def Let_def)
  with c1 c2 c3 c4 c5 tag show ?thesis
    by (auto simp: decode_state_def nonzero_new_def)
qed


definition long_publish :: Publish where
  "long_publish = make_publish (replicate 65536 (CHR ''a'')) [] WireAtLeastOnce (Some 1) False False"


text \<open>
  C36. The back-off before the \<open>attempt\<close>-th delivery is the documented \<open>base * 2^(attempt-1)\<close>
  capped at \<open>cap\<close> for the first 21 attempts, never exceeds the cap, and never decreases from one
  attempt to the next.
\<close>

theorem backoff_correct:
  assumes "cap cfg \<le> duration_max"
  shows "(1 \<le> a \<and> a \<le> 21 \<longrightarrow> backoff cfg a = min (base cfg * 2 ^ (unat a - 1)) (cap cfg)) \<and>
    backoff cfg a \<le> cap cfg \<and> (a \<le> b \<longrightarrow> backoff cfg a \<le> backoff cfg b)"
proof (intro conjI impI)
  assume "1 \<le> a \<and> a \<le> 21"
  then have "min (unat a - 1) 20 = unat a - 1" by (auto simp: word_le_nat_alt min_def)
  with assms show "backoff cfg a = min (base cfg * 2 ^ (unat a - 1)) (cap cfg)"
    by (simp add: backoff_def Let_def saturating_mul_def min.assoc min.absorb2)
next
  show "backoff cfg a \<le> cap cfg" by (simp add: backoff_def Let_def)
next
  assume "a \<le> b"
  then have "(2 :: nat) ^ min (unat a - 1) 20 \<le> 2 ^ min (unat b - 1) 20"
    by (intro power_increasing) (auto simp: word_le_nat_alt min_def)
  then have "base cfg * 2 ^ min (unat a - 1) 20 \<le> base cfg * 2 ^ min (unat b - 1) 20"
    by (rule mult_le_mono2)
  then show "backoff cfg a \<le> backoff cfg b"
    unfolding backoff_def Let_def saturating_mul_def by (intro min.mono) auto
qed

theorem backoff_correct_witness:
  "cap retry_default \<le> duration_max \<and> (1 :: u32) \<le> 4 \<and> (4 :: u32) \<le> 21 \<and>
   backoff retry_default 4 = min (from_secs 5 * 8) (from_secs 60) \<and> backoff retry_default 4 \<le> backoff retry_default 30"
proof -
  have cap: "cap retry_default \<le> duration_max" by code_simp
  have le: "(1 :: u32) \<le> 4 \<and> (4 :: u32) \<le> 21" "(4 :: u32) \<le> 30" by code_simp+
  from backoff_correct [OF cap, of 4 30] cap le show ?thesis by (simp add: retry_default_def)
qed

end
