(* ===== verification/Session.thy ===== *)
theory Session
  imports Inflight
begin

text \<open>
  The per-client session of \<open>hub.rs\<close>: packet-id allocation, delivery, retransmission after a
  reconnect, acknowledgements, the redelivery tick and the draining of undelivered messages.

  The delivery channel of an online session is a channel handle; an operation that sends returns,
  beside the updated session, the packets it put into the channel, in order. A send into a channel
  whose receiver is gone is ignored by the source, and is a send like any other here. An operation
  that can hit an \<open>expect\<close> returns \<open>None\<close> when it does. The arithmetic on \<open>attempts\<close> wraps at 32
  bits, as in a release build.
\<close>

section \<open>State\<close>

type_synonym chan = nat
type_synonym sends = "(chan \<times> Packet) list"

record Session =
  s_client_id :: string
  s_tx :: "chan option"
  s_next_id :: u16
  s_inflight :: "InflightEntry list"
  s_incoming_qos2 :: "u16 set"
  s_expiry_secs :: u32
  s_generation :: u64

definition session_new :: "string \<Rightarrow> chan option \<Rightarrow> u32 \<Rightarrow> u64 \<Rightarrow> Session" where
  "session_new client_id tx expiry_secs generation =
     \<lparr>s_client_id = client_id, s_tx = tx, s_next_id = 1, s_inflight = [], s_incoming_qos2 = {},
      s_expiry_secs = expiry_secs, s_generation = generation\<rparr>"

section \<open>Operations\<close>

definition encode_inflight :: "Session \<Rightarrow> bytes" where
  "encode_inflight s = encode_queue (s_next_id s) (s_inflight s)"

definition allocate_id :: "Session \<Rightarrow> (u16 \<times> Session) option" where
  "allocate_id s =
     (let id = s_next_id s;
          next = s_next_id s + 1;
          s = s\<lparr>s_next_id := if next = 0 then 1 else next\<rparr>
      in case nonzero_new id of None \<Rightarrow> None | Some nz \<Rightarrow> Some (nz, s))"

definition send :: "Session \<Rightarrow> Packet \<Rightarrow> sends" where
  "send s packet = (case s_tx s of Some tx \<Rightarrow> [(tx, packet)] | None \<Rightarrow> [])"

definition deliver ::
    "Session \<Rightarrow> string \<Rightarrow> bytes \<Rightarrow> QoS \<Rightarrow> bool \<Rightarrow> Instant \<Rightarrow> RetryConfig \<Rightarrow> (Session \<times> sends) option" where
  "deliver s topic payload qos retain now cfg =
     (if qos = AtMostOnce then
        let p = make_publish topic payload WireAtMostOnce None retain False
        in Some (s, send s (PktPublish p))
      else case allocate_id s of
        None \<Rightarrow> None
      | Some (pid, s) \<Rightarrow>
          let wire = (if qos = AtLeastOnce then WireAtLeastOnce else WireExactlyOnce);
              p = make_publish topic payload wire (Some pid) retain False;
              state = (if qos = AtLeastOnce then Qos1 p else Qos2AwaitRec p);
              s = s\<lparr>s_inflight := s_inflight s @
                     [\<lparr>e_state = state, e_attempts = 1, e_next_due = now + backoff cfg 1\<rparr>]\<rparr>
          in Some (s, send s (PktPublish p)))"

primrec resend_packet :: "Inflight \<Rightarrow> Packet" where
  "resend_packet (Qos1 p) = PktPublish (p\<lparr>p_dup := True\<rparr>)"
| "resend_packet (Qos2AwaitRec p) = PktPublish (p\<lparr>p_dup := True\<rparr>)"
| "resend_packet (Qos2AwaitComp pid) = pubrel pid"

primrec retransmit_loop ::
    "Session \<Rightarrow> Instant \<Rightarrow> RetryConfig \<Rightarrow> InflightEntry list \<Rightarrow> InflightEntry list \<times> sends" where
  "retransmit_loop s now cfg [] = ([], [])"
| "retransmit_loop s now cfg (e # es) =
     (let e = e\<lparr>e_next_due := now + backoff cfg (max (e_attempts e) 1)\<rparr>;
          pkt = resend_packet (e_state e);
          (es, rest) = retransmit_loop s now cfg es
      in (e # es, send s pkt @ rest))"

definition retransmit :: "Session \<Rightarrow> Instant \<Rightarrow> RetryConfig \<Rightarrow> Session \<times> sends" where
  "retransmit s now cfg =
     (let (es, out) = retransmit_loop s now cfg (s_inflight s) in (s\<lparr>s_inflight := es\<rparr>, out))"

primrec acked_by_puback :: "u16 \<Rightarrow> Inflight \<Rightarrow> bool" where
  "acked_by_puback pid (Qos1 p) = (p_packet_id p = Some pid)"
| "acked_by_puback pid (Qos2AwaitRec p) = False"
| "acked_by_puback pid (Qos2AwaitComp x) = False"

definition session_on_puback :: "Session \<Rightarrow> u16 \<Rightarrow> Session" where
  "session_on_puback s pid = s\<lparr>s_inflight := filter (\<lambda>e. \<not> acked_by_puback pid (e_state e)) (s_inflight s)\<rparr>"

text \<open>
  The loop of \<open>on_pubrec\<close>: the first entry awaiting the PUBREC of \<open>pid\<close> moves on; \<open>None\<close> when
  there is none.
\<close>

fun pubrec_loop :: "u16 \<Rightarrow> InflightEntry list \<Rightarrow> (u16 \<times> InflightEntry list) option" where
  "pubrec_loop pid [] = None"
| "pubrec_loop pid (e # es) =
     (case e_state e of
        Qos2AwaitRec p \<Rightarrow>
          if p_packet_id p = Some pid then Some (pid, e\<lparr>e_state := Qos2AwaitComp pid\<rparr> # es)
          else map_option (\<lambda>(nz, es'). (nz, e # es')) (pubrec_loop pid es)
      | _ \<Rightarrow> map_option (\<lambda>(nz, es'). (nz, e # es')) (pubrec_loop pid es))"

definition session_on_pubrec :: "Session \<Rightarrow> u16 \<Rightarrow> Session \<times> sends" where
  "session_on_pubrec s pid =
     (case pubrec_loop pid (s_inflight s) of
        Some (nz, es) \<Rightarrow> (s\<lparr>s_inflight := es\<rparr>, send s (pubrel nz))
      | None \<Rightarrow> (case nonzero_new pid of
                   Some nz \<Rightarrow> (s, send s (pubrel nz))
                 | None \<Rightarrow> (s, [])))"

primrec acked_by_pubcomp :: "u16 \<Rightarrow> Inflight \<Rightarrow> bool" where
  "acked_by_pubcomp pid (Qos1 p) = False"
| "acked_by_pubcomp pid (Qos2AwaitRec p) = False"
| "acked_by_pubcomp pid (Qos2AwaitComp x) = (x = pid)"

definition session_on_pubcomp :: "Session \<Rightarrow> u16 \<Rightarrow> Session" where
  "session_on_pubcomp s pid = s\<lparr>s_inflight := filter (\<lambda>e. \<not> acked_by_pubcomp pid (e_state e)) (s_inflight s)\<rparr>"

primrec undelivered :: "Inflight \<Rightarrow> Publish option" where
  "undelivered (Qos1 p) = Some p"
| "undelivered (Qos2AwaitRec p) = Some p"
| "undelivered (Qos2AwaitComp pid) = None"

definition vec_remove :: "nat \<Rightarrow> 'a list \<Rightarrow> 'a list" where
  "vec_remove i xs = take i xs @ drop (Suc i) xs"

function tick_loop ::
    "Instant \<Rightarrow> RetryConfig \<Rightarrow> nat \<Rightarrow> InflightEntry list \<Rightarrow> DeadMsg list \<Rightarrow> Packet list \<Rightarrow> bool
     \<Rightarrow> InflightEntry list \<times> DeadMsg list \<times> Packet list \<times> bool" where
  "tick_loop now cfg i q dead to_send changed =
     (if i < length q then
        let e = q ! i; attempts = e_attempts e in
        if now < e_next_due e then tick_loop now cfg (i + 1) q dead to_send changed
        else
          let dead_now = (case e_state e of
                            Qos1 p \<Rightarrow> max_attempts cfg \<le> attempts \<and> \<not> is_dlq_topic (p_topic p)
                          | Qos2AwaitRec p \<Rightarrow> max_attempts cfg \<le> attempts \<and> \<not> is_dlq_topic (p_topic p)
                          | Qos2AwaitComp _ \<Rightarrow> False)
          in if dead_now then
               tick_loop now cfg i (vec_remove i q)
                 (dead @ (case undelivered (e_state e) of
                            Some p \<Rightarrow> [\<lparr>d_publish = p, d_attempts = attempts\<rparr>] | None \<Rightarrow> []))
                 to_send True
             else
               tick_loop now cfg (i + 1)
                 (q[i := e\<lparr>e_attempts := attempts + 1, e_next_due := now + backoff cfg (attempts + 1)\<rparr>])
                 dead (to_send @ [resend_packet (e_state e)]) True
      else (q, dead, to_send, changed))"
  by pat_completeness auto
termination
  by (relation "measure (\<lambda>(now, cfg, i, q, dead, to_send, changed). length q - i)")
    (auto simp: vec_remove_def)

declare tick_loop.simps [simp del]

definition tick_retries ::
    "Session \<Rightarrow> Instant \<Rightarrow> RetryConfig \<Rightarrow> (DeadMsg list \<times> bool) \<times> Session \<times> sends" where
  "tick_retries s now cfg =
     (let (q, dead, to_send, changed) = tick_loop now cfg 0 (s_inflight s) [] [] False;
          s = s\<lparr>s_inflight := q\<rparr>
      in ((dead, changed), s, concat (map (send s) to_send)))"

definition drainable :: "InflightEntry \<Rightarrow> Publish option" where
  "drainable e = (case undelivered (e_state e) of
     Some p \<Rightarrow> if is_dlq_topic (p_topic p) then None else Some p
   | None \<Rightarrow> None)"

definition drain_undelivered :: "Session \<Rightarrow> DeadMsg list \<times> Session" where
  "drain_undelivered s =
     (List.map_filter (\<lambda>e. map_option (\<lambda>p. \<lparr>d_publish = p, d_attempts = e_attempts e\<rparr>) (drainable e))
        (s_inflight s),
      s\<lparr>s_inflight := filter (\<lambda>e. drainable e = None) (s_inflight s)\<rparr>)"

text \<open>What \<open>Hub::connect\<close> does to a session it resumes, and \<open>Hub::detach\<close> to one it keeps.\<close>

definition session_attach ::
    "Session \<Rightarrow> chan \<Rightarrow> u32 \<Rightarrow> u64 \<Rightarrow> Instant \<Rightarrow> RetryConfig \<Rightarrow> Session \<times> sends" where
  "session_attach s tx expiry_secs generation now cfg =
     (let s = s\<lparr>s_tx := Some tx\<rparr>;
          s = s\<lparr>s_expiry_secs := expiry_secs\<rparr>;
          s = s\<lparr>s_generation := generation\<rparr>
      in retransmit s now cfg)"

definition session_detach :: "Session \<Rightarrow> Session" where
  "session_detach s = s\<lparr>s_tx := None\<rparr>"

text \<open>\<open>HashSet::insert\<close> and \<open>HashSet::remove\<close> on the inbound QoS 2 identifiers.\<close>

definition qos2_seen :: "Session \<Rightarrow> u16 \<Rightarrow> bool \<times> Session" where
  "qos2_seen s pid = (pid \<notin> s_incoming_qos2 s, s\<lparr>s_incoming_qos2 := insert pid (s_incoming_qos2 s)\<rparr>)"

definition qos2_release :: "Session \<Rightarrow> u16 \<Rightarrow> Session" where
  "qos2_release s pid = s\<lparr>s_incoming_qos2 := s_incoming_qos2 s - {pid}\<rparr>"

section \<open>Redelivery against its specification\<close>

text \<open>
  The documented behaviour of the timer, entry by entry: an entry is touched only when it is due;
  a due entry is dead-lettered when its attempts are used up (never one past PUBREC, never a
  dead letter), and otherwise resent with its attempt counted and its clock re-armed.
\<close>

definition due :: "Instant \<Rightarrow> InflightEntry \<Rightarrow> bool" where
  "due now e \<longleftrightarrow> e_next_due e \<le> now"

definition exhausted :: "RetryConfig \<Rightarrow> InflightEntry \<Rightarrow> bool" where
  "exhausted cfg e \<longleftrightarrow> max_attempts cfg \<le> e_attempts e \<and> drainable e \<noteq> None"

definition dead_of :: "InflightEntry \<Rightarrow> DeadMsg option" where
  "dead_of e = map_option (\<lambda>p. \<lparr>d_publish = p, d_attempts = e_attempts e\<rparr>) (drainable e)"

definition bump :: "Instant \<Rightarrow> RetryConfig \<Rightarrow> InflightEntry \<Rightarrow> InflightEntry" where
  "bump now cfg e =
     (if due now e then e\<lparr>e_attempts := e_attempts e + 1, e_next_due := now + backoff cfg (e_attempts e + 1)\<rparr>
      else e)"

lemma tick_loop_spec:
  "tick_loop now cfg (length xs) (xs @ ys) dead to_send changed =
     (xs @ map (bump now cfg) (filter (\<lambda>e. \<not> (due now e \<and> exhausted cfg e)) ys),
      dead @ List.map_filter dead_of (filter (\<lambda>e. due now e \<and> exhausted cfg e) ys),
      to_send @ map (\<lambda>e. resend_packet (e_state e)) (filter (\<lambda>e. due now e \<and> \<not> exhausted cfg e) ys),
      changed \<or> list_ex (due now) ys)"
proof (induction ys arbitrary: xs dead to_send changed)
  case Nil
  then show ?case by (simp add: tick_loop.simps)
next
  case (Cons e ys)
  note step = tick_loop.simps [of now cfg "length xs" "xs @ e # ys"]
  consider "\<not> due now e" | "due now e" "exhausted cfg e" | "due now e" "\<not> exhausted cfg e" by blast
  then show ?case
  proof cases
    case 1
    with Cons [of "xs @ [e]"] show ?thesis by (simp add: step due_def bump_def Let_def)
  next
    case 2
    with Cons [of xs] show ?thesis
      by (cases "e_state e")
        (auto simp: step due_def exhausted_def drainable_def dead_of_def vec_remove_def Let_def
          map_filter_simps split: if_splits)
  next
    case 3
    with Cons [of "xs @ [bump now cfg e]"] show ?thesis
      by (cases "e_state e")
        (auto simp: step due_def exhausted_def drainable_def bump_def Let_def split: if_splits)
  qed
qed

text \<open>
  C19. One run of the redelivery timer over a session does what the policy documents, for every
  queue: entries that are not due stay as they are, due entries whose attempts are exhausted
  leave the queue and are returned for dead-lettering in queue order, every other due entry stays
  in place with one more attempt and a later due time and is resent (a PUBLISH flagged as
  duplicate, or the PUBREL), and the change flag is set exactly when some entry was due.
\<close>

theorem tick_retries_correct:
  "tick_retries s now cfg =
     ((List.map_filter dead_of (filter (\<lambda>e. due now e \<and> exhausted cfg e) (s_inflight s)),
       list_ex (due now) (s_inflight s)),
      s\<lparr>s_inflight := map (bump now cfg) (filter (\<lambda>e. \<not> (due now e \<and> exhausted cfg e)) (s_inflight s))\<rparr>,
      (case s_tx s of None \<Rightarrow> []
       | Some tx \<Rightarrow> map (\<lambda>e. (tx, resend_packet (e_state e)))
           (filter (\<lambda>e. due now e \<and> \<not> exhausted cfg e) (s_inflight s))))"
proof -
  have "concat (map (send s') pkts) = (case s_tx s' of None \<Rightarrow> [] | Some tx \<Rightarrow> map (Pair tx) pkts)" for s' pkts
    by (induction pkts) (auto simp: send_def split: option.split)
  then show ?thesis
    using tick_loop_spec [of now cfg "[]" "s_inflight s" "[]" "[]" False]
    by (simp add: tick_retries_def comp_def cong: option.case_cong)
qed

section \<open>Packet identifiers\<close>

definition succ_id :: "u16 \<Rightarrow> u16" where
  "succ_id n = (if n + 1 = 0 then 1 else n + 1)"

text \<open>The identifiers in use are \<open>1..65535\<close>; numbered from 0 they are a cycle of length 65535.\<close>

definition id_at :: "nat \<Rightarrow> u16" where
  "id_at k = of_nat (k mod 65535 + 1)"

lemma id_at_nonzero [simp]: "id_at k \<noteq> 0"
proof -
  have "unat (id_at k) = k mod 65535 + 1" unfolding id_at_def by (subst unat_of_nat) simp
  then show ?thesis by (metis Suc_eq_plus1 nat.distinct(1) unat_0)
qed

lemma id_at_inj: "id_at j = id_at k \<longleftrightarrow> j mod 65535 = k mod 65535"
proof -
  have u: "unat (id_at k) = k mod 65535 + 1" for k unfolding id_at_def by (subst unat_of_nat) simp
  show ?thesis using u [of j] u [of k] by (metis add_right_cancel id_at_def)
qed

lemma succ_id_at [simp]: "succ_id (id_at k) = id_at (Suc k)"
proof (cases "k mod 65535 = 65534")
  case True
  then have "Suc k mod 65535 = 0" by (simp add: mod_Suc)
  with True show ?thesis by (simp add: succ_id_def id_at_def)
next
  case False
  then have "Suc k mod 65535 = Suc (k mod 65535)" by (simp add: mod_Suc)
  then have "id_at (Suc k) = id_at k + 1" by (simp add: id_at_def)
  then show ?thesis using id_at_nonzero [of "Suc k"] by (simp add: succ_id_def)
qed

lemma id_at_surj: "n \<noteq> 0 \<Longrightarrow> n = id_at (unat n - 1)"
proof -
  assume "n \<noteq> 0"
  then have "0 < unat n" by (simp add: unat_gt_0)
  moreover have "unat n < 65536" using unsigned_less [of n] by simp
  ultimately show ?thesis by (simp add: id_at_def)
qed

lemma allocate_id_eq:
  "allocate_id s = (if s_next_id s = 0 then None
     else Some (s_next_id s, s\<lparr>s_next_id := succ_id (s_next_id s)\<rparr>))"
  by (simp add: allocate_id_def Let_def nonzero_new_def succ_id_def)

fun allocate_many :: "nat \<Rightarrow> Session \<Rightarrow> (u16 list \<times> Session) option" where
  "allocate_many 0 s = Some ([], s)"
| "allocate_many (Suc n) s = do {
     (id, s) \<leftarrow> allocate_id s;
     (ids, s) \<leftarrow> allocate_many n s;
     Some (id # ids, s) }"

lemma allocate_many_eq:
  "s_next_id s = id_at k \<Longrightarrow>
   allocate_many n s = Some (map id_at [k..<k + n], s\<lparr>s_next_id := id_at (k + n)\<rparr>)"
proof (induction n arbitrary: s k)
  case (Suc n)
  have "[k..<k + Suc n] = k # [Suc k..<Suc k + n]" by (simp add: upt_conv_Cons del: upt_Suc)
  with Suc.IH [of "s\<lparr>s_next_id := id_at (Suc k)\<rparr>" "Suc k"] Suc.prems show ?case
    by (simp add: allocate_id_eq del: upt_Suc)
qed simp

lemma mod_window_eq:
  fixes i j m :: nat
  assumes "i mod m = j mod m" "i < j + m" "j < i + m" shows "i = j"
proof -
  have "a = b" if "m * a + r < m * b + r + m" "m * b + r < m * a + r + m" for a b r :: nat
  proof -
    from that have "m * a < m * Suc b" "m * b < m * Suc a" by simp_all
    then show ?thesis by (simp only: nat_mult_less_cancel_disj) simp
  qed
  from this [of "i div m" "i mod m" "j div m"] assms show ?thesis
    by (metis mult_div_mod_eq)
qed

lemma distinct_id_window:
  assumes "n \<le> 65535" shows "distinct (map id_at [k..<k + n])"
proof -
  have "inj_on id_at {k..<k + n}"
  proof (rule inj_onI)
    fix i j assume ij: "i \<in> {k..<k + n}" "j \<in> {k..<k + n}" "id_at i = id_at j"
    then have "i mod 65535 = j mod 65535" by (simp add: id_at_inj)
    moreover have "i < j + 65535" "j < i + 65535" using ij assms by auto
    ultimately show "i = j" by (rule mod_window_eq)
  qed
  then show ?thesis by (simp add: distinct_map)
qed

text \<open>
  Packet identifiers: starting from a non-zero counter, any number of allocations succeeds
  without hitting the \<open>expect\<close>, never yields 0 (also across the 16-bit wrap-around), leaves the
  counter non-zero, and yields no identifier twice within any 65535 consecutive allocations.
\<close>

lemma allocate_ids_distinct:
  assumes "s_next_id s \<noteq> 0"
  shows "\<exists>ids s'. allocate_many n s = Some (ids, s') \<and> length ids = n \<and> 0 \<notin> set ids \<and>
    s_next_id s' \<noteq> 0 \<and> (n \<le> 65535 \<longrightarrow> distinct ids)"
  using allocate_many_eq [OF id_at_surj [OF assms], of n] distinct_id_window [of n "unat (s_next_id s) - 1"]
  by (auto simp: image_iff)

section \<open>Delivery\<close>

definition fresh_publish :: "string \<Rightarrow> bytes \<Rightarrow> QoS \<Rightarrow> bool \<Rightarrow> u16 \<Rightarrow> Publish" where
  "fresh_publish topic payload qos retain pid = make_publish topic payload
     (if qos = AtLeastOnce then WireAtLeastOnce else WireExactlyOnce) (Some pid) retain False"

definition fresh_entry ::
    "string \<Rightarrow> bytes \<Rightarrow> QoS \<Rightarrow> bool \<Rightarrow> u16 \<Rightarrow> Instant \<Rightarrow> RetryConfig \<Rightarrow> InflightEntry" where
  "fresh_entry topic payload qos retain pid now cfg =
     \<lparr>e_state = (if qos = AtLeastOnce then Qos1 else Qos2AwaitRec) (fresh_publish topic payload qos retain pid),
      e_attempts = 1, e_next_due = now + backoff cfg 1\<rparr>"

lemma send_update [simp]:
  "send (s\<lparr>s_inflight := es\<rparr>) = send s" "send (s\<lparr>s_next_id := n\<rparr>) = send s"
  by (simp_all add: send_def fun_eq_iff)

lemma deliver_qos0:
  "deliver s topic payload AtMostOnce retain now cfg =
     Some (s, send s (PktPublish (make_publish topic payload WireAtMostOnce None retain False)))"
  by (simp add: deliver_def)

lemma deliver_qos12:
  assumes "qos \<noteq> AtMostOnce" "s_next_id s \<noteq> 0"
  shows "deliver s topic payload qos retain now cfg =
    Some (s\<lparr>s_next_id := succ_id (s_next_id s),
            s_inflight := s_inflight s @ [fresh_entry topic payload qos retain (s_next_id s) now cfg]\<rparr>,
          send s (PktPublish (fresh_publish topic payload qos retain (s_next_id s))))"
  using assms by (simp add: deliver_def allocate_id_eq Let_def fresh_entry_def fresh_publish_def)

lemma deliver_panics_iff:
  "deliver s topic payload qos retain now cfg = None \<longleftrightarrow> qos \<noteq> AtMostOnce \<and> s_next_id s = 0"
  by (simp add: deliver_def allocate_id_eq Let_def)

lemma retransmit_loop_eq:
  "retransmit_loop s now cfg es =
     (map (rearm now cfg) es, concat (map (\<lambda>e. send s (resend_packet (e_state e))) es))"
  by (induction es) (simp_all add: rearm_def)

lemma retransmit_eq:
  "retransmit s now cfg =
     (s\<lparr>s_inflight := map (rearm now cfg) (s_inflight s)\<rparr>,
      concat (map (\<lambda>e. send s (resend_packet (e_state e))) (s_inflight s)))"
  by (simp add: retransmit_def retransmit_loop_eq)

section \<open>Invariant\<close>

definition session_ok :: "Session \<Rightarrow> bool" where
  "session_ok s \<longleftrightarrow> s_next_id s \<noteq> 0 \<and> list_all (\<lambda>e. state_ok (e_state e)) (s_inflight s)"

lemma succ_id_nonzero [simp]: "n \<noteq> 0 \<Longrightarrow> succ_id n \<noteq> 0"
  by (simp add: succ_id_def)

lemma state_ok_fresh: "pid \<noteq> 0 \<Longrightarrow> qos \<noteq> AtMostOnce \<Longrightarrow>
    state_ok (e_state (fresh_entry topic payload qos retain pid now cfg))"
  by (simp add: fresh_entry_def fresh_publish_def publish_ok_def)

lemma rearm_state [simp]: "e_state (rearm now cfg e) = e_state e"
  by (simp add: rearm_def)

lemma bump_state [simp]: "e_state (bump now cfg e) = e_state e"
  by (simp add: bump_def)

lemma session_ok_new [simp]: "session_ok (session_new client_id tx expiry generation)"
  by (simp add: session_ok_def session_new_def)

lemma deliver_ok:
  assumes "session_ok s"
  obtains s' out where "deliver s topic payload qos retain now cfg = Some (s', out)" "session_ok s'"
    "s_client_id s' = s_client_id s" "s_tx s' = s_tx s" "s_expiry_secs s' = s_expiry_secs s"
    "s_generation s' = s_generation s" "s_incoming_qos2 s' = s_incoming_qos2 s"
proof (cases "qos = AtMostOnce")
  case True
  with assms show ?thesis by (intro that) (simp_all add: deliver_qos0)
next
  case False
  with assms show ?thesis
    by (intro that [OF deliver_qos12]) (auto simp: session_ok_def state_ok_fresh)
qed

lemma session_ok_attach: "session_ok s \<Longrightarrow> session_ok (fst (session_attach s tx expiry generation now cfg))"
  by (simp add: session_attach_def Let_def retransmit_eq session_ok_def list_all_iff)

lemma session_ok_detach: "session_ok s \<Longrightarrow> session_ok (session_detach s)"
  by (simp add: session_ok_def session_detach_def)

lemma session_ok_puback: "session_ok s \<Longrightarrow> session_ok (session_on_puback s pid)"
  by (simp add: session_ok_def session_on_puback_def list_all_iff)

lemma session_ok_pubcomp: "session_ok s \<Longrightarrow> session_ok (session_on_pubcomp s pid)"
  by (simp add: session_ok_def session_on_pubcomp_def list_all_iff)

lemma pubrec_loop_Some:
  "pubrec_loop pid es = Some (nz, es') \<Longrightarrow> nz = pid \<and>
     (\<exists>xs e ys p. es = xs @ e # ys \<and> e_state e = Qos2AwaitRec p \<and> p_packet_id p = Some pid \<and>
        (\<forall>x \<in> set xs. \<forall>q. e_state x = Qos2AwaitRec q \<longrightarrow> p_packet_id q \<noteq> Some pid) \<and>
        es' = xs @ e\<lparr>e_state := Qos2AwaitComp pid\<rparr> # ys)"
proof (induction es arbitrary: es')
  case (Cons e es)
  show ?case
  proof (cases "\<exists>p. e_state e = Qos2AwaitRec p \<and> p_packet_id p = Some pid")
    case True
    with Cons.prems show ?thesis by (auto intro!: exI [of _ "[]"])
  next
    case False
    with Cons.prems obtain es'' where "pubrec_loop pid es = Some (nz, es'')" "es' = e # es''"
      by (auto split: Inflight.Inflight.splits if_splits)
    with Cons.IH [of es''] False show ?thesis by (metis append_Cons set_ConsD)
  qed
qed simp

lemma pubrec_loop_None:
  "pubrec_loop pid es = None \<longleftrightarrow>
     (\<forall>e \<in> set es. \<forall>p. e_state e = Qos2AwaitRec p \<longrightarrow> p_packet_id p \<noteq> Some pid)"
  by (induction pid es rule: pubrec_loop.induct) (auto split: Inflight.Inflight.split)

lemma session_ok_pubrec: "session_ok s \<Longrightarrow> session_ok (fst (session_on_pubrec s pid))"
  by (auto simp: session_on_pubrec_def session_ok_def publish_ok_def split: option.split
      dest!: pubrec_loop_Some)

lemma tick_retries_inflight:
  "fst (snd (tick_retries s now cfg)) =
     s\<lparr>s_inflight := map (bump now cfg) (filter (\<lambda>e. \<not> (due now e \<and> exhausted cfg e)) (s_inflight s))\<rparr>"
  using tick_loop_spec [of now cfg "[]" "s_inflight s" "[]" "[]" False] by (simp add: tick_retries_def)

lemma tick_retries_sends:
  "(ch, pkt) \<in> set (snd (snd (tick_retries s now cfg))) \<Longrightarrow>
     \<exists>e \<in> set (s_inflight s). pkt = resend_packet (e_state e)"
  using tick_loop_spec [of now cfg "[]" "s_inflight s" "[]" "[]" False]
  by (auto simp: tick_retries_def send_def split: option.splits)

lemma session_ok_tick: "session_ok s \<Longrightarrow> session_ok (fst (snd (tick_retries s now cfg)))"
  by (simp add: tick_retries_inflight session_ok_def list_all_iff)

lemma session_ok_drain: "session_ok s \<Longrightarrow> session_ok (snd (drain_undelivered s))"
  by (simp add: drain_undelivered_def session_ok_def list_all_iff)

lemma session_ok_qos2 [simp]:
  "session_ok (snd (qos2_seen s pid)) = session_ok s" "session_ok (qos2_release s pid) = session_ok s"
  by (simp_all add: qos2_seen_def qos2_release_def session_ok_def)

section \<open>Runs of a session\<close>

text \<open>Everything the hub does to a session between its creation and its removal.\<close>

datatype SessionOp =
    OpDeliver string bytes QoS bool Instant
  | OpAttach chan u32 u64 Instant
  | OpDetach
  | OpPuback u16
  | OpPubrec u16
  | OpPubcomp u16
  | OpTick Instant
  | OpSeen u16
  | OpRelease u16

primrec session_exec :: "RetryConfig \<Rightarrow> Session \<Rightarrow> SessionOp \<Rightarrow> (Session \<times> sends) option" where
  "session_exec cfg s (OpDeliver topic payload qos retain now) = deliver s topic payload qos retain now cfg"
| "session_exec cfg s (OpAttach tx expiry generation now) = Some (session_attach s tx expiry generation now cfg)"
| "session_exec cfg s OpDetach = Some (session_detach s, [])"
| "session_exec cfg s (OpPuback pid) = Some (session_on_puback s pid, [])"
| "session_exec cfg s (OpPubrec pid) = Some (session_on_pubrec s pid)"
| "session_exec cfg s (OpPubcomp pid) = Some (session_on_pubcomp s pid, [])"
| "session_exec cfg s (OpTick now) = Some (snd (tick_retries s now cfg))"
| "session_exec cfg s (OpSeen pid) = Some (snd (qos2_seen s pid), [])"
| "session_exec cfg s (OpRelease pid) = Some (qos2_release s pid, [])"

fun session_run :: "RetryConfig \<Rightarrow> Session \<Rightarrow> SessionOp list \<Rightarrow> (Session \<times> sends) option" where
  "session_run cfg s [] = Some (s, [])"
| "session_run cfg s (op # ops) = do {
     (s, out) \<leftarrow> session_exec cfg s op;
     (s, out') \<leftarrow> session_run cfg s ops;
     Some (s, out @ out') }"

lemma session_exec_ok:
  assumes "session_ok s" obtains s' out where "session_exec cfg s op = Some (s', out)" "session_ok s'"
proof (cases op)
  case (OpDeliver topic payload qos retain now)
  with deliver_ok [OF assms] that show ?thesis by (metis session_exec.simps(1))
next
  case (OpAttach tx expiry generation now)
  with session_ok_attach [OF assms] that show ?thesis by (metis prod.collapse session_exec.simps(2))
next
  case (OpPubrec pid)
  with session_ok_pubrec [OF assms] that show ?thesis by (metis prod.collapse session_exec.simps(5))
next
  case (OpTick now)
  with session_ok_tick [OF assms] that show ?thesis by (metis prod.collapse session_exec.simps(7))
qed (use assms that in \<open>auto simp: session_ok_detach session_ok_puback session_ok_pubcomp\<close>)



section \<open>QoS 2: no second PUBLISH after PUBREC\<close>

primrec publishes_id :: "u16 \<Rightarrow> Inflight \<Rightarrow> bool" where
  "publishes_id pid (Qos1 p) = (p_packet_id p = Some pid)"
| "publishes_id pid (Qos2AwaitRec p) = (p_packet_id p = Some pid)"
| "publishes_id pid (Qos2AwaitComp x) = False"

definition publish_of :: "u16 \<Rightarrow> Packet \<Rightarrow> bool" where
  "publish_of pid pkt = (case pkt of PktPublish p \<Rightarrow> p_packet_id p = Some pid | _ \<Rightarrow> False)"

definition no_publish :: "u16 \<Rightarrow> Session \<Rightarrow> bool" where
  "no_publish pid s = list_all (\<lambda>e. \<not> publishes_id pid (e_state e)) (s_inflight s)"

definition allocates :: "SessionOp \<Rightarrow> bool" where
  "allocates op = (case op of OpDeliver _ _ qos _ _ \<Rightarrow> qos \<noteq> AtMostOnce | _ \<Rightarrow> False)"

text \<open>How many identifiers are handed out before \<open>pid\<close> comes round again.\<close>

definition ids_before :: "u16 \<Rightarrow> u16 \<Rightarrow> nat" where
  "ids_before n pid = (unat pid + 65535 - unat n) mod 65535"

lemma publish_of_resend [simp]: "publish_of pid (resend_packet st) = publishes_id pid st"
  by (cases st) (simp_all add: publish_of_def pubrel_def)

lemma publish_of_pubrel [simp]: "\<not> publish_of pid (pubrel x)"
  by (simp add: publish_of_def pubrel_def)

lemma set_send: "(ch, pkt) \<in> set (send s packet) \<Longrightarrow> pkt = packet"
  by (auto simp: send_def split: option.splits)

definition quiet :: "u16 \<Rightarrow> sends \<Rightarrow> bool" where
  "quiet pid out = list_all (\<lambda>(ch, pkt). \<not> publish_of pid pkt) out"

lemma quiet_Nil [simp]: "quiet pid []"
  by (simp add: quiet_def)

lemma quiet_append [simp]: "quiet pid (a @ b) \<longleftrightarrow> quiet pid a \<and> quiet pid b"
  by (simp add: quiet_def)

lemma quiet_send: "\<not> publish_of pid pkt \<Longrightarrow> quiet pid (send s pkt)"
  by (auto simp: quiet_def list_all_iff dest: set_send)

lemma quiet_resend_all:
  "list_all (\<lambda>e. \<not> publishes_id pid (e_state e)) es \<Longrightarrow>
   quiet pid (concat (map (\<lambda>e. send s (resend_packet (e_state e))) es))"
  by (induction es) (auto simp: quiet_send)

lemma pubrec_no_publish:
  "no_publish pid s \<Longrightarrow> no_publish pid (fst (session_on_pubrec s x)) \<and> quiet pid (snd (session_on_pubrec s x))"
  by (auto simp: session_on_pubrec_def no_publish_def quiet_send split: option.split
      dest!: pubrec_loop_Some)

lemma exec_no_publish:
  assumes "session_ok s" "no_publish pid s" "allocates op \<longrightarrow> s_next_id s \<noteq> pid"
    and "session_exec cfg s op = Some (s', out)"
  shows "no_publish pid s' \<and> quiet pid out"
proof (cases op)
  case (OpDeliver topic payload qos retain now)
  show ?thesis
  proof (cases "qos = AtMostOnce")
    case True
    with assms OpDeliver show ?thesis by (auto simp: deliver_qos0 publish_of_def intro!: quiet_send)
  next
    case False
    with assms OpDeliver have "s_next_id s \<noteq> pid" "s_next_id s \<noteq> 0"
      by (simp_all add: allocates_def session_ok_def)
    with assms False OpDeliver show ?thesis
      by (auto simp: deliver_qos12 no_publish_def fresh_entry_def fresh_publish_def publish_of_def intro!: quiet_send)
  qed
next
  case (OpTick now)
  with assms show ?thesis
    using tick_retries_sends [of _ _ s now cfg] tick_retries_inflight [of s now cfg]
    by (fastforce simp: no_publish_def list_all_iff quiet_def)
next
  case (OpAttach tx expiry generation now)
  with assms show ?thesis
    by (auto simp: session_attach_def retransmit_eq no_publish_def list_all_iff Let_def
        intro!: quiet_resend_all)
next
  case (OpPubrec x)
  with assms pubrec_no_publish [OF assms(2), of x] show ?thesis by simp
qed (use assms in \<open>auto simp: no_publish_def list_all_iff session_detach_def session_on_puback_def
   session_on_pubcomp_def qos2_seen_def qos2_release_def\<close>)

lemma exec_next_id:
  assumes "session_ok s" "session_exec cfg s op = Some (s', out)"
  shows "s_next_id s' = (if allocates op then succ_id (s_next_id s) else s_next_id s)"
proof (cases op)
  case (OpDeliver topic payload qos retain now)
  with assms show ?thesis
    by (cases "qos = AtMostOnce") (auto simp: deliver_qos0 deliver_qos12 session_ok_def allocates_def)
next
  case (OpTick now)
  with assms show ?thesis
    using tick_retries_inflight [of s now cfg] by (auto simp: allocates_def)
qed (use assms in \<open>auto simp: allocates_def session_attach_def retransmit_eq session_detach_def Let_def
   session_on_puback_def session_on_pubcomp_def session_on_pubrec_def qos2_seen_def qos2_release_def
   split: option.splits\<close>)

lemma run_no_publish:
  assumes "session_ok s" "no_publish pid s" "s_next_id s = id_at k" "pid = id_at (k + d)" "d < 65535"
    and "length (filter allocates ops) \<le> d" "session_run cfg s ops = Some (s', out)"
  shows "quiet pid out"
  using assms
proof (induction ops arbitrary: s k d out)
  case (Cons op ops)
  then obtain s1 out1 out2 where exec: "session_exec cfg s op = Some (s1, out1)"
    and run: "session_run cfg s1 ops = Some (s', out2)" and out: "out = out1 @ out2"
    by (auto simp: bind_eq_Some_conv)
  from Cons.prems exec have ok1: "session_ok s1" by (metis session_exec_ok option.inject prod.inject)
  show ?case
  proof (cases "allocates op")
    case True
    then obtain d' where d: "d = Suc d'" using Cons.prems(6) by (cases d) auto
    then have "id_at k \<noteq> pid" using Cons.prems(4,5) mod_window_eq [of k 65535 "k + d"]
      by (auto simp: id_at_inj)
    then have "no_publish pid s1 \<and> quiet pid out1"
      using exec_no_publish [OF Cons.prems(1,2) _ exec] Cons.prems(3) by simp
    moreover have "s_next_id s1 = id_at (Suc k)"
      using exec_next_id [OF Cons.prems(1) exec] True Cons.prems(3) by simp
    ultimately show ?thesis
      using Cons.IH [OF ok1 _ _ _ _ _ run, of "Suc k" d'] Cons.prems(4-6) True d out by simp
  next
    case False
    then have "no_publish pid s1 \<and> quiet pid out1"
      using exec_no_publish [OF Cons.prems(1,2) _ exec] by simp
    then show ?thesis
      using Cons.IH [OF ok1 _ _ _ _ _ run, of k d] Cons.prems(3-6) False out
        exec_next_id [OF Cons.prems(1) exec] by simp
  qed
qed simp

lemma id_at_ids_before:
  assumes "n \<noteq> 0" "pid \<noteq> 0" shows "pid = id_at (unat n - 1 + ids_before n pid)"
proof -
  have pos: "0 < unat n" "0 < unat pid" using assms by (simp_all add: unat_gt_0)
  have lt: "unat n < 65536" using unsigned_less [of n] by simp
  have "(unat n - 1 + ids_before n pid) mod 65535 = (unat n - 1 + (unat pid + 65535 - unat n)) mod 65535"
    by (simp add: ids_before_def mod_add_right_eq)
  also have "unat n - 1 + (unat pid + 65535 - unat n) = unat pid - 1 + 65535"
    using pos lt by linarith
  finally have "id_at (unat n - 1 + ids_before n pid) = id_at (unat pid - 1)"
    by (simp add: id_at_inj)
  then show ?thesis using id_at_surj [OF assms(2)] by simp
qed

text \<open>
  C18. Exactly-once delivery of an outbound QoS 2 message: once the receiver has answered PUBREC
  for the one message in flight under an identifier, the broker answers PUBREL and no later
  operation of the session (retry ticks, reconnects, acknowledgements, further deliveries) ever
  puts a PUBLISH with that identifier into the channel again, until the identifier is handed out
  anew to another message.
\<close>

theorem qos2_never_republished:
  assumes ok: "session_ok s"
    and one: "filter (\<lambda>e. publishes_id pid (e_state e)) (s_inflight s) = [e]" "e_state e = Qos2AwaitRec p"
    and rec: "session_on_pubrec s pid = (s1, out1)"
    and run: "session_run cfg s1 ops = Some (s2, out2)"
    and few: "length (filter allocates ops) \<le> ids_before (s_next_id s) pid"
  shows "out1 = send s (pubrel pid) \<and> list_all (\<lambda>(ch, pkt). \<not> publish_of pid pkt) out2"
proof -
  have "e \<in> set (filter (\<lambda>e. publishes_id pid (e_state e)) (s_inflight s))" by (simp add: one(1))
  with one(2) have e: "e \<in> set (s_inflight s)" "p_packet_id p = Some pid" by simp_all
  with ok one(2) have pid: "pid \<noteq> 0" by (force simp: session_ok_def list_all_iff publish_ok_def)
  from e one(2) obtain nz es where loop: "pubrec_loop pid (s_inflight s) = Some (nz, es)"
    by (metis pubrec_loop_None not_Some_eq surj_pair)
  from pubrec_loop_Some [OF loop] obtain xs e' ys p' where split: "s_inflight s = xs @ e' # ys"
    "e_state e' = Qos2AwaitRec p'" "p_packet_id p' = Some pid" "nz = pid"
    "es = xs @ e'\<lparr>e_state := Qos2AwaitComp pid\<rparr> # ys" by blast
  with rec loop have s1: "s1 = s\<lparr>s_inflight := es\<rparr>" and out1: "out1 = send s (pubrel pid)"
    by (simp_all add: session_on_pubrec_def)
  from one(1) split have "filter (\<lambda>e. publishes_id pid (e_state e)) (xs @ ys) = []"
    by (auto simp: append_eq_Cons_conv)
  with split s1 have "no_publish pid s1" by (auto simp: no_publish_def list_all_iff filter_empty_conv)
  moreover have "session_ok s1" using session_ok_pubrec [OF ok, of pid] rec by simp
  moreover have "s_next_id s \<noteq> 0" using ok by (simp add: session_ok_def)
  moreover have "ids_before (s_next_id s) pid < 65535" by (simp add: ids_before_def)
  ultimately have "quiet pid out2"
    using run_no_publish [OF _ _ _ id_at_ids_before _ few run] pid s1 id_at_surj by fastforce
  with out1 show ?thesis by (simp add: quiet_def)
qed

definition sample_session :: Session where
  "sample_session = (session_new ''c'' (Some 0) 60 1)\<lparr>s_next_id := 8, s_inflight :=
     [fresh_entry ''t'' [1] ExactlyOnce False 7 0 retry_default]\<rparr>"

theorem qos2_never_republished_witness:
  "\<exists>s2 out2. session_run retry_default (fst (session_on_pubrec sample_session 7))
      [OpDeliver ''u'' [2] AtLeastOnce False 10, OpTick (from_secs 3600), OpAttach 1 60 2 99] = Some (s2, out2) \<and>
    length out2 = 5 \<and> list_all (\<lambda>(ch, pkt). \<not> publish_of 7 pkt) out2"
proof -
  let ?ops = "[OpDeliver ''u'' [2] AtLeastOnce False 10, OpTick (from_secs 3600), OpAttach 1 60 2 99]"
  let ?e = "fresh_entry ''t'' [1] ExactlyOnce False 7 0 retry_default"
  let ?s1 = "fst (session_on_pubrec sample_session 7)"
  let ?r = "the (session_run retry_default ?s1 ?ops)"
  have ok: "session_ok sample_session" by code_simp
  have one: "filter (\<lambda>e. publishes_id 7 (e_state e)) (s_inflight sample_session) = [?e]" by code_simp
  have st: "e_state ?e = Qos2AwaitRec (fresh_publish ''t'' [1] ExactlyOnce False 7)" by code_simp
  have rec: "session_on_pubrec sample_session 7 = (?s1, snd (session_on_pubrec sample_session 7))" by simp
  have run: "session_run retry_default ?s1 ?ops = Some (fst ?r, snd ?r)" by code_simp
  have few: "length (filter allocates ?ops) \<le> ids_before (s_next_id sample_session) 7" by code_simp
  have len: "length (snd ?r) = 5" by code_simp
  from qos2_never_republished [OF ok one st rec run few] run len show ?thesis by blast
qed

section \<open>Identifier reuse\<close>

definition queue_all :: "Instant \<Rightarrow> (string \<times> bytes) list \<Rightarrow> SessionOp list" where
  "queue_all now msgs = map (\<lambda>(topic, payload). OpDeliver topic payload AtLeastOnce False now) msgs"

lemma run_queue_all:
  assumes "s_next_id s = id_at k"
  shows "\<exists>s' out. session_run cfg s (queue_all now msgs) = Some (s', out) \<and>
    s_inflight s' = s_inflight s @
      map (\<lambda>(i, topic, payload). fresh_entry topic payload AtLeastOnce False (id_at i) now cfg) (enumerate k msgs)"
  using assms
proof (induction msgs arbitrary: s k)
  case Nil
  then show ?case by (simp add: queue_all_def)
next
  case (Cons m msgs)
  obtain topic payload where m: "m = (topic, payload)" by fastforce
  let ?s = "s\<lparr>s_next_id := id_at (Suc k),
    s_inflight := s_inflight s @ [fresh_entry topic payload AtLeastOnce False (id_at k) now cfg]\<rparr>"
  have "s_next_id ?s = id_at (Suc k)" by simp
  from Cons.IH [OF this] Cons.prems m show ?case
    by (auto simp: queue_all_def deliver_qos12)
qed

text \<open>
  C38. The packet-id counter does not skip identifiers that are still in use, and the queue of an
  offline session is not bounded: after 65536 QoS 1 messages are queued for an offline session
  the first and the last carry the same identifier, and a single PUBACK for it removes both, so
  one of them is lost without ever having been acknowledged.
\<close>

theorem packet_id_reuse_loses_message:
  assumes "length msgs = 65536"
  shows "\<exists>s out. session_run cfg (session_new client_id None expiry generation) (queue_all now msgs) = Some (s, out) \<and>
    length (s_inflight s) = 65536 \<and> length (s_inflight (session_on_puback s 1)) = 65534"
proof -
  have "s_next_id (session_new client_id None expiry generation) = id_at 0"
    by (simp add: session_new_def id_at_def)
  from run_queue_all [OF this, of cfg now msgs] obtain s out where
    run: "session_run cfg (session_new client_id None expiry generation) (queue_all now msgs) = Some (s, out)"
    and q: "s_inflight s = map (\<lambda>(i, topic, payload).
      fresh_entry topic payload AtLeastOnce False (id_at i) now cfg) (enumerate 0 msgs)"
    by (auto simp: session_new_def [of client_id None expiry generation])
  have one: "(1 :: u16) = id_at 0" by (simp add: id_at_def)
  have "acked_by_puback 1 (e_state (s_inflight s ! i)) \<longleftrightarrow> i mod 65535 = 0" if "i < 65536" for i
    using that assms
    by (simp add: q nth_enumerate_eq fresh_entry_def fresh_publish_def one id_at_inj split: prod.split)
  then have "{i. i < length (s_inflight s) \<and> \<not> acked_by_puback 1 (e_state (s_inflight s ! i))} =
      {i. i < 65536 \<and> i mod 65535 \<noteq> 0}"
    using assms by (auto simp: q)
  also have "\<dots> = {..<65536} - {0, 65535}"
  proof -
    have "i mod 65535 = 0 \<longleftrightarrow> i = 0 \<or> i = 65535" if "i < 65536" for i :: nat
      using that mod_window_eq [of i 65535 65535] by (cases "i = 0") auto
    then show ?thesis by auto
  qed
  finally have "length (filter (\<lambda>e. \<not> acked_by_puback 1 (e_state e)) (s_inflight s)) = 65534"
    by (simp add: length_filter_conv_card card_Diff_subset)
  with run assms show ?thesis by (auto simp: session_on_puback_def q)
qed

theorem packet_id_reuse_loses_message_witness:
  "\<exists>s out. session_run retry_default (session_new ''c'' None 60 1)
      (queue_all 0 (replicate 65536 (''t'', [1]))) = Some (s, out) \<and>
    length (s_inflight s) = 65536 \<and> length (s_inflight (session_on_puback s 1)) = 65534"
  by (rule packet_id_reuse_loses_message) (rule length_replicate)

end
