(* ===== verification/Retained.thy ===== *)
theory Retained
  imports Topic Message
begin

text \<open>
  \<open>relay-core/src/retained.rs\<close>: the last retained message per topic. The contract that both the
  in-memory store and its copy on disk keep is the locale \<open>last_value_store\<close>; this theory
  interprets it on \<open>RetainedStore\<close>, the theory of the on-disk store interprets it again.
\<close>

section \<open>Definitions\<close>

record RetainedStore =
  by_topic :: "(string, Message) hash_map"

definition retained_new :: RetainedStore where
  "retained_new = \<lparr>by_topic = []\<rparr>"

definition retained_apply :: "RetainedStore \<Rightarrow> Message \<Rightarrow> RetainedStore" where
  "retained_apply s message =
     (if m_payload message = [] then s\<lparr>by_topic := hm_remove (m_topic message) (by_topic s)\<rparr>
      else s\<lparr>by_topic := hm_insert (m_topic message) message (by_topic s)\<rparr>)"

definition retained_remove :: "RetainedStore \<Rightarrow> string \<Rightarrow> RetainedStore" where
  "retained_remove s topic = s\<lparr>by_topic := hm_remove topic (by_topic s)\<rparr>"

definition retained_matching :: "RetainedStore \<Rightarrow> TopicFilter \<Rightarrow> Message list" where
  "retained_matching s flt =
     sort_key m_topic (map snd (filter (\<lambda>(topic, _). topic_filter_matches flt topic) (by_topic s)))"

definition retained_len :: "RetainedStore \<Rightarrow> nat" where
  "retained_len s = length (by_topic s)"

definition retained_is_empty :: "RetainedStore \<Rightarrow> bool" where
  "retained_is_empty s \<longleftrightarrow> by_topic s = []"

section \<open>Invariant\<close>

definition retained_ok :: "RetainedStore \<Rightarrow> bool" where
  "retained_ok s \<longleftrightarrow> hm_ok (by_topic s) \<and>
     (\<forall>(t, m) \<in> set (by_topic s). m_topic m = t \<and> m_payload m \<noteq> [])"

lemma retained_ok_new [simp]: "retained_ok retained_new"
  by (simp add: retained_ok_def retained_new_def)

lemma retained_ok_apply [simp]: "retained_ok s \<Longrightarrow> retained_ok (retained_apply s m)"
  by (auto simp: retained_ok_def retained_apply_def hm_simps)

lemma retained_ok_remove [simp]: "retained_ok s \<Longrightarrow> retained_ok (retained_remove s t)"
  by (auto simp: retained_ok_def retained_remove_def hm_simps)

lemma retained_get_apply:
  "hm_get (by_topic (retained_apply s m)) =
     (hm_get (by_topic s))(m_topic m := if m_payload m = [] then None else Some m)"
  by (auto simp: retained_apply_def hm_simps)

section \<open>The contract of a last-value store\<close>

type_synonym retained_write = "string \<times> bytes \<times> QoS"

text \<open>The value a topic has after a write: an empty payload clears it.\<close>

definition last_value_write ::
    "(string \<rightharpoonup> QoS \<times> bytes) \<Rightarrow> retained_write \<Rightarrow> (string \<rightharpoonup> QoS \<times> bytes)" where
  "last_value_write v w = (case w of (t, p, q) \<Rightarrow> v(t := if p = [] then None else Some (q, p)))"

locale last_value_store =
  fixes look :: "'s \<Rightarrow> string \<Rightarrow> (QoS \<times> bytes) option"
    and put :: "'s \<Rightarrow> retained_write \<Rightarrow> 's"
    and ok :: "'s \<Rightarrow> bool"
  assumes look_put: "ok s \<Longrightarrow> look (put s w) = last_value_write (look s) w"
    and ok_put: "ok s \<Longrightarrow> ok (put s w)"
begin

lemma ok_puts: "ok s \<Longrightarrow> ok (foldl put s ws)"
  by (induction ws arbitrary: s) (auto simp: ok_put)

lemma look_puts: "ok s \<Longrightarrow> look (foldl put s ws) = foldl last_value_write (look s) ws"
  by (induction ws arbitrary: s) (auto simp: look_put ok_put)

end

text \<open>Two stores fed with the same writes stay equal.\<close>

locale mirrored_stores =
  mem: last_value_store look1 put1 ok1 + disk: last_value_store look2 put2 ok2
  for look1 :: "'s \<Rightarrow> string \<Rightarrow> (QoS \<times> bytes) option" and put1 and ok1
    and look2 :: "'d \<Rightarrow> string \<Rightarrow> (QoS \<times> bytes) option" and put2 and ok2
begin

lemma mirrored:
  assumes "ok1 s" and "ok2 d" and "look1 s = look2 d"
  shows "look1 (foldl put1 s ws) = look2 (foldl put2 d ws)"
  using assms by (simp add: mem.look_puts disk.look_puts)

end

text \<open>The in-memory store keeps the contract.\<close>

definition retained_look :: "RetainedStore \<Rightarrow> string \<Rightarrow> (QoS \<times> bytes) option" where
  "retained_look s t = map_option (\<lambda>m. (m_qos m, m_payload m)) (hm_get (by_topic s) t)"

text \<open>The retained message \<open>Hub::publish\<close> builds from a PUBLISH with the retain flag.\<close>

definition retained_put :: "RetainedStore \<Rightarrow> retained_write \<Rightarrow> RetainedStore" where
  "retained_put s w = (case w of (t, p, q) \<Rightarrow>
     retained_apply s \<lparr>m_topic = t, m_payload = p, m_qos = q, m_retain = True\<rparr>)"

interpretation mem_store: last_value_store retained_look retained_put retained_ok
  by unfold_locales
    (auto simp: retained_look_def retained_put_def last_value_write_def retained_get_apply fun_eq_iff)

section \<open>Correctness\<close>

lemma set_retained_matching:
  "retained_ok s \<Longrightarrow> set (retained_matching s f) =
     {m. hm_get (by_topic s) (m_topic m) = Some m \<and> topic_filter_matches f (m_topic m)}"
  by (force simp: retained_matching_def retained_ok_def hm_get_iff_mem)

lemma distinct_retained_matching:
  assumes "retained_ok s"
  shows "distinct (map m_topic (map snd (filter P (by_topic s))))"
proof -
  from assms have "map m_topic (map snd (filter P (by_topic s))) = map fst (filter P (by_topic s))"
    by (auto simp: retained_ok_def)
  moreover from assms have "distinct (map fst (filter P (by_topic s)))"
    by (simp add: retained_ok_def hm_ok_filter)
  ultimately show ?thesis by argo
qed

text \<open>
  C22. \<open>RetainedStore::matching\<close> returns every retained message whose topic the filter matches and
  nothing else, each topic once, in the order of the topic names; the result does not depend on
  the iteration order of the hash map.
\<close>

theorem retained_matching_correct:
  assumes "retained_ok s"
  shows "set (retained_matching s f) =
      {m. hm_get (by_topic s) (m_topic m) = Some m \<and> topic_filter_matches f (m_topic m)} \<and>
    sorted (map m_topic (retained_matching s f)) \<and> distinct (map m_topic (retained_matching s f)) \<and>
    (mset (by_topic s') = mset (by_topic s) \<longrightarrow> retained_matching s' f = retained_matching s f)"
proof (intro conjI impI)
  let ?P = "\<lambda>(topic, _). topic_filter_matches f topic"
  show "set (retained_matching s f) =
      {m. hm_get (by_topic s) (m_topic m) = Some m \<and> topic_filter_matches f (m_topic m)}"
    by (rule set_retained_matching [OF assms])
  show "sorted (map m_topic (retained_matching s f))"
    by (simp add: retained_matching_def)
  have "mset (map m_topic (retained_matching s f)) =
      mset (map m_topic (map snd (filter ?P (by_topic s))))"
    by (simp add: retained_matching_def multiset.map_comp)
  then show "distinct (map m_topic (retained_matching s f))"
    using distinct_retained_matching [OF assms] mset_eq_imp_distinct_iff by blast
  assume perm: "mset (by_topic s') = mset (by_topic s)"
  show "retained_matching s' f = retained_matching s f"
    unfolding retained_matching_def
  proof (rule sort_key_inj_key_eq)
    show "mset (map snd (filter ?P (by_topic s'))) =
        mset (sort_key m_topic (map snd (filter ?P (by_topic s))))"
      by (simp add: perm)
    have "inj_on m_topic (set (map snd (filter ?P (by_topic s))))"
      using distinct_retained_matching [OF assms, of ?P] distinct_map [of m_topic] by blast
    moreover have "set (by_topic s') = set (by_topic s)" using perm by (rule mset_eq_setD)
    ultimately show "inj_on m_topic (set (map snd (filter ?P (by_topic s'))))" by simp
  qed simp
qed

theorem retained_matching_correct_witness:
  "\<exists>s s' f. retained_ok s \<and> by_topic s' = rev (by_topic s) \<and> length (by_topic s) = 2 \<and>
     retained_matching s' f = retained_matching s f \<and> length (retained_matching s f) = 2"
proof -
  define m where "m t p = \<lparr>m_topic = t, m_payload = p, m_qos = AtMostOnce, m_retain = True\<rparr>"
    for t and p :: bytes
  define s where "s = \<lparr>by_topic = [(''b'', m ''b'' [1]), (''a'', m ''a'' [2])]\<rparr>"
  define s' where "s' = \<lparr>by_topic = [(''a'', m ''a'' [2]), (''b'', m ''b'' [1])]\<rparr>"
  have ok: "retained_ok s" by (simp add: retained_ok_def s_def m_def)
  have "mset (by_topic s') = mset (by_topic s)" by (simp add: s_def s'_def add_mset_commute)
  then have "retained_matching s' (TopicFilter ''+'') = retained_matching s (TopicFilter ''+'')"
    using retained_matching_correct [OF ok] by blast
  moreover have "length (retained_matching s (TopicFilter ''+'')) = 2"
    by (simp add: retained_matching_def s_def m_def topic_filter_matches_def topic_matches_def)
  moreover have "by_topic s' = rev (by_topic s)" by (simp add: s_def s'_def)
  ultimately show ?thesis using ok
    by (intro exI [of _ s] exI [of _ s'] exI [of _ "TopicFilter ''+''"]) (simp add: s_def)
qed

text \<open>
  C23. After any sequence of retained publishes the store holds, for each topic, the last message
  published on it, and nothing if that message had an empty payload or none was published.
\<close>

theorem retained_last_value:
  "hm_get (by_topic (foldl retained_apply retained_new ms)) t =
     (let published = filter (\<lambda>m. m_topic m = t) ms in
      if published = [] \<or> m_payload (last published) = [] then None else Some (last published))"
proof (induction ms rule: rev_induct)
  case Nil
  then show ?case by (simp add: retained_new_def)
next
  case (snoc m ms)
  then show ?case by (cases "m_topic m = t") (simp_all add: retained_get_apply)
qed

end
