(* ===== verification/Storage.thy ===== *)
theory Storage
  imports Retained Inflight
begin

text \<open>
  \<open>relay-server/src/storage.rs\<close>: the operations of the on-disk store and the persistence worker
  that applies queued writes in order.

  The embedded database is the library \<open>redb\<close>. Its tables are a parameter: a record of the table
  operations the source calls, over an arbitrary table type \<open>'t\<close>, each of which may fail
  (\<open>None\<close> stands for \<open>redb::Error\<close>). A write transaction that fails, in any of its steps or at
  its commit, is rolled back, so a failed operation has no new state. The documented behaviour of
  a redb table (rows sorted by key, insert replaces, \<open>first\<close>/\<open>last\<close>/\<open>len\<close>/\<open>range\<close> read those
  rows) is the predicate \<open>table_laws\<close>, a hypothesis of the theorems; \<open>list_table\<close> is an instance.
\<close>

section \<open>The database\<close>

record ('k, 'v, 't) Table =
  tbl_insert :: "'k \<Rightarrow> 'v \<Rightarrow> 't \<Rightarrow> 't option"
  tbl_remove :: "'k \<Rightarrow> 't \<Rightarrow> 't option"
  tbl_iter :: "'t \<Rightarrow> ('k \<times> 'v) option list option"
  tbl_range :: "'k \<Rightarrow> 't \<Rightarrow> ('k \<times> 'v) option list option"
  tbl_first :: "'t \<Rightarrow> ('k \<times> 'v) option option"
  tbl_last :: "'t \<Rightarrow> ('k \<times> 'v) option option"
  tbl_len :: "'t \<Rightarrow> u64 option"

record ('s, 'u, 'e) Storage =
  st_retained :: 's
  st_sessions :: 'u
  st_subscriptions :: 's
  st_inflight :: 's
  st_dead_letters :: 'e
  st_events :: 'e

text \<open>
  \<open>db_commit\<close> says whether a write transaction that leaves the given tables begins and commits.
\<close>

record ('s, 'u, 'e) Redb =
  str_table :: "(string, bytes, 's) Table"
  u32_table :: "(string, u32, 'u) Table"
  seq_table :: "(u64, bytes, 'e) Table"
  db_commit :: "('s, 'u, 'e) Storage \<Rightarrow> bool"

definition commit :: "('s, 'u, 'e) Redb \<Rightarrow> ('s, 'u, 'e) Storage \<Rightarrow> ('s, 'u, 'e) Storage option" where
  "commit db st = (if db_commit db st then Some st else None)"

definition SEP :: char where
  "SEP = CHR 0x00"

record PersistedSession =
  ps_client_id :: string
  ps_expiry_secs :: u32
  ps_subscriptions :: "(string \<times> QoS) list"

section \<open>Operations\<close>

definition put_retained ::
    "('s, 'u, 'e) Redb \<Rightarrow> ('s, 'u, 'e) Storage \<Rightarrow> string \<Rightarrow> bytes \<Rightarrow> QoS \<Rightarrow> ('s, 'u, 'e) Storage option" where
  "put_retained db st topic payload qos = do {
     t \<leftarrow> (if payload = [] then tbl_remove (str_table db) topic (st_retained st)
           else tbl_insert (str_table db) topic ([qos_as_u8 qos] @ payload) (st_retained st));
     commit db (st\<lparr>st_retained := t\<rparr>) }"

definition load_retained :: "('s, 'u, 'e) Redb \<Rightarrow> ('s, 'u, 'e) Storage \<Rightarrow> Message list option" where
  "load_retained db st = do {
     rows \<leftarrow> tbl_iter (str_table db) (st_retained st);
     rows \<leftarrow> those rows;
     Some (List.map_filter (\<lambda>(key, value).
       if value = [] then None
       else Some \<lparr>m_topic = key, m_payload = tl value,
                  m_qos = (case qos_from_u8 (hd value) of Some q \<Rightarrow> q | None \<Rightarrow> AtMostOnce),
                  m_retain = True\<rparr>) rows) }"

definition put_session ::
    "('s, 'u, 'e) Redb \<Rightarrow> ('s, 'u, 'e) Storage \<Rightarrow> string \<Rightarrow> u32 \<Rightarrow> ('s, 'u, 'e) Storage option" where
  "put_session db st client_id expiry_secs = do {
     t \<leftarrow> tbl_insert (u32_table db) client_id expiry_secs (st_sessions st);
     commit db (st\<lparr>st_sessions := t\<rparr>) }"

fun remove_keys :: "('k, 'v, 't) Table \<Rightarrow> 'k list \<Rightarrow> 't \<Rightarrow> 't option" where
  "remove_keys tb [] t = Some t"
| "remove_keys tb (k # ks) t = do { t \<leftarrow> tbl_remove tb k t; remove_keys tb ks t }"

definition remove_session ::
    "('s, 'u, 'e) Redb \<Rightarrow> ('s, 'u, 'e) Storage \<Rightarrow> string \<Rightarrow> ('s, 'u, 'e) Storage option" where
  "remove_session db st client_id = do {
     let prefix = client_id @ [SEP];
     sessions \<leftarrow> tbl_remove (u32_table db) client_id (st_sessions st);
     rows \<leftarrow> tbl_iter (str_table db) (st_subscriptions st);
     let keys = filter (starts_with prefix) (map fst (List.map_filter id rows));
     subs \<leftarrow> remove_keys (str_table db) keys (st_subscriptions st);
     inflight \<leftarrow> tbl_remove (str_table db) client_id (st_inflight st);
     commit db (st\<lparr>st_sessions := sessions, st_subscriptions := subs, st_inflight := inflight\<rparr>) }"

definition put_subscription ::
    "('s, 'u, 'e) Redb \<Rightarrow> ('s, 'u, 'e) Storage \<Rightarrow> string \<Rightarrow> string \<Rightarrow> QoS \<Rightarrow> ('s, 'u, 'e) Storage option" where
  "put_subscription db st client_id raw qos = do {
     let key = client_id @ [SEP] @ raw;
     t \<leftarrow> tbl_insert (str_table db) key [qos_as_u8 qos] (st_subscriptions st);
     commit db (st\<lparr>st_subscriptions := t\<rparr>) }"

definition remove_subscription ::
    "('s, 'u, 'e) Redb \<Rightarrow> ('s, 'u, 'e) Storage \<Rightarrow> string \<Rightarrow> string \<Rightarrow> ('s, 'u, 'e) Storage option" where
  "remove_subscription db st client_id raw = do {
     let key = client_id @ [SEP] @ raw;
     t \<leftarrow> tbl_remove (str_table db) key (st_subscriptions st);
     commit db (st\<lparr>st_subscriptions := t\<rparr>) }"

definition put_inflight ::
    "('s, 'u, 'e) Redb \<Rightarrow> ('s, 'u, 'e) Storage \<Rightarrow> string \<Rightarrow> bytes \<Rightarrow> ('s, 'u, 'e) Storage option" where
  "put_inflight db st client_id blob = do {
     t \<leftarrow> (if blob = [] then tbl_remove (str_table db) client_id (st_inflight st)
           else tbl_insert (str_table db) client_id blob (st_inflight st));
     commit db (st\<lparr>st_inflight := t\<rparr>) }"

definition load_inflight ::
    "('s, 'u, 'e) Redb \<Rightarrow> ('s, 'u, 'e) Storage \<Rightarrow> (string, bytes) hash_map option" where
  "load_inflight db st = do {
     rows \<leftarrow> tbl_iter (str_table db) (st_inflight st);
     rows \<leftarrow> those rows;
     Some (foldl (\<lambda>out (key, value). hm_insert key value out) [] rows) }"

definition append_dead_letter ::
    "('s, 'u, 'e) Redb \<Rightarrow> ('s, 'u, 'e) Storage \<Rightarrow> bytes \<Rightarrow> ('s, 'u, 'e) Storage option" where
  "append_dead_letter db st blob = do {
     newest \<leftarrow> tbl_last (seq_table db) (st_dead_letters st);
     let next = (case newest of Some (k, _) \<Rightarrow> k + 1 | None \<Rightarrow> 0);
     t \<leftarrow> tbl_insert (seq_table db) next blob (st_dead_letters st);
     commit db (st\<lparr>st_dead_letters := t\<rparr>) }"

text \<open>
  The \<open>while\<close> loop of \<open>append_event\<close>. The outer option is whether the loop ends, the inner one
  whether the database reported an error.
\<close>

partial_function (option) prune_events ::
    "(u64, bytes, 'e) Table \<Rightarrow> u64 \<Rightarrow> 'e \<Rightarrow> 'e option option" where
  "prune_events tb retention t =
     (case tbl_len tb t of
        None \<Rightarrow> Some None
      | Some n \<Rightarrow>
          if retention < n then
            (case tbl_first tb t of
               None \<Rightarrow> Some None
             | Some None \<Rightarrow> Some (Some t)
             | Some (Some (oldest, _)) \<Rightarrow>
                 (case tbl_remove tb oldest t of
                    None \<Rightarrow> Some None
                  | Some t' \<Rightarrow> prune_events tb retention t'))
          else Some (Some t))"

definition append_event ::
    "('s, 'u, 'e) Redb \<Rightarrow> ('s, 'u, 'e) Storage \<Rightarrow> bytes \<Rightarrow> u64
     \<Rightarrow> (u64 \<times> ('s, 'u, 'e) Storage) option option" where
  "append_event db st blob retention =
     (case tbl_last (seq_table db) (st_events st) of
        None \<Rightarrow> Some None
      | Some newest \<Rightarrow>
          let offset = (case newest of Some (k, _) \<Rightarrow> k + 1 | None \<Rightarrow> 0) in
          (case tbl_insert (seq_table db) offset blob (st_events st) of
             None \<Rightarrow> Some None
           | Some t \<Rightarrow>
               map_option (\<lambda>pruned. do {
                   t \<leftarrow> pruned;
                   st \<leftarrow> commit db (st\<lparr>st_events := t\<rparr>);
                   Some (offset, st) })
                 (if 0 < retention then prune_events (seq_table db) retention t else Some (Some t))))"

definition load_events ::
    "('s, 'u, 'e) Redb \<Rightarrow> ('s, 'u, 'e) Storage \<Rightarrow> u64 \<Rightarrow> (u64 \<times> bytes) list option" where
  "load_events db st from = do {
     rows \<leftarrow> tbl_range (seq_table db) from (st_events st);
     those rows }"

definition dead_letter_count :: "('s, 'u, 'e) Redb \<Rightarrow> ('s, 'u, 'e) Storage \<Rightarrow> u64 option" where
  "dead_letter_count db st = tbl_len (seq_table db) (st_dead_letters st)"

definition event_count :: "('s, 'u, 'e) Redb \<Rightarrow> ('s, 'u, 'e) Storage \<Rightarrow> u64 option" where
  "event_count db st = tbl_len (seq_table db) (st_events st)"

definition next_offset :: "('s, 'u, 'e) Redb \<Rightarrow> ('s, 'u, 'e) Storage \<Rightarrow> u64 option" where
  "next_offset db st = do {
     newest \<leftarrow> tbl_last (seq_table db) (st_events st);
     Some (case newest of Some (k, _) \<Rightarrow> k + 1 | None \<Rightarrow> 0) }"

text \<open>The first loop of \<open>load_sessions\<close>: subscriptions grouped by client.\<close>

definition group_row ::
    "(string, (string \<times> QoS) list) hash_map \<Rightarrow> string \<times> bytes \<Rightarrow> (string, (string \<times> QoS) list) hash_map" where
  "group_row m row = (case row of (key, value) \<Rightarrow>
     (case split_once SEP key of
        None \<Rightarrow> m
      | Some (client_id, raw) \<Rightarrow>
          let qos = (case value of [] \<Rightarrow> AtMostOnce
                     | b # _ \<Rightarrow> (case qos_from_u8 b of Some q \<Rightarrow> q | None \<Rightarrow> AtMostOnce));
              subs = (case hm_get m client_id of Some l \<Rightarrow> l | None \<Rightarrow> [])
          in hm_insert client_id (subs @ [(raw, qos)]) m))"

text \<open>Its second loop: each session takes its subscriptions out of the map.\<close>

fun collect_sessions ::
    "(string, (string \<times> QoS) list) hash_map \<Rightarrow> (string \<times> u32) list \<Rightarrow> PersistedSession list" where
  "collect_sessions m [] = []"
| "collect_sessions m ((client_id, expiry) # rows) =
     \<lparr>ps_client_id = client_id, ps_expiry_secs = expiry,
      ps_subscriptions = (case hm_get m client_id of Some l \<Rightarrow> l | None \<Rightarrow> [])\<rparr>
     # collect_sessions (hm_remove client_id m) rows"

definition load_sessions ::
    "('s, 'u, 'e) Redb \<Rightarrow> ('s, 'u, 'e) Storage \<Rightarrow> PersistedSession list option" where
  "load_sessions db st = do {
     subs \<leftarrow> tbl_iter (str_table db) (st_subscriptions st);
     subs \<leftarrow> those subs;
     let subs_by_client = foldl group_row [] subs;
     sessions \<leftarrow> tbl_iter (u32_table db) (st_sessions st);
     sessions \<leftarrow> those sessions;
     Some (collect_sessions subs_by_client sessions) }"

section \<open>The persistence worker\<close>

datatype PersistOp =
    PutSession string u32
  | RemoveSession string
  | PutSubscription string string QoS
  | RemoveSubscription string string
  | PutInflight string bytes
  | PutRetained string bytes QoS
  | AppendDeadLetter bytes
  | AppendEvent bytes u64
  | Flush

text \<open>A write that fails is logged and leaves the store as it was.\<close>

definition or_keep :: "'a \<Rightarrow> 'a option \<Rightarrow> 'a" where
  "or_keep st r = (case r of Some st' \<Rightarrow> st' | None \<Rightarrow> st)"

primrec apply_persist_op ::
    "('s, 'u, 'e) Redb \<Rightarrow> ('s, 'u, 'e) Storage \<Rightarrow> PersistOp \<Rightarrow> ('s, 'u, 'e) Storage option" where
  "apply_persist_op db st (PutSession client_id expiry) = Some (or_keep st (put_session db st client_id expiry))"
| "apply_persist_op db st (RemoveSession client_id) = Some (or_keep st (remove_session db st client_id))"
| "apply_persist_op db st (PutSubscription client_id raw qos) =
     Some (or_keep st (put_subscription db st client_id raw qos))"
| "apply_persist_op db st (RemoveSubscription client_id raw) =
     Some (or_keep st (remove_subscription db st client_id raw))"
| "apply_persist_op db st (PutInflight client_id blob) = Some (or_keep st (put_inflight db st client_id blob))"
| "apply_persist_op db st (PutRetained topic payload qos) =
     Some (or_keep st (put_retained db st topic payload qos))"
| "apply_persist_op db st (AppendDeadLetter blob) = Some (or_keep st (append_dead_letter db st blob))"
| "apply_persist_op db st (AppendEvent blob retention) =
     map_option (\<lambda>r. or_keep st (map_option snd r)) (append_event db st blob retention)"
| "apply_persist_op db st Flush = Some st"

fun run_persist_worker ::
    "('s, 'u, 'e) Redb \<Rightarrow> ('s, 'u, 'e) Storage \<Rightarrow> PersistOp list \<Rightarrow> ('s, 'u, 'e) Storage option" where
  "run_persist_worker db st [] = Some st"
| "run_persist_worker db st (op # ops) = do {
     st \<leftarrow> apply_persist_op db st op;
     run_persist_worker db st ops }"

section \<open>Documented behaviour of the tables\<close>

definition table_laws :: "('k::linorder, 'v, 't) Table \<Rightarrow> ('t \<Rightarrow> ('k \<times> 'v) list) \<Rightarrow> bool" where
  "table_laws tb rows \<longleftrightarrow>
     (\<forall>t. sorted_wrt (<) (map fst (rows t))) \<and>
     (\<forall>k v t t'. tbl_insert tb k v t = Some t' \<longrightarrow> map_of (rows t') = (map_of (rows t))(k \<mapsto> v)) \<and>
     (\<forall>k t t'. tbl_remove tb k t = Some t' \<longrightarrow> map_of (rows t') = (map_of (rows t))(k := None)) \<and>
     (\<forall>t rs xs. tbl_iter tb t = Some rs \<and> those rs = Some xs \<longrightarrow> xs = rows t) \<and>
     (\<forall>k t rs xs. tbl_range tb k t = Some rs \<and> those rs = Some xs \<longrightarrow> xs = filter (\<lambda>(k', _). k \<le> k') (rows t)) \<and>
     (\<forall>t r. tbl_first tb t = Some r \<longrightarrow> r = (case rows t of [] \<Rightarrow> None | x # _ \<Rightarrow> Some x)) \<and>
     (\<forall>t r. tbl_last tb t = Some r \<longrightarrow> r = (if rows t = [] then None else Some (last (rows t)))) \<and>
     (\<forall>t n. tbl_len tb t = Some n \<longrightarrow> unat n = length (rows t))"

text \<open>A database on which no operation fails.\<close>

definition table_total :: "('k, 'v, 't) Table \<Rightarrow> ('t \<Rightarrow> ('k \<times> 'v) list) \<Rightarrow> bool" where
  "table_total tb rows \<longleftrightarrow>
     (\<forall>k v t. tbl_insert tb k v t \<noteq> None) \<and> (\<forall>k t. tbl_remove tb k t \<noteq> None) \<and>
     (\<forall>t. \<exists>rs xs. tbl_iter tb t = Some rs \<and> those rs = Some xs) \<and>
     (\<forall>k t. \<exists>rs xs. tbl_range tb k t = Some rs \<and> those rs = Some xs) \<and>
     (\<forall>t. tbl_first tb t \<noteq> None) \<and> (\<forall>t. tbl_last tb t \<noteq> None) \<and>
     (\<forall>t. length (rows t) < 2 ^ 64 \<longrightarrow> tbl_len tb t \<noteq> None)"

record ('s, 'u, 'e) Rows =
  str_rows :: "'s \<Rightarrow> (string \<times> bytes) list"
  u32_rows :: "'u \<Rightarrow> (string \<times> u32) list"
  seq_rows :: "'e \<Rightarrow> (u64 \<times> bytes) list"

definition redb_laws :: "('s, 'u, 'e) Redb \<Rightarrow> ('s, 'u, 'e) Rows \<Rightarrow> bool" where
  "redb_laws db r \<longleftrightarrow> table_laws (str_table db) (str_rows r) \<and> table_laws (u32_table db) (u32_rows r) \<and>
     table_laws (seq_table db) (seq_rows r)"

definition redb_total :: "('s, 'u, 'e) Redb \<Rightarrow> ('s, 'u, 'e) Rows \<Rightarrow> bool" where
  "redb_total db r \<longleftrightarrow> table_total (str_table db) (str_rows r) \<and> table_total (u32_table db) (u32_rows r) \<and>
     table_total (seq_table db) (seq_rows r) \<and> (\<forall>st. db_commit db st)"

lemma alist_of_map: "hm_ok xs \<Longrightarrow> map (\<lambda>k. (k, the (map_of xs k))) (map fst xs) = xs"
  by (auto intro!: map_idI)

lemma sorted_rows_unique:
  fixes xs ys :: "('k::linorder \<times> 'v) list"
  assumes "sorted_wrt (<) (map fst xs)" "sorted_wrt (<) (map fst ys)" "map_of xs = map_of ys"
  shows "xs = ys"
proof -
  have dist: "distinct (map fst xs)" "distinct (map fst ys)" "sorted (map fst xs)" "sorted (map fst ys)"
    using assms(1,2) by (simp_all add: strict_sorted_iff)
  have "set xs = set ys"
    using dist(1,2) assms(3) by (metis map_of_inject_set)
  then have "map fst xs = map fst ys"
    using dist by (intro sorted_distinct_set_unique) auto
  then show ?thesis
    using alist_of_map [OF dist(1)] alist_of_map [OF dist(2)] assms(3) by simp
qed

section \<open>An instance\<close>

definition list_rows :: "('k::linorder \<times> 'v) list \<Rightarrow> ('k \<times> 'v) list" where
  "list_rows t = sort_key fst (AList.clearjunk t)"

definition list_table :: "('k::linorder, 'v, ('k \<times> 'v) list) Table" where
  "list_table = \<lparr>
     tbl_insert = (\<lambda>k v t. Some (AList.update k v t)),
     tbl_remove = (\<lambda>k t. Some (AList.delete k t)),
     tbl_iter = (\<lambda>t. Some (map Some (list_rows t))),
     tbl_range = (\<lambda>k t. Some (map Some (filter (\<lambda>(k', _). k \<le> k') (list_rows t)))),
     tbl_first = (\<lambda>t. Some (case list_rows t of [] \<Rightarrow> None | x # _ \<Rightarrow> Some x)),
     tbl_last = (\<lambda>t. Some (if list_rows t = [] then None else Some (last (list_rows t)))),
     tbl_len = (\<lambda>t. if length (list_rows t) < 2 ^ 64 then Some (of_nat (length (list_rows t))) else None)\<rparr>"

type_synonym list_storage = "((string \<times> bytes) list, (string \<times> u32) list, (u64 \<times> bytes) list) Storage"

definition list_db :: "((string \<times> bytes) list, (string \<times> u32) list, (u64 \<times> bytes) list) Redb" where
  "list_db = \<lparr>str_table = list_table, u32_table = list_table, seq_table = list_table, db_commit = (\<lambda>_. True)\<rparr>"

definition list_view :: "((string \<times> bytes) list, (string \<times> u32) list, (u64 \<times> bytes) list) Rows" where
  "list_view = \<lparr>str_rows = list_rows, u32_rows = list_rows, seq_rows = list_rows\<rparr>"

definition empty_storage :: list_storage where
  "empty_storage = \<lparr>st_retained = [], st_sessions = [], st_subscriptions = [], st_inflight = [],
     st_dead_letters = [], st_events = []\<rparr>"

lemma those_map_Some [simp]: "those (map Some xs) = Some xs"
  by (induction xs) simp_all

lemma hm_ok_list_rows: "hm_ok (list_rows t)"
proof -
  have "mset (map fst (list_rows t)) = mset (map fst (AList.clearjunk t))"
    by (simp add: list_rows_def)
  then show ?thesis using distinct_clearjunk mset_eq_imp_distinct_iff by blast
qed

lemma map_of_list_rows [simp]: "map_of (list_rows t) = map_of t"
proof -
  have "set (list_rows t) = set (AList.clearjunk t)" by (simp add: list_rows_def)
  then have "map_of (list_rows t) = map_of (AList.clearjunk t)"
    by (subst map_of_inject_set [OF hm_ok_list_rows distinct_clearjunk])
  then show ?thesis by (simp add: map_of_clearjunk)
qed

lemma strict_list_rows: "sorted_wrt (<) (map fst (list_rows t))"
  using hm_ok_list_rows [of t] by (simp add: strict_sorted_iff) (simp add: list_rows_def)

lemma list_table_laws: "table_laws list_table list_rows"
  by (auto simp: table_laws_def list_table_def strict_list_rows update_conv' delete_conv' unat_of_nat)

lemma list_table_total: "table_total list_table list_rows"
  by (auto simp: table_total_def list_table_def)

lemma list_db_laws: "redb_laws list_db list_view" and list_db_total: "redb_total list_db list_view"
  by (simp_all add: redb_laws_def redb_total_def list_db_def list_view_def list_table_laws list_table_total)

lemma law_sorted:
  "table_laws tb rows \<Longrightarrow> sorted_wrt (<) (map fst (rows t))"
  by (simp add: table_laws_def)

lemma law_insert:
  "table_laws tb rows \<Longrightarrow> tbl_insert tb k v t = Some t' \<Longrightarrow> map_of (rows t') = (map_of (rows t))(k \<mapsto> v)"
  by (simp add: table_laws_def)

lemma law_remove:
  "table_laws tb rows \<Longrightarrow> tbl_remove tb k t = Some t' \<Longrightarrow> map_of (rows t') = (map_of (rows t))(k := None)"
  by (simp add: table_laws_def)

lemma law_iter:
  "table_laws tb rows \<Longrightarrow> tbl_iter tb t = Some rs \<Longrightarrow> those rs = Some xs \<Longrightarrow> xs = rows t"
  by (simp add: table_laws_def)

lemma law_range:
  "table_laws tb rows \<Longrightarrow> tbl_range tb k t = Some rs \<Longrightarrow> those rs = Some xs \<Longrightarrow>
    xs = filter (\<lambda>(k', _). k \<le> k') (rows t)"
  by (simp add: table_laws_def)

lemma law_first:
  "table_laws tb rows \<Longrightarrow> tbl_first tb t = Some r \<Longrightarrow> r = (case rows t of [] \<Rightarrow> None | x # _ \<Rightarrow> Some x)"
  by (simp add: table_laws_def)

lemma law_last:
  "table_laws tb rows \<Longrightarrow> tbl_last tb t = Some r \<Longrightarrow> r = (if rows t = [] then None else Some (last (rows t)))"
  by (simp add: table_laws_def)

lemma law_len:
  "table_laws tb rows \<Longrightarrow> tbl_len tb t = Some n \<Longrightarrow> unat n = length (rows t)"
  by (simp add: table_laws_def)

lemma total_insert: "table_total tb rows \<Longrightarrow> \<exists>t'. tbl_insert tb k v t = Some t'"
  by (simp add: table_total_def)

lemma total_remove: "table_total tb rows \<Longrightarrow> \<exists>t'. tbl_remove tb k t = Some t'"
  by (simp add: table_total_def)

lemma total_iter: "table_total tb rows \<Longrightarrow> \<exists>rs xs. tbl_iter tb t = Some rs \<and> those rs = Some xs"
  by (simp add: table_total_def)

lemma total_range: "table_total tb rows \<Longrightarrow> \<exists>rs xs. tbl_range tb k t = Some rs \<and> those rs = Some xs"
  by (simp add: table_total_def)

lemma total_first: "table_total tb rows \<Longrightarrow> \<exists>r. tbl_first tb t = Some r"
  by (simp add: table_total_def)

lemma total_last: "table_total tb rows \<Longrightarrow> \<exists>r. tbl_last tb t = Some r"
  by (simp add: table_total_def)

lemma total_len: "table_total tb rows \<Longrightarrow> length (rows t) < 2 ^ 64 \<Longrightarrow> \<exists>n. tbl_len tb t = Some n"
  by (simp add: table_total_def)

lemma law_distinct: "table_laws tb rows \<Longrightarrow> hm_ok (rows t)"
  by (drule law_sorted [of _ _ t]) (simp add: strict_sorted_iff)

section \<open>The event log\<close>

lemma rows_insert_last:
  assumes laws: "table_laws tb rows" and ins: "tbl_insert tb k v t = Some t'"
    and max: "\<forall>x \<in> set (rows t). fst x < k"
  shows "rows t' = rows t @ [(k, v)]"
proof (rule sorted_rows_unique)
  show "sorted_wrt (<) (map fst (rows t'))" by (rule law_sorted [OF laws])
  show "sorted_wrt (<) (map fst (rows t @ [(k, v)]))"
    using law_sorted [OF laws, of t] max by (auto simp: sorted_wrt_append)
  have "map_of (rows t) k = None" using max by (auto simp: map_of_eq_None_iff)
  then show "map_of (rows t') = map_of (rows t @ [(k, v)])"
    by (auto simp: law_insert [OF laws ins] map_add_def fun_eq_iff split: option.split)
qed

lemma rows_remove_first:
  assumes laws: "table_laws tb rows" and rm: "tbl_remove tb k t = Some t'" and rows: "rows t = (k, v) # r"
  shows "rows t' = r"
proof (rule sorted_rows_unique)
  show "sorted_wrt (<) (map fst (rows t'))" by (rule law_sorted [OF laws])
  have sorted: "sorted_wrt (<) (map fst ((k, v) # r))" using law_sorted [OF laws, of t] rows by simp
  then show "sorted_wrt (<) (map fst r)" by simp
  from sorted have "map_of r k = None" by (auto simp: map_of_eq_None_iff)
  then show "map_of (rows t') = map_of r"
    by (auto simp: law_remove [OF laws rm] rows fun_eq_iff)
qed

text \<open>The pruning loop ends and keeps the newest \<open>retention\<close> rows.\<close>

lemma prune_events_spec:
  assumes laws: "table_laws tb rows" and total: "table_total tb rows" and "length (rows t) < 2 ^ 64"
  shows "\<exists>t'. prune_events tb retention t = Some (Some t') \<and>
    rows t' = drop (length (rows t) - unat retention) (rows t)"
  using assms(3)
proof (induction "length (rows t)" arbitrary: t rule: less_induct)
  case less
  obtain n where n: "tbl_len tb t = Some n" using total_len [OF total less.prems] by blast
  note len = law_len [OF laws n]
  show ?case
  proof (cases "retention < n")
    case False
    then have "length (rows t) \<le> unat retention" by (simp add: word_less_nat_alt len not_less)
    with False n show ?thesis by (subst prune_events.simps) simp
  next
    case True
    then have gt: "unat retention < length (rows t)" by (simp add: word_less_nat_alt len)
    then obtain k v r where rows: "rows t = (k, v) # r" by (cases "rows t") auto
    obtain f where "tbl_first tb t = Some f" using total_first [OF total] by blast
    with law_first [OF laws this] rows have first: "tbl_first tb t = Some (Some (k, v))" by simp
    obtain t1 where rm: "tbl_remove tb k t = Some t1" using total_remove [OF total] by blast
    have rows1: "rows t1 = r" by (rule rows_remove_first [OF laws rm rows])
    with less.hyps [of t1] less.prems rows obtain t' where
      "prune_events tb retention t1 = Some (Some t')" "rows t' = drop (length r - unat retention) r" by auto
    moreover have "length (rows t) - unat retention = Suc (length r - unat retention)"
      using gt rows by simp
    ultimately show ?thesis
      using True n first rm rows by (subst prune_events.simps) simp
  qed
qed

text \<open>The log that holds the newest \<open>retention\<close> of all appended events (all of them for 0).\<close>

definition numbered :: "bytes list \<Rightarrow> (u64 \<times> bytes) list" where
  "numbered bs = zip (map of_nat [0..<length bs]) bs"

definition log_tail :: "u64 \<Rightarrow> bytes list \<Rightarrow> (u64 \<times> bytes) list" where
  "log_tail retention bs = drop (if retention = 0 then 0 else length bs - unat retention) (numbered bs)"

lemma numbered_snoc: "numbered (bs @ [b]) = numbered bs @ [(of_nat (length bs), b)]"
  by (simp add: numbered_def)

lemma length_numbered [simp]: "length (numbered bs) = length bs"
  by (simp add: numbered_def)

lemma numbered_less:
  assumes "length bs < 2 ^ 64" "x \<in> set (numbered bs)" shows "fst x < of_nat (length bs)"
proof -
  from assms(2) have "fst x \<in> of_nat ` {0..<length bs}"
    unfolding numbered_def by (metis fst_conv in_set_zipE prod.collapse set_map set_upt)
  then obtain i where "fst x = of_nat i" "i < length bs" by auto
  with assms(1) show ?thesis by (simp add: word_less_nat_alt unat_of_nat)
qed

lemma log_tail_snoc:
  "log_tail retention bs @ [x] =
     drop (if retention = 0 then 0 else length bs - unat retention) (numbered bs @ [x])"
  by (simp add: log_tail_def)

lemma log_tail_split:
  "log_tail retention (bs @ [b]) =
     drop (if retention = 0 then 0 else Suc (length bs) - unat retention) (numbered bs) @ [(of_nat (length bs), b)]"
proof (cases "retention = 0")
  case False
  then have "0 < unat retention" by (simp add: unat_gt_0)
  with False show ?thesis by (simp add: log_tail_def numbered_snoc)
qed (simp add: log_tail_def numbered_snoc)

lemma last_log_tail:
  assumes "bs \<noteq> []"
  shows "log_tail retention bs \<noteq> []" and "last (log_tail retention bs) = (of_nat (length bs) - 1, last bs)"
proof -
  obtain xs b where "bs = xs @ [b]" using assms by (metis append_butlast_last_id)
  then show "log_tail retention bs \<noteq> []" and "last (log_tail retention bs) = (of_nat (length bs) - 1, last bs)"
    by (simp_all add: log_tail_split)
qed

lemma drop_log_tail:
  assumes "0 < retention"
  shows "drop (length (log_tail retention bs @ [x]) - unat retention) (log_tail retention bs @ [x]) =
    drop (Suc (length bs) - unat retention) (numbered bs @ [x])"
proof -
  have pos: "0 < unat retention" "retention \<noteq> 0" using assms by (auto simp: word_less_nat_alt)
  have "Suc (length bs) - (length bs - k) - k + (length bs - k) = Suc (length bs) - k" for k by arith
  with pos show ?thesis unfolding log_tail_snoc by simp
qed

lemma log_tail_less:
  "length bs < 2 ^ 64 \<Longrightarrow> \<forall>x \<in> set (log_tail retention bs). fst x < of_nat (length bs)"
  unfolding log_tail_def by (blast intro: numbered_less dest: in_set_dropD)

lemma append_event_spec:
  assumes laws: "redb_laws db r" and total: "redb_total db r"
    and rows: "seq_rows r (st_events st) = log_tail retention bs" and len: "Suc (length bs) < 2 ^ 64"
  shows "\<exists>t. append_event db st b retention = Some (Some (of_nat (length bs), st\<lparr>st_events := t\<rparr>)) \<and>
    seq_rows r t = log_tail retention (bs @ [b])"
proof -
  let ?tb = "seq_table db"
  have laws': "table_laws ?tb (seq_rows r)" and total': "table_total ?tb (seq_rows r)" and commit: "commit db st' = Some st'" for st'
    using laws total by (simp_all add: redb_laws_def redb_total_def commit_def)
  obtain newest where last: "tbl_last ?tb (st_events st) = Some newest" using total_last [OF total'] by blast
  have offset: "(case newest of Some (k, _) \<Rightarrow> k + 1 | None \<Rightarrow> 0) = (of_nat (length bs) :: u64)"
    using law_last [OF laws' last] rows by (cases "bs = []") (simp_all add: last_log_tail, simp add: log_tail_def numbered_def)
  obtain t where ins: "tbl_insert ?tb (of_nat (length bs)) b (st_events st) = Some t"
    using total_insert [OF total'] by blast
  have rows_t: "seq_rows r t = log_tail retention bs @ [(of_nat (length bs), b)]"
    using rows_insert_last [OF laws' ins] rows len log_tail_less [of bs] by simp
  show ?thesis
  proof (cases "0 < retention")
    case True
    have "length (seq_rows r t) < 2 ^ 64" using rows_t len by (simp add: log_tail_def)
    from prune_events_spec [OF laws' total' this, of retention] obtain t' where
      prune: "prune_events ?tb retention t = Some (Some t')"
      and rows_t': "seq_rows r t' = drop (length (seq_rows r t) - unat retention) (seq_rows r t)" by blast
    have "seq_rows r t' = log_tail retention (bs @ [b])"
      unfolding rows_t' rows_t drop_log_tail [OF True] using True by (auto simp: log_tail_def numbered_snoc)
    with True last ins offset prune show ?thesis
      by (intro exI [of _ t']) (simp add: append_event_def Let_def commit)
  next
    case False
    then have "retention = 0" by (simp add: word_gt_0)
    with last ins offset rows_t show ?thesis
      by (intro exI [of _ t]) (simp add: append_event_def Let_def commit log_tail_def numbered_snoc)
  qed
qed

text \<open>A run of appends with the offsets they report.\<close>

fun append_events ::
    "('s, 'u, 'e) Redb \<Rightarrow> ('s, 'u, 'e) Storage \<Rightarrow> u64 \<Rightarrow> bytes list
     \<Rightarrow> (u64 list \<times> ('s, 'u, 'e) Storage) option option" where
  "append_events db st retention [] = Some (Some ([], st))"
| "append_events db st retention (b # bs) =
     (case append_event db st b retention of
        Some (Some (offset, st)) \<Rightarrow> map_option (map_option (apfst (Cons offset))) (append_events db st retention bs)
      | Some None \<Rightarrow> Some None
      | None \<Rightarrow> None)"

lemma append_events_spec:
  assumes laws: "redb_laws db r" and total: "redb_total db r"
    and "seq_rows r (st_events st) = log_tail retention as" and "length as + length bs < 2 ^ 64"
  shows "\<exists>t. append_events db st retention bs =
      Some (Some (map of_nat [length as..<length as + length bs], st\<lparr>st_events := t\<rparr>)) \<and>
    seq_rows r t = log_tail retention (as @ bs)"
  using assms(3,4)
proof (induction bs arbitrary: st as)
  case Nil
  then show ?case by (intro exI [of _ "st_events st"]) simp
next
  case (Cons b bs)
  from append_event_spec [OF laws total Cons.prems(1), of b] Cons.prems(2) obtain t where
    first: "append_event db st b retention = Some (Some (of_nat (length as), st\<lparr>st_events := t\<rparr>))"
    and rows: "seq_rows r (st_events (st\<lparr>st_events := t\<rparr>)) = log_tail retention (as @ [b])"
    by auto
  from Cons.IH [OF rows] Cons.prems(2) obtain t' where
    "append_events db (st\<lparr>st_events := t\<rparr>) retention bs =
       Some (Some (map of_nat [Suc (length as)..<Suc (length as + length bs)], st\<lparr>st_events := t'\<rparr>))"
    "seq_rows r t' = log_tail retention (as @ b # bs)" by auto
  with first show ?case by (intro exI [of _ t']) (simp add: upt_conv_Cons del: upt_Suc)
qed

text \<open>
  C24. The event log on a database that keeps its contract and reports no error: every append
  ends (the pruning loop terminates), the offsets it reports are 0, 1, 2, \<dots> without gap or
  reuse, and the log then holds exactly the newest \<open>retention\<close> events (all of them when the
  retention is 0), each under the offset reported for it.
\<close>

theorem event_log_correct:
  assumes "redb_laws db r" and "redb_total db r"
    and "seq_rows r (st_events st) = []" and "length blobs < 2 ^ 64"
  shows "\<exists>t. append_events db st retention blobs = Some (Some (map of_nat [0..<length blobs], st\<lparr>st_events := t\<rparr>)) \<and>
    seq_rows r t = drop (if retention = 0 then 0 else length blobs - unat retention)
      (zip (map of_nat [0..<length blobs]) blobs)"
  using append_events_spec [OF assms(1,2), of st retention "[]" blobs] assms(3,4)
  by (simp add: log_tail_def numbered_def)

theorem event_log_correct_witness:
  "\<exists>t. append_events list_db empty_storage 2 [[1], [2], [3]] =
      Some (Some (map of_nat [0..<3], empty_storage\<lparr>st_events := t\<rparr>)) \<and>
    list_rows t = [(1, [2]), (2, [3])]"
proof -
  let ?bs = "[[1], [2], [3]] :: bytes list"
  have empty: "seq_rows list_view (st_events empty_storage) = []" by code_simp
  have len: "length ?bs = 3" "length ?bs < 2 ^ 64" by simp_all
  have rows: "drop (if (2 :: u64) = 0 then 0 else length ?bs - unat (2 :: u64)) (zip (map of_nat [0..<length ?bs]) ?bs) =
      [(1 :: u64, [2]), (2, [3])]" by code_simp
  from event_log_correct [OF list_db_laws list_db_total empty len(2), of 2, unfolded rows] show ?thesis
    unfolding len(1) by (simp add: list_view_def)
qed

end
