(* ===== verification/Durable.thy ===== *)
theory Durable
  imports Storage
begin

text \<open>
  What the on-disk store of \<open>storage.rs\<close> means: an abstract durable state, the refinement of every
  queued write by it, and the startup loads read back from it.
\<close>

section \<open>The durable state\<close>

text \<open>
  What the tables mean, independently of their encoding: the retained value per topic, the expiry
  per durable session, the granted QoS per client and filter, and the in-flight blob per client.
  An MQTT string never contains U+0000, so a client identifier does not contain the separator of
  the subscription keys.
\<close>

record Durable =
  du_retained :: "string \<rightharpoonup> QoS \<times> bytes"
  du_sessions :: "string \<rightharpoonup> u32"
  du_subs :: "string \<Rightarrow> string \<rightharpoonup> QoS"
  du_inflight :: "string \<rightharpoonup> bytes"

definition byte_qos :: "u8 \<Rightarrow> QoS" where
  "byte_qos b = (case qos_from_u8 b of Some q \<Rightarrow> q | None \<Rightarrow> AtMostOnce)"

definition row_qos :: "bytes \<Rightarrow> QoS" where
  "row_qos value = (case value of [] \<Rightarrow> AtMostOnce | b # _ \<Rightarrow> byte_qos b)"

definition row_retained :: "bytes \<Rightarrow> (QoS \<times> bytes) option" where
  "row_retained value = (case value of [] \<Rightarrow> None | b # p \<Rightarrow> if p = [] then None else Some (byte_qos b, p))"

definition durable :: "('s, 'u, 'e) Rows \<Rightarrow> ('s, 'u, 'e) Storage \<Rightarrow> Durable" where
  "durable r st = \<lparr>
     du_retained = (\<lambda>t. Option.bind (map_of (str_rows r (st_retained st)) t) row_retained),
     du_sessions = map_of (u32_rows r (st_sessions st)),
     du_subs = (\<lambda>c raw. if SEP \<in> set c then None
                  else map_option row_qos (map_of (str_rows r (st_subscriptions st)) (c @ SEP # raw))),
     du_inflight = map_of (str_rows r (st_inflight st))\<rparr>"

primrec durable_apply :: "Durable \<Rightarrow> PersistOp \<Rightarrow> Durable" where
  "durable_apply d (PutSession c expiry) = d\<lparr>du_sessions := (du_sessions d)(c \<mapsto> expiry)\<rparr>"
| "durable_apply d (RemoveSession c) = d\<lparr>du_sessions := (du_sessions d)(c := None),
     du_subs := (du_subs d)(c := Map.empty), du_inflight := (du_inflight d)(c := None)\<rparr>"
| "durable_apply d (PutSubscription c raw qos) = d\<lparr>du_subs := (du_subs d)(c := (du_subs d c)(raw \<mapsto> qos))\<rparr>"
| "durable_apply d (RemoveSubscription c raw) = d\<lparr>du_subs := (du_subs d)(c := (du_subs d c)(raw := None))\<rparr>"
| "durable_apply d (PutInflight c blob) =
     d\<lparr>du_inflight := (du_inflight d)(c := if blob = [] then None else Some blob)\<rparr>"
| "durable_apply d (PutRetained topic payload qos) =
     d\<lparr>du_retained := last_value_write (du_retained d) (topic, payload, qos)\<rparr>"
| "durable_apply d (AppendDeadLetter blob) = d"
| "durable_apply d (AppendEvent blob retention) = d"
| "durable_apply d Flush = d"

primrec op_ok :: "PersistOp \<Rightarrow> bool" where
  "op_ok (PutSession c expiry) = (SEP \<notin> set c)"
| "op_ok (RemoveSession c) = (SEP \<notin> set c)"
| "op_ok (PutSubscription c raw qos) = (SEP \<notin> set c)"
| "op_ok (RemoveSubscription c raw) = (SEP \<notin> set c)"
| "op_ok (PutInflight c blob) = (SEP \<notin> set c)"
| "op_ok (PutRetained topic payload qos) = True"
| "op_ok (AppendDeadLetter blob) = True"
| "op_ok (AppendEvent blob retention) = True"
| "op_ok Flush = True"

lemma byte_qos_as_u8 [simp]: "byte_qos (qos_as_u8 q) = q"
  by (simp add: byte_qos_def)

lemma sep_key_eq:
  assumes "SEP \<notin> set a" "SEP \<notin> set c" shows "a @ SEP # x = c @ SEP # y \<longleftrightarrow> a = c \<and> x = y"
proof
  assume "a @ SEP # x = c @ SEP # y"
  then have "Some (a, x) = Some (c, y)" using assms split_once_append by metis
  then show "a = c \<and> x = y" by simp
qed simp

lemma remove_keys_spec:
  assumes laws: "table_laws tb rows" and total: "table_total tb rows"
  shows "\<exists>t'. remove_keys tb ks t = Some t' \<and> map_of (rows t') = (map_of (rows t)) |` (- set ks)"
proof (induction ks arbitrary: t)
  case (Cons k ks)
  obtain t1 where rm: "tbl_remove tb k t = Some t1" using total_remove [OF total] by blast
  obtain t' where "remove_keys tb ks t1 = Some t'" "map_of (rows t') = (map_of (rows t1)) |` (- set ks)"
    using Cons by blast
  with rm law_remove [OF laws rm] show ?case
    by (auto simp: restrict_map_def fun_eq_iff)
qed (simp add: restrict_map_def)

lemma map_filter_id_those: "those rs = Some xs \<Longrightarrow> List.map_filter id rs = xs"
  by (induction rs arbitrary: xs) (auto simp: map_filter_simps split: option.splits)

lemma remove_session_spec:
  assumes laws: "redb_laws db r" and total: "redb_total db r" and c: "SEP \<notin> set c"
  shows "\<exists>st'. remove_session db st c = Some st' \<and> durable r st' = durable_apply (durable r st) (RemoveSession c) \<and>
    st_events st' = st_events st"
proof -
  have ls: "table_laws (str_table db) (str_rows r)" and lu: "table_laws (u32_table db) (u32_rows r)"
    and ts: "table_total (str_table db) (str_rows r)" and tu: "table_total (u32_table db) (u32_rows r)"
    and commit: "commit db st' = Some st'" for st'
    using laws total by (simp_all add: redb_laws_def redb_total_def commit_def)
  obtain se where se: "tbl_remove (u32_table db) c (st_sessions st) = Some se" using total_remove [OF tu] by blast
  obtain rs xs where it: "tbl_iter (str_table db) (st_subscriptions st) = Some rs" "those rs = Some xs"
    using total_iter [OF ts] by blast
  define keys where "keys = filter (starts_with (c @ [SEP])) (map fst xs)"
  obtain su where su: "remove_keys (str_table db) keys (st_subscriptions st) = Some su"
    and su_map: "map_of (str_rows r su) = (map_of (str_rows r (st_subscriptions st))) |` (- set keys)"
    using remove_keys_spec [OF ls ts] by blast
  obtain inf where inf: "tbl_remove (str_table db) c (st_inflight st) = Some inf" using total_remove [OF ts] by blast
  have xs: "xs = str_rows r (st_subscriptions st)" by (rule law_iter [OF ls it])
  have subs: "map_of (str_rows r su) (a @ SEP # raw) =
      (if a = c then None else map_of (str_rows r (st_subscriptions st)) (a @ SEP # raw))" if "SEP \<notin> set a" for a raw
  proof (cases "map_of (str_rows r (st_subscriptions st)) (a @ SEP # raw)")
    case None
    then show ?thesis by (auto simp: su_map restrict_map_def)
  next
    case (Some v)
    then have "a @ SEP # raw \<in> set (map fst xs)" using xs by (metis map_of_eq_None_iff option.distinct(1) set_map)
    then have "a @ SEP # raw \<in> set keys \<longleftrightarrow> a = c"
      using sep_key_eq [OF that c] by (auto simp: keys_def starts_with_iff)
    then show ?thesis by (simp add: su_map restrict_map_def)
  qed
  show ?thesis
    using se it su inf commit subs c
    by (simp add: remove_session_def map_filter_id_those keys_def durable_def fun_eq_iff
        law_remove [OF lu se] law_remove [OF ls inf])
qed

lemma redb_parts:
  assumes "redb_laws db r" "redb_total db r"
  shows "table_laws (str_table db) (str_rows r)" and "table_laws (u32_table db) (u32_rows r)"
    and "table_laws (seq_table db) (seq_rows r)"
    and "table_total (str_table db) (str_rows r)" and "table_total (u32_table db) (u32_rows r)"
    and "table_total (seq_table db) (seq_rows r)" and "commit db st = Some st"
  using assms by (simp_all add: redb_laws_def redb_total_def commit_def)

lemma put_subscription_spec:
  assumes "redb_laws db r" "redb_total db r" "SEP \<notin> set c"
  shows "\<exists>st'. put_subscription db st c raw qos = Some st' \<and>
    durable r st' = durable_apply (durable r st) (PutSubscription c raw qos) \<and> st_events st' = st_events st"
proof -
  note parts = redb_parts [OF assms(1,2)]
  obtain t where ins: "tbl_insert (str_table db) (c @ [SEP] @ raw) [qos_as_u8 qos] (st_subscriptions st) = Some t"
    using total_insert [OF parts(4)] by blast
  then show ?thesis
    using law_insert [OF parts(1) ins] assms(3) sep_key_eq [OF _ assms(3)]
    by (auto simp: put_subscription_def parts(7) durable_def row_qos_def fun_eq_iff)
qed

lemma remove_subscription_spec:
  assumes "redb_laws db r" "redb_total db r" "SEP \<notin> set c"
  shows "\<exists>st'. remove_subscription db st c raw = Some st' \<and>
    durable r st' = durable_apply (durable r st) (RemoveSubscription c raw) \<and> st_events st' = st_events st"
proof -
  note parts = redb_parts [OF assms(1,2)]
  obtain t where rm: "tbl_remove (str_table db) (c @ [SEP] @ raw) (st_subscriptions st) = Some t"
    using total_remove [OF parts(4)] by blast
  then show ?thesis
    using law_remove [OF parts(1) rm] assms(3) sep_key_eq [OF _ assms(3)]
    by (auto simp: remove_subscription_def parts(7) durable_def fun_eq_iff)
qed

lemma put_inflight_spec:
  assumes "redb_laws db r" "redb_total db r"
  shows "\<exists>st'. put_inflight db st c blob = Some st' \<and>
    durable r st' = durable_apply (durable r st) (PutInflight c blob) \<and> st_events st' = st_events st"
proof -
  note parts = redb_parts [OF assms]
  obtain t t' where rm: "tbl_remove (str_table db) c (st_inflight st) = Some t"
    and ins: "tbl_insert (str_table db) c blob (st_inflight st) = Some t'"
    using total_remove [OF parts(4)] total_insert [OF parts(4)] by blast
  then show ?thesis
    using law_remove [OF parts(1) rm] law_insert [OF parts(1) ins]
    by (cases "blob = []") (simp_all add: put_inflight_def parts(7) durable_def cong: if_cong)
qed

lemma put_retained_spec:
  assumes "redb_laws db r" "redb_total db r"
  shows "\<exists>st'. put_retained db st topic payload qos = Some st' \<and>
    durable r st' = durable_apply (durable r st) (PutRetained topic payload qos) \<and> st_events st' = st_events st"
proof -
  note parts = redb_parts [OF assms]
  obtain t t' where rm: "tbl_remove (str_table db) topic (st_retained st) = Some t"
    and ins: "tbl_insert (str_table db) topic ([qos_as_u8 qos] @ payload) (st_retained st) = Some t'"
    using total_remove [OF parts(4)] total_insert [OF parts(4)] by blast
  then show ?thesis
    using law_remove [OF parts(1) rm] law_insert [OF parts(1) ins]
    by (cases "payload = []")
      (simp_all add: put_retained_def parts(7) durable_def last_value_write_def row_retained_def fun_eq_iff cong: if_cong)
qed

lemma put_session_spec:
  assumes "redb_laws db r" "redb_total db r"
  shows "\<exists>st'. put_session db st c expiry = Some st' \<and>
    durable r st' = durable_apply (durable r st) (PutSession c expiry) \<and> st_events st' = st_events st"
proof -
  note parts = redb_parts [OF assms]
  obtain t where ins: "tbl_insert (u32_table db) c expiry (st_sessions st) = Some t"
    using total_insert [OF parts(5)] by blast
  then show ?thesis
    using law_insert [OF parts(2) ins] by (simp add: put_session_def parts(7) durable_def cong: if_cong)
qed

lemma append_dead_letter_spec:
  assumes "redb_laws db r" "redb_total db r"
  shows "\<exists>t. append_dead_letter db st blob = Some (st\<lparr>st_dead_letters := t\<rparr>)"
proof -
  note parts = redb_parts [OF assms]
  obtain n where last: "tbl_last (seq_table db) (st_dead_letters st) = Some n" using total_last [OF parts(6)] by blast
  obtain t where "tbl_insert (seq_table db) (case n of Some (k, _) \<Rightarrow> k + 1 | None \<Rightarrow> 0) blob (st_dead_letters st) = Some t"
    using total_insert [OF parts(6)] by blast
  with last show ?thesis by (intro exI [of _ t]) (simp add: append_dead_letter_def parts(7))
qed

lemma append_event_total:
  assumes "redb_laws db r" "redb_total db r" and len: "Suc (length (seq_rows r (st_events st))) < 2 ^ 64"
  shows "\<exists>offset t. append_event db st blob retention = Some (Some (offset, st\<lparr>st_events := t\<rparr>)) \<and>
    length (seq_rows r t) \<le> Suc (length (seq_rows r (st_events st)))"
proof -
  note parts = redb_parts [OF assms(1,2)]
  let ?tb = "seq_table db" and ?rows = "seq_rows r"
  obtain n where last: "tbl_last ?tb (st_events st) = Some n" using total_last [OF parts(6)] by blast
  let ?o = "case n of Some (k, _) \<Rightarrow> k + 1 | None \<Rightarrow> 0"
  obtain t where ins: "tbl_insert ?tb ?o blob (st_events st) = Some t" using total_insert [OF parts(6)] by blast
  have len_dom: "length (?rows u) = card (dom (map_of (?rows u)))" for u
    using distinct_card [OF law_distinct [OF parts(3), of u]] by (simp add: dom_map_of_conv_image_fst)
  have "length (?rows t) \<le> Suc (length (?rows (st_events st)))"
    unfolding len_dom law_insert [OF parts(3) ins] by (simp add: card_insert_le_m1 card_insert_if)
  moreover from this len have "length (?rows t) < 2 ^ 64" by linarith
  then obtain t' where "prune_events ?tb retention t = Some (Some t')" "length (?rows t') \<le> length (?rows t)"
    using prune_events_spec [OF parts(3,6), of t retention] by auto
  ultimately show ?thesis
    using last ins
    by (intro exI [of _ ?o] exI [of _ "if 0 < retention then t' else t"])
      (auto simp: append_event_def Let_def parts(7))
qed

section \<open>The worker refines the abstract state\<close>

lemma apply_persist_op_spec:
  assumes laws: "redb_laws db r" "redb_total db r" and ok: "op_ok op"
    and len: "\<And>blob n. op = AppendEvent blob n \<Longrightarrow> Suc (length (seq_rows r (st_events st))) < 2 ^ 64"
  shows "\<exists>st'. apply_persist_op db st op = Some st' \<and> durable r st' = durable_apply (durable r st) op \<and>
    length (seq_rows r (st_events st')) \<le> Suc (length (seq_rows r (st_events st)))"
proof (cases op)
  case (AppendDeadLetter blob)
  with append_dead_letter_spec [OF laws, of st blob] show ?thesis
    by (auto simp: or_keep_def durable_def cong: if_cong)
next
  case (AppendEvent blob retention)
  with append_event_total [OF laws len [OF AppendEvent], of blob retention] show ?thesis
    by (auto simp: or_keep_def durable_def cong: if_cong)
next
  case (PutSession c expiry)
  with put_session_spec [OF laws, of st c expiry] show ?thesis by (auto simp: or_keep_def)
next
  case (RemoveSession c)
  with remove_session_spec [OF laws, of c st] ok show ?thesis by (auto simp: or_keep_def)
next
  case (PutSubscription c raw qos)
  with put_subscription_spec [OF laws, of c st raw qos] ok show ?thesis by (auto simp: or_keep_def)
next
  case (RemoveSubscription c raw)
  with remove_subscription_spec [OF laws, of c st raw] ok show ?thesis by (auto simp: or_keep_def)
next
  case (PutInflight c blob)
  with put_inflight_spec [OF laws, of st c blob] show ?thesis by (auto simp: or_keep_def)
next
  case (PutRetained topic payload qos)
  with put_retained_spec [OF laws, of st topic payload qos] show ?thesis by (auto simp: or_keep_def)
qed simp

text \<open>Without room in the event log the worker may stop, but what it has written is what it was told.\<close>

lemma apply_persist_op_durable:
  assumes laws: "redb_laws db r" "redb_total db r" and ok: "op_ok op" and st': "apply_persist_op db st op = Some st'"
  shows "durable r st' = durable_apply (durable r st) op"
proof (cases "\<exists>blob n. op = AppendEvent blob n")
  case True
  with st' redb_parts(7) [OF laws] show ?thesis
    by (auto simp: append_event_def or_keep_def Let_def durable_def bind_eq_Some_conv cong: if_cong split: option.splits)
next
  case False
  with apply_persist_op_spec [OF laws ok, of st] st' show ?thesis by auto
qed

lemma run_persist_worker_durable:
  assumes "redb_laws db r" "redb_total db r" and "list_all op_ok ops" "run_persist_worker db st ops = Some st'"
  shows "durable r st' = foldl durable_apply (durable r st) ops"
  using assms(3,4)
proof (induction ops arbitrary: st)
  case (Cons op ops)
  then obtain st1 where "apply_persist_op db st op = Some st1" "run_persist_worker db st1 ops = Some st'"
    by (auto simp: bind_eq_Some_conv)
  with Cons apply_persist_op_durable [OF assms(1,2), of op st st1] show ?case by simp
qed simp

lemma run_persist_worker_spec:
  assumes laws: "redb_laws db r" "redb_total db r"
    and "list_all op_ok ops" "length (seq_rows r (st_events st)) + length ops < 2 ^ 64"
  shows "\<exists>st'. run_persist_worker db st ops = Some st' \<and> durable r st' = foldl durable_apply (durable r st) ops"
  using assms(3,4)
proof (induction ops arbitrary: st)
  case (Cons op ops)
  from apply_persist_op_spec [OF laws, of op st] Cons.prems obtain st1 where
    st1: "apply_persist_op db st op = Some st1" "durable r st1 = durable_apply (durable r st) op"
    "length (seq_rows r (st_events st1)) \<le> Suc (length (seq_rows r (st_events st)))" by auto
  with Cons.IH [of st1] Cons.prems show ?case by simp
qed simp


definition sample_ops :: "PersistOp list" where
  "sample_ops = [PutSession ''a'' 60, PutSubscription ''a'' ''t/#'' AtLeastOnce, PutSession ''ab'' 60,
     PutSubscription ''ab'' ''u'' ExactlyOnce, AppendEvent [1] 2, RemoveSession ''a'']"


section \<open>Loading at startup\<close>

definition get_or_nil :: "(string, 'a list) hash_map \<Rightarrow> string \<Rightarrow> 'a list" where
  "get_or_nil m c = (case hm_get m c of Some l \<Rightarrow> l | None \<Rightarrow> [])"

definition client_subs :: "string \<Rightarrow> (string \<times> bytes) list \<Rightarrow> (string \<times> QoS) list" where
  "client_subs c rows = List.map_filter (\<lambda>(key, value).
     case split_once SEP key of
       Some (c', raw) \<Rightarrow> if c' = c then Some (raw, row_qos value) else None
     | None \<Rightarrow> None) rows"

lemma group_row_eq:
  "get_or_nil (group_row m (key, value)) c = get_or_nil m c @ client_subs c [(key, value)]"
  by (auto simp: group_row_def get_or_nil_def client_subs_def row_qos_def byte_qos_def
      update_conv' split: option.split list.split)

lemma foldl_group_row: "get_or_nil (foldl group_row m rows) c = get_or_nil m c @ client_subs c rows"
proof (induction rows arbitrary: m)
  case (Cons row rows)
  obtain key v where "row = (key, v)" by fastforce
  moreover have "client_subs c (row # rows) = client_subs c [row] @ client_subs c rows"
    by (simp add: client_subs_def split: option.split)
  ultimately show ?case using Cons [of "group_row m row"] by (simp add: group_row_eq)
qed (simp add: client_subs_def)

lemma collect_sessions_eq:
  "distinct (map fst rows) \<Longrightarrow> collect_sessions m rows =
     map (\<lambda>(c, e). \<lparr>ps_client_id = c, ps_expiry_secs = e, ps_subscriptions = get_or_nil m c\<rparr>) rows"
proof (induction m rows rule: collect_sessions.induct)
  case (2 m c e rows)
  have "get_or_nil (hm_remove c m) c' = get_or_nil m c'" if "c' \<in> fst ` set rows" for c'
    using that 2(2) by (auto simp: get_or_nil_def delete_conv')
  with 2 show ?case by (fastforce simp: get_or_nil_def)
qed simp

lemma map_of_client_subs:
  assumes "SEP \<notin> set c"
  shows "map_of (client_subs c rows) raw = map_option row_qos (map_of rows (c @ SEP # raw))"
proof (induction rows)
  case (Cons row rows)
  obtain key v where row: "row = (key, v)" by fastforce
  have step: "client_subs c ((key, v) # rows) = (case split_once SEP key of
       Some (c', raw') \<Rightarrow> if c' = c then [(raw', row_qos v)] else []
     | None \<Rightarrow> []) @ client_subs c rows"
    by (simp add: client_subs_def split: option.split)
  show ?case
  proof (cases "split_once SEP key")
    case None
    then have "key \<noteq> c @ SEP # raw" by (auto simp: split_once_None_iff)
    with None Cons row show ?thesis by (simp add: step)
  next
    case (Some p)
    then obtain c' raw' where split: "split_once SEP key = Some (c', raw')" by fastforce
    then have "key = c' @ SEP # raw'" "SEP \<notin> set c'" by (simp_all add: split_once_Some_iff)
    then have "c @ SEP # raw = key \<longleftrightarrow> c' = c \<and> raw = raw'" using sep_key_eq [OF assms] by auto
    then show ?thesis using Cons split by (auto simp: step row)
  qed
qed (simp add: client_subs_def)

lemma load_sessions_spec:
  assumes "redb_laws db r" "redb_total db r"
  shows "load_sessions db st = Some (map (\<lambda>(c, e). \<lparr>ps_client_id = c, ps_expiry_secs = e,
    ps_subscriptions = client_subs c (str_rows r (st_subscriptions st))\<rparr>) (u32_rows r (st_sessions st)))"
proof -
  note parts = redb_parts [OF assms]
  obtain rs xs where subs: "tbl_iter (str_table db) (st_subscriptions st) = Some rs" "those rs = Some xs"
    using total_iter [OF parts(4)] by blast
  obtain us ys where sess: "tbl_iter (u32_table db) (st_sessions st) = Some us" "those us = Some ys"
    using total_iter [OF parts(5)] by blast
  have "xs = str_rows r (st_subscriptions st)" "ys = u32_rows r (st_sessions st)"
    by (rule law_iter [OF parts(1) subs], rule law_iter [OF parts(2) sess])
  with subs sess show ?thesis
    by (simp add: load_sessions_def collect_sessions_eq [OF law_distinct [OF parts(2)]] foldl_group_row get_or_nil_def [of "[]"])
qed

lemma foldl_hm_insert:
  "hm_ok rows \<Longrightarrow> hm_get (foldl (\<lambda>out (key, v). hm_insert key v out) [] rows) = map_of rows"
proof (induction rows rule: rev_induct)
  case (snoc row rows)
  obtain k v where "row = (k, v)" by fastforce
  moreover from this snoc.prems have "map_of rows k = None" by (auto simp: map_of_eq_None_iff)
  ultimately show ?case
    using snoc by (auto simp: update_conv' map_add_def fun_eq_iff split: option.split)
qed simp

lemma load_inflight_spec:
  assumes "redb_laws db r" "redb_total db r"
  shows "\<exists>m. load_inflight db st = Some m \<and> hm_get m = du_inflight (durable r st)"
proof -
  note parts = redb_parts [OF assms]
  obtain rs xs where it: "tbl_iter (str_table db) (st_inflight st) = Some rs" "those rs = Some xs"
    using total_iter [OF parts(4)] by blast
  from law_iter [OF parts(1) it] it show ?thesis
    by (simp add: load_inflight_def durable_def foldl_hm_insert law_distinct [OF parts(1)])
qed

lemma foldl_apply_rows:
  assumes "hm_ok rows"
  shows "retained_look (foldl retained_apply retained_new (List.map_filter (\<lambda>(key, v).
      if v = [] then None
      else Some \<lparr>m_topic = key, m_payload = tl v,
                 m_qos = (case qos_from_u8 (hd v) of Some q \<Rightarrow> q | None \<Rightarrow> AtMostOnce),
                 m_retain = True\<rparr>) rows)) t = Option.bind (map_of rows t) row_retained"
  using assms
proof (induction rows rule: rev_induct)
  case Nil
  then show ?case by (simp add: retained_look_def retained_new_def)
next
  case (snoc row rows)
  obtain k v where row: "row = (k, v)" by fastforce
  with snoc.prems have none: "map_of rows k = None" by (auto simp: map_of_eq_None_iff)
  have append: "List.map_filter f (xs @ ys) = List.map_filter f xs @ List.map_filter f ys" for f and xs ys :: "'a list"
    by (simp add: List.map_filter_def)
  show ?case
    using snoc row none
    by (cases v) (auto simp: append retained_look_def retained_get_apply row_retained_def byte_qos_def
      map_add_def split: option.splits)
qed

lemma load_retained_spec:
  assumes "redb_laws db r" "redb_total db r"
  shows "\<exists>msgs. load_retained db st = Some msgs \<and>
    retained_look (foldl retained_apply retained_new msgs) = du_retained (durable r st)"
proof -
  note parts = redb_parts [OF assms]
  obtain rs xs where it: "tbl_iter (str_table db) (st_retained st) = Some rs" "those rs = Some xs"
    using total_iter [OF parts(4)] by blast
  from law_iter [OF parts(1) it] it show ?thesis
    by (simp add: load_retained_def durable_def foldl_apply_rows [OF law_distinct [OF parts(1)]] fun_eq_iff)
qed

text \<open>
  Startup reads back exactly the durable state: the loaded sessions are those marked durable,
  each once and with its expiry, each with exactly its own subscriptions at their granted QoS;
  the loaded in-flight blobs and the retained store rebuilt from the loaded messages agree with
  it as well.
\<close>

lemma startup_reads_durable:
  assumes "redb_laws db r" and "redb_total db r"
  shows "\<exists>sessions blobs msgs. load_sessions db st = Some sessions \<and>
      distinct (map ps_client_id sessions) \<and>
      map_of (map (\<lambda>ps. (ps_client_id ps, ps_expiry_secs ps)) sessions) = du_sessions (durable r st) \<and>
      list_all (\<lambda>ps. SEP \<in> set (ps_client_id ps) \<or>
        map_of (ps_subscriptions ps) = du_subs (durable r st) (ps_client_id ps)) sessions \<and>
    load_inflight db st = Some blobs \<and> hm_get blobs = du_inflight (durable r st) \<and>
    load_retained db st = Some msgs \<and>
    retained_look (foldl retained_apply retained_new msgs) = du_retained (durable r st)"
proof -
  note parts = redb_parts [OF assms]
  obtain blobs msgs where "load_inflight db st = Some blobs" "hm_get blobs = du_inflight (durable r st)"
    "load_retained db st = Some msgs"
    "retained_look (foldl retained_apply retained_new msgs) = du_retained (durable r st)"
    using load_inflight_spec [OF assms, of st] load_retained_spec [OF assms, of st] by blast
  moreover have "distinct (map fst (u32_rows r (st_sessions st)))" by (rule law_distinct [OF parts(2)])
  ultimately show ?thesis
    by (simp add: load_sessions_spec [OF assms] comp_def case_prod_beta durable_def list_all_iff
        map_of_client_subs fun_eq_iff cong: if_cong)
qed

definition sample_storage :: list_storage where
  "sample_storage = empty_storage\<lparr>st_sessions := [(''a'', 60)],
     st_subscriptions := [(''a'' @ SEP # ''t/#'', [1])], st_retained := [(''t'', [2, 9])]\<rparr>"

section \<open>The disk copy of the retained store\<close>

type_synonym ('s, 'u, 'e) disk = "('s, 'u, 'e) Redb \<times> ('s, 'u, 'e) Rows \<times> ('s, 'u, 'e) Storage"

definition disk_look :: "('s, 'u, 'e) disk \<Rightarrow> string \<Rightarrow> (QoS \<times> bytes) option" where
  "disk_look d = (case d of (db, r, st) \<Rightarrow> du_retained (durable r st))"

definition disk_put :: "('s, 'u, 'e) disk \<Rightarrow> retained_write \<Rightarrow> ('s, 'u, 'e) disk" where
  "disk_put d w = (case d of (db, r, st) \<Rightarrow> (case w of (t, p, q) \<Rightarrow>
     (db, r, or_keep st (put_retained db st t p q))))"

definition disk_ok :: "('s, 'u, 'e) disk \<Rightarrow> bool" where
  "disk_ok d = (case d of (db, r, st) \<Rightarrow> redb_laws db r \<and> redb_total db r)"

interpretation disk_store: last_value_store disk_look disk_put disk_ok
proof
  fix d :: "('s, 'u, 'e) disk" and w :: retained_write
  obtain db r st t p q where [simp]: "d = (db, r, st)" "w = (t, p, q)" by (metis prod_cases3)
  assume "disk_ok d"
  then have "redb_laws db r" "redb_total db r" by (simp_all add: disk_ok_def)
  from put_retained_spec [OF this, of st t p q] show "disk_look (disk_put d w) = last_value_write (disk_look d) w"
    by (auto simp: disk_look_def disk_put_def or_keep_def)
  from \<open>disk_ok d\<close> show "disk_ok (disk_put d w)" by (simp add: disk_ok_def disk_put_def)
qed

interpretation retained_mirror: mirrored_stores retained_look retained_put retained_ok disk_look disk_put disk_ok ..

definition put_retained_op :: "retained_write \<Rightarrow> PersistOp" where
  "put_retained_op w = (case w of (t, p, q) \<Rightarrow> PutRetained t p q)"

lemma run_worker_puts:
  "run_persist_worker db st (map put_retained_op ws) = Some (snd (snd (foldl disk_put (db, r, st) ws)))"
proof (induction ws arbitrary: st)
  case (Cons w ws)
  obtain t p q where "w = (t, p, q)" by (metis prod_cases3)
  with Cons show ?case by (simp add: put_retained_op_def disk_put_def)
qed simp

text \<open>
  Retained messages survive a restart: after any sequence of retained publishes, applied to
  the in-memory store and queued for the worker, the store a restarted broker builds from the disk
  holds for every topic the value the running broker has.
\<close>

lemma retained_survives_restart:
  assumes laws: "redb_laws db r" "redb_total db r" and empty: "du_retained (durable r st) = Map.empty"
  shows "\<exists>st' msgs. run_persist_worker db st (map put_retained_op ws) = Some st' \<and>
    load_retained db st' = Some msgs \<and>
    retained_look (foldl retained_apply retained_new msgs) = retained_look (foldl retained_put retained_new ws)"
proof -
  define d where "d = foldl disk_put (db, r, st) ws"
  have "retained_look (foldl retained_put retained_new ws) = disk_look d"
    unfolding d_def
  proof (rule retained_mirror.mirrored)
    show "retained_look retained_new = disk_look (db, r, st)"
      by (simp add: retained_look_def retained_new_def disk_look_def empty fun_eq_iff)
  qed (use laws in \<open>simp_all add: disk_ok_def\<close>)
  moreover have "fst d = db \<and> fst (snd d) = r"
    unfolding d_def by (induction ws rule: rev_induct) (auto simp: disk_put_def split: prod.split)
  ultimately show ?thesis
    using load_retained_spec [OF laws, of "snd (snd d)"] run_worker_puts [of db st ws r]
    by (metis (no_types, lifting) case_prod_conv d_def disk_look_def prod.collapse)
qed

end
