(* ===== verification/Hub.thy ===== *)
theory Hub
  imports Router Session Durable
begin

text \<open>
  The shared broker state of \<open>hub.rs\<close>: the session table over the router, the retained store and
  the queue of the persistence worker, with every operation of \<open>Hub\<close>.

  Each operation is a function on the hub state. \<open>None\<close> is a panic (an \<open>expect\<close> of the source).
  The clock readings \<open>Instant::now\<close> (\<open>now\<close>) and \<open>SystemTime::now\<close> (\<open>ts\<close>) are arguments. The
  packets put into delivery channels are appended to \<open>h_outbox\<close>, the purge timers an operation
  spawns to \<open>h_timers\<close>. \<open>h_storage\<close> is the content of the database, shared with the persistence
  worker, \<open>h_persist\<close> the writes queued for that worker and not yet applied.
\<close>

section \<open>State\<close>

definition NO_EXPIRY :: u32 where
  "NO_EXPIRY = - 1"

record SessionTable =
  by_id :: "(ClientId, Session) hash_map"
  id_of :: "(string, ClientId) hash_map"
  generation :: u64

record ('s, 'u, 'e) Hub =
  h_next_id :: u64
  h_router :: Router
  h_retained :: RetainedStore
  h_sessions :: SessionTable
  h_storage :: "('s, 'u, 'e) Storage option"
  h_persist :: "PersistOp list option"
  h_retry :: RetryConfig
  h_event_log_max :: u64
  h_outbox :: sends
  h_timers :: "(ClientId \<times> u64 \<times> Duration) list"

record Connected =
  cn_id :: ClientId
  cn_generation :: u64
  cn_session_present :: bool

record Stats =
  clients_online :: nat
  clients_total :: nat
  st_subscription_count :: nat
  st_retained_count :: nat
  dead_letters :: u64
  events :: u64
  st_next_offset :: u64

section \<open>Persistence helpers\<close>

definition enqueue :: "('s, 'u, 'e) Hub \<Rightarrow> PersistOp \<Rightarrow> ('s, 'u, 'e) Hub" where
  "enqueue h op = h\<lparr>h_persist := map_option (\<lambda>q. q @ [op]) (h_persist h)\<rparr>"

definition hub_flush :: "('s, 'u, 'e) Hub \<Rightarrow> ('s, 'u, 'e) Hub" where
  "hub_flush h = h\<lparr>h_persist := map_option (\<lambda>q. q @ [Flush]) (h_persist h)\<rparr>"

definition persist_meta :: "('s, 'u, 'e) Hub \<Rightarrow> string \<Rightarrow> u32 \<Rightarrow> ('s, 'u, 'e) Hub" where
  "persist_meta h client_id expiry_secs =
     (if 0 < expiry_secs then enqueue h (PutSession client_id expiry_secs)
      else enqueue h (RemoveSession client_id))"

definition snapshot_inflight :: "('s, 'u, 'e) Hub \<Rightarrow> Session \<Rightarrow> (string \<times> bytes) option" where
  "snapshot_inflight h session =
     (if h_storage h \<noteq> None \<and> 0 < s_expiry_secs session
      then Some (s_client_id session, encode_inflight session) else None)"

definition write_inflight :: "('s, 'u, 'e) Hub \<Rightarrow> string \<times> bytes \<Rightarrow> ('s, 'u, 'e) Hub" where
  "write_inflight h snapshot = enqueue h (PutInflight (fst snapshot) (snd snapshot))"

text \<open>\<open>if let Some((client_id, blob)) = snapshot { self.write_inflight(client_id, blob) }\<close>\<close>

definition write_snapshot :: "('s, 'u, 'e) Hub \<Rightarrow> (string \<times> bytes) option \<Rightarrow> ('s, 'u, 'e) Hub" where
  "write_snapshot h snapshot = (case snapshot of Some s \<Rightarrow> write_inflight h s | None \<Rightarrow> h)"

definition forget_persisted :: "('s, 'u, 'e) Hub \<Rightarrow> string \<Rightarrow> ('s, 'u, 'e) Hub" where
  "forget_persisted h client_id = enqueue h (RemoveSession client_id)"

text \<open>The client identifier of a durable session.\<close>

definition durable_client :: "('s, 'u, 'e) Hub \<Rightarrow> ClientId \<Rightarrow> string option" where
  "durable_client h cid = (case hm_get (by_id (h_sessions h)) cid of
     Some s \<Rightarrow> if 0 < s_expiry_secs s then Some (s_client_id s) else None
   | None \<Rightarrow> None)"

definition persist_subscription :: "('s, 'u, 'e) Hub \<Rightarrow> ClientId \<Rightarrow> string \<Rightarrow> QoS \<Rightarrow> ('s, 'u, 'e) Hub" where
  "persist_subscription h cid raw qos =
     (if h_persist h = None then h
      else case durable_client h cid of
        Some client_id \<Rightarrow> enqueue h (PutSubscription client_id raw qos)
      | None \<Rightarrow> h)"

text \<open>Writing a session back through \<open>get_mut\<close>, with the packets it sent.\<close>

definition put_session_at :: "('s, 'u, 'e) Hub \<Rightarrow> ClientId \<Rightarrow> Session \<times> sends \<Rightarrow> ('s, 'u, 'e) Hub" where
  "put_session_at h cid so =
     h\<lparr>h_sessions := (h_sessions h)\<lparr>by_id := hm_insert cid (fst so) (by_id (h_sessions h))\<rparr>,
       h_outbox := h_outbox h @ snd so\<rparr>"

section \<open>Connecting\<close>

definition connect ::
    "('s, 'u, 'e) Hub \<Rightarrow> string \<Rightarrow> bool \<Rightarrow> u32 \<Rightarrow> chan \<Rightarrow> Instant \<Rightarrow> (Connected \<times> ('s, 'u, 'e) Hub) option" where
  "connect h client_id clean_start expiry_secs tx now =
     (let h = h\<lparr>h_sessions := (h_sessions h)\<lparr>generation := generation (h_sessions h) + 1\<rparr>\<rparr>;
          gen = generation (h_sessions h)
      in case hm_get (id_of (h_sessions h)) client_id of
        Some cid \<Rightarrow>
          if clean_start then
            let h = h\<lparr>h_sessions := (h_sessions h)\<lparr>by_id := hm_remove cid (by_id (h_sessions h))\<rparr>\<rparr>;
                h = h\<lparr>h_router := remove_client (h_router h) cid\<rparr>;
                h = forget_persisted h client_id;
                new_id = h_next_id h;
                h = h\<lparr>h_next_id := h_next_id h + 1\<rparr>;
                h = h\<lparr>h_sessions := (h_sessions h)\<lparr>id_of := hm_insert client_id new_id (id_of (h_sessions h))\<rparr>\<rparr>;
                h = h\<lparr>h_sessions := (h_sessions h)\<lparr>by_id :=
                       hm_insert new_id (session_new client_id (Some tx) expiry_secs gen) (by_id (h_sessions h))\<rparr>\<rparr>;
                h = persist_meta h client_id expiry_secs
            in Some (\<lparr>cn_id = new_id, cn_generation = gen, cn_session_present = False\<rparr>, h)
          else
            (case hm_get (by_id (h_sessions h)) cid of
               None \<Rightarrow> None
             | Some session \<Rightarrow>
                 let h = put_session_at h cid (session_attach session tx expiry_secs gen now (h_retry h));
                     h = persist_meta h client_id expiry_secs
                 in Some (\<lparr>cn_id = cid, cn_generation = gen, cn_session_present = True\<rparr>, h))
      | None \<Rightarrow>
          let cid = h_next_id h;
              h = h\<lparr>h_next_id := h_next_id h + 1\<rparr>;
              h = h\<lparr>h_sessions := (h_sessions h)\<lparr>id_of := hm_insert client_id cid (id_of (h_sessions h))\<rparr>\<rparr>;
              h = h\<lparr>h_sessions := (h_sessions h)\<lparr>by_id :=
                     hm_insert cid (session_new client_id (Some tx) expiry_secs gen) (by_id (h_sessions h))\<rparr>\<rparr>;
              h = persist_meta h client_id expiry_secs
          in Some (\<lparr>cn_id = cid, cn_generation = gen, cn_session_present = False\<rparr>, h))"

section \<open>Publishing\<close>

text \<open>The loop of \<open>publish\<close> over the resolved targets.\<close>

fun deliver_targets ::
    "('s, 'u, 'e) Hub \<Rightarrow> string \<Rightarrow> bytes \<Rightarrow> QoS \<Rightarrow> Instant \<Rightarrow> (ClientId \<times> QoS) list
     \<Rightarrow> (('s, 'u, 'e) Hub \<times> (string \<times> bytes) list \<times> nat) option" where
  "deliver_targets h topic payload msg_qos now [] = Some (h, [], 0)"
| "deliver_targets h topic payload msg_qos now ((cid, granted) # targets) =
     (case hm_get (by_id (h_sessions h)) cid of
        None \<Rightarrow> deliver_targets h topic payload msg_qos now targets
      | Some session \<Rightarrow>
          let effective = min msg_qos granted in
          (case deliver session topic payload effective False now (h_retry h) of
             None \<Rightarrow> None
           | Some so \<Rightarrow>
               let h = put_session_at h cid so;
                   snapshot = (if effective \<noteq> AtMostOnce then snapshot_inflight h (fst so) else None)
               in do {
                 (h, to_persist, delivered) \<leftarrow> deliver_targets h topic payload msg_qos now targets;
                 Some (h, (case snapshot of Some s \<Rightarrow> [s] | None \<Rightarrow> []) @ to_persist, delivered + 1) }))"

definition publish ::
    "('s, 'u, 'e) Hub \<Rightarrow> string \<Rightarrow> bytes \<Rightarrow> QoS \<Rightarrow> bool \<Rightarrow> Instant \<Rightarrow> u64 \<Rightarrow> (nat \<times> ('s, 'u, 'e) Hub) option" where
  "publish h topic payload msg_qos retain now ts =
     (let h = (if retain then
                 enqueue (h\<lparr>h_retained := retained_apply (h_retained h)
                     \<lparr>m_topic = topic, m_payload = payload, m_qos = msg_qos, m_retain = True\<rparr>\<rparr>)
                   (PutRetained topic payload msg_qos)
               else h);
          h = (if 0 < h_event_log_max h \<and> \<not> starts_with ''$'' topic then
                 enqueue h (AppendEvent (encode_event ts topic (qos_as_u8 msg_qos) payload) (h_event_log_max h))
               else h);
          (targets, router) = route (h_router h) topic;
          h = h\<lparr>h_router := router\<rparr>
      in if targets = [] then Some (0, h)
         else do {
           (h, to_persist, delivered) \<leftarrow> deliver_targets h topic payload msg_qos now targets;
           Some (delivered, foldl write_inflight h to_persist) })"

section \<open>Dead letters, detaching, expiry and retries\<close>

definition dlq_topic :: "string \<Rightarrow> string \<Rightarrow> string" where
  "dlq_topic client_id topic = ''$dlq/'' @ client_id @ ''/'' @ topic"

definition dead_letter ::
    "('s, 'u, 'e) Hub \<Rightarrow> string \<Rightarrow> DeadMsg \<Rightarrow> string \<Rightarrow> Instant \<Rightarrow> u64 \<Rightarrow> ('s, 'u, 'e) Hub option" where
  "dead_letter h client_id msg reason now ts =
     (let original_topic = p_topic (d_publish msg) in
      if is_dlq_topic original_topic then Some h
      else
        let qos = to_core_qos (p_qos (d_publish msg));
            h = (if h_persist h \<noteq> None then
                   enqueue h (AppendDeadLetter (encode_dead_letter ts client_id original_topic reason
                     (d_attempts msg) (qos_as_u8 qos) (p_payload (d_publish msg))))
                 else h)
        in map_option snd
             (publish h (dlq_topic client_id original_topic) (p_payload (d_publish msg)) qos False now ts))"

fun dead_letter_all ::
    "('s, 'u, 'e) Hub \<Rightarrow> (string \<times> DeadMsg) list \<Rightarrow> string \<Rightarrow> Instant \<Rightarrow> u64 \<Rightarrow> ('s, 'u, 'e) Hub option" where
  "dead_letter_all h [] reason now ts = Some h"
| "dead_letter_all h ((client_id, msg) # dead) reason now ts = do {
     h \<leftarrow> dead_letter h client_id msg reason now ts;
     dead_letter_all h dead reason now ts }"

definition discard :: "('s, 'u, 'e) Hub \<Rightarrow> ClientId \<Rightarrow> ('s, 'u, 'e) Hub" where
  "discard h cid =
     (let client_id = map_option s_client_id (hm_get (by_id (h_sessions h)) cid);
          h = h\<lparr>h_sessions := (h_sessions h)\<lparr>by_id := hm_remove cid (by_id (h_sessions h))\<rparr>\<rparr>;
          h = h\<lparr>h_sessions := (h_sessions h)\<lparr>id_of := filter (\<lambda>(_, v). v \<noteq> cid) (id_of (h_sessions h))\<rparr>\<rparr>;
          h = h\<lparr>h_router := remove_client (h_router h) cid\<rparr>
      in case client_id of Some client_id \<Rightarrow> enqueue h (RemoveSession client_id) | None \<Rightarrow> h)"

definition detach :: "('s, 'u, 'e) Hub \<Rightarrow> ClientId \<Rightarrow> u64 \<Rightarrow> ('s, 'u, 'e) Hub" where
  "detach h cid gen =
     (case hm_get (by_id (h_sessions h)) cid of
        None \<Rightarrow> h
      | Some s \<Rightarrow>
          if s_generation s \<noteq> gen then h
          else
            let h = put_session_at h cid (session_detach s, []);
                expiry = s_expiry_secs s
            in if expiry = 0 then discard h cid
               else if expiry \<noteq> NO_EXPIRY then h\<lparr>h_timers := h_timers h @ [(cid, gen, from_secs (unat expiry))]\<rparr>
               else h)"

definition purge_if_idle ::
    "('s, 'u, 'e) Hub \<Rightarrow> ClientId \<Rightarrow> u64 \<Rightarrow> Instant \<Rightarrow> u64 \<Rightarrow> ('s, 'u, 'e) Hub option" where
  "purge_if_idle h cid gen now ts =
     (case hm_get (by_id (h_sessions h)) cid of
        None \<Rightarrow> Some h
      | Some s \<Rightarrow>
          if \<not> (s_generation s = gen \<and> s_tx s = None) then Some h
          else
            let (dead, s') = drain_undelivered s;
                h = put_session_at h cid (s', []);
                h = discard h cid
            in dead_letter_all h (map (Pair (s_client_id s)) dead) ''session_expired'' now ts)"

text \<open>The loop of \<open>run_retries\<close> over \<open>by_id.values_mut()\<close>.\<close>

fun retries_loop ::
    "('s, 'u, 'e) Hub \<Rightarrow> Instant \<Rightarrow> (ClientId, Session) hash_map
     \<Rightarrow> (ClientId, Session) hash_map \<times> (string \<times> DeadMsg) list \<times> (string \<times> bytes) list \<times> sends" where
  "retries_loop h now [] = ([], [], [], [])"
| "retries_loop h now ((cid, s) # rest) =
     (let (rest, dead, to_persist, out) = retries_loop h now rest in
      if s_tx s = None then ((cid, s) # rest, dead, to_persist, out)
      else
        let ((dead_msgs, changed), s', sent) = tick_retries s now (h_retry h);
            snapshot = (if changed then snapshot_inflight h s' else None)
        in ((cid, s') # rest, map (Pair (s_client_id s')) dead_msgs @ dead,
            (case snapshot of Some b \<Rightarrow> [b] | None \<Rightarrow> []) @ to_persist, sent @ out))"

definition run_retries :: "('s, 'u, 'e) Hub \<Rightarrow> Instant \<Rightarrow> u64 \<Rightarrow> ('s, 'u, 'e) Hub option" where
  "run_retries h now ts =
     (let (table, dead, to_persist, out) = retries_loop h now (by_id (h_sessions h));
          h = h\<lparr>h_sessions := (h_sessions h)\<lparr>by_id := table\<rparr>, h_outbox := h_outbox h @ out\<rparr>;
          h = foldl write_inflight h to_persist
      in dead_letter_all h dead ''max_delivery_attempts_exceeded'' now ts)"

section \<open>Subscriptions\<close>

definition hub_subscribe ::
    "('s, 'u, 'e) Hub \<Rightarrow> ClientId \<Rightarrow> TopicFilter \<Rightarrow> QoS \<Rightarrow> string \<Rightarrow> ('s, 'u, 'e) Hub" where
  "hub_subscribe h cid flt qos raw =
     persist_subscription (h\<lparr>h_router := subscribe (h_router h) cid flt qos\<rparr>) cid raw qos"

definition hub_subscribe_shared ::
    "('s, 'u, 'e) Hub \<Rightarrow> string \<Rightarrow> ClientId \<Rightarrow> TopicFilter \<Rightarrow> QoS \<Rightarrow> string \<Rightarrow> ('s, 'u, 'e) Hub" where
  "hub_subscribe_shared h grp cid flt qos raw =
     persist_subscription (h\<lparr>h_router := subscribe_shared (h_router h) grp cid flt qos\<rparr>) cid raw qos"

definition hub_unsubscribe :: "('s, 'u, 'e) Hub \<Rightarrow> ClientId \<Rightarrow> string \<Rightarrow> bool \<times> ('s, 'u, 'e) Hub" where
  "hub_unsubscribe h cid raw =
     (let (removed, router) =
            (case shared_parse raw of
               Some sh \<Rightarrow> unsubscribe_shared (h_router h) (ss_group sh) cid (as_str (ss_filter sh))
             | None \<Rightarrow> unsubscribe (h_router h) cid raw);
          h = h\<lparr>h_router := router\<rparr>;
          h = (if h_persist h \<noteq> None then
                 (case durable_client h cid of
                    Some client_id \<Rightarrow> enqueue h (RemoveSubscription client_id raw)
                  | None \<Rightarrow> h)
               else h)
      in (removed, h))"

text \<open>The loop of \<open>deliver_retained\<close>; the flag is \<open>any_qos_gt0\<close>.\<close>

fun retained_loop ::
    "Session \<Rightarrow> Message list \<Rightarrow> QoS \<Rightarrow> Instant \<Rightarrow> RetryConfig \<Rightarrow> (Session \<times> sends \<times> bool) option" where
  "retained_loop s [] granted now cfg = Some (s, [], False)"
| "retained_loop s (msg # msgs) granted now cfg =
     (let effective = min (m_qos msg) granted in do {
        (s, out) \<leftarrow> deliver s (m_topic msg) (m_payload msg) effective True now cfg;
        (s, out', any_qos_gt0) \<leftarrow> retained_loop s msgs granted now cfg;
        Some (s, out @ out', effective \<noteq> AtMostOnce \<or> any_qos_gt0) })"

definition deliver_retained ::
    "('s, 'u, 'e) Hub \<Rightarrow> ClientId \<Rightarrow> TopicFilter \<Rightarrow> QoS \<Rightarrow> Instant \<Rightarrow> ('s, 'u, 'e) Hub option" where
  "deliver_retained h cid flt granted now =
     (let retained = retained_matching (h_retained h) flt in
      if retained = [] then Some h
      else case hm_get (by_id (h_sessions h)) cid of
        None \<Rightarrow> Some h
      | Some session \<Rightarrow> do {
          (s, out, any_qos_gt0) \<leftarrow> retained_loop session retained granted now (h_retry h);
          let h = put_session_at h cid (s, out);
          Some (write_snapshot h (if any_qos_gt0 then snapshot_inflight h s else None)) })"

section \<open>Replay\<close>

definition replay_publish :: "u64 \<Rightarrow> string \<Rightarrow> bytes \<Rightarrow> Publish" where
  "replay_publish offset topic payload =
     \<lparr>p_dup = False, p_retain = False, p_qos = WireAtMostOnce, p_topic = topic, p_packet_id = None,
      p_payload = payload, p_user_properties = [(''x-replay-offset'', dec_string (unat offset))]\<rparr>"

fun replay_loop :: "Session \<Rightarrow> TopicFilter \<Rightarrow> (u64 \<times> bytes) list \<Rightarrow> nat \<times> sends" where
  "replay_loop s flt [] = (0, [])"
| "replay_loop s flt ((offset, blob) # evs) =
     (case decode_event blob of
        None \<Rightarrow> replay_loop s flt evs
      | Some (topic, payload, _) \<Rightarrow>
          if \<not> topic_filter_matches flt topic then replay_loop s flt evs
          else
            let sent = send s (PktPublish (replay_publish offset topic payload));
                (replayed, out) = replay_loop s flt evs
            in (replayed + 1, sent @ out))"

definition replay ::
    "('s, 'u, 'e) Redb \<Rightarrow> ('s, 'u, 'e) Hub \<Rightarrow> ClientId \<Rightarrow> u64 \<Rightarrow> TopicFilter \<Rightarrow> nat \<times> ('s, 'u, 'e) Hub" where
  "replay db h cid from flt =
     (case h_storage h of
        None \<Rightarrow> (0, h)
      | Some storage \<Rightarrow>
          (case load_events db storage from of
             None \<Rightarrow> (0, h)
           | Some evs \<Rightarrow>
               (case hm_get (by_id (h_sessions h)) cid of
                  None \<Rightarrow> (0, h)
                | Some session \<Rightarrow>
                    let (replayed, out) = replay_loop session flt evs
                    in (replayed, h\<lparr>h_outbox := h_outbox h @ out\<rparr>))))"

section \<open>Acknowledgements\<close>

text \<open>
  The part of an acknowledgement under the sessions lock, which yields the snapshot that is
  queued after the lock is released.
\<close>

definition locked_ack ::
    "('s, 'u, 'e) Hub \<Rightarrow> ClientId \<Rightarrow> (Session \<Rightarrow> Session \<times> sends) \<Rightarrow> ('s, 'u, 'e) Hub \<times> (string \<times> bytes) option" where
  "locked_ack h cid f =
     (case hm_get (by_id (h_sessions h)) cid of
        None \<Rightarrow> (h, None)
      | Some s \<Rightarrow> let so = f s; h = put_session_at h cid so in (h, snapshot_inflight h (fst so)))"

definition on_puback :: "('s, 'u, 'e) Hub \<Rightarrow> ClientId \<Rightarrow> u16 \<Rightarrow> ('s, 'u, 'e) Hub" where
  "on_puback h cid pid =
     (let (h, snapshot) = locked_ack h cid (\<lambda>s. (session_on_puback s pid, [])) in write_snapshot h snapshot)"

definition on_pubrec :: "('s, 'u, 'e) Hub \<Rightarrow> ClientId \<Rightarrow> u16 \<Rightarrow> ('s, 'u, 'e) Hub" where
  "on_pubrec h cid pid =
     (let (h, snapshot) = locked_ack h cid (\<lambda>s. session_on_pubrec s pid) in write_snapshot h snapshot)"

definition on_pubcomp :: "('s, 'u, 'e) Hub \<Rightarrow> ClientId \<Rightarrow> u16 \<Rightarrow> ('s, 'u, 'e) Hub" where
  "on_pubcomp h cid pid =
     (let (h, snapshot) = locked_ack h cid (\<lambda>s. (session_on_pubcomp s pid, [])) in write_snapshot h snapshot)"

definition inbound_qos2_seen :: "('s, 'u, 'e) Hub \<Rightarrow> ClientId \<Rightarrow> u16 \<Rightarrow> bool \<times> ('s, 'u, 'e) Hub" where
  "inbound_qos2_seen h cid pid =
     (case hm_get (by_id (h_sessions h)) cid of
        Some s \<Rightarrow> let (first, s) = qos2_seen s pid in (first, put_session_at h cid (s, []))
      | None \<Rightarrow> (True, h))"

definition inbound_qos2_release :: "('s, 'u, 'e) Hub \<Rightarrow> ClientId \<Rightarrow> u16 \<Rightarrow> ('s, 'u, 'e) Hub" where
  "inbound_qos2_release h cid pid =
     (case hm_get (by_id (h_sessions h)) cid of
        Some s \<Rightarrow> put_session_at h cid (qos2_release s pid, [])
      | None \<Rightarrow> h)"

section \<open>Monitoring\<close>

definition stats :: "('s, 'u, 'e) Redb \<Rightarrow> ('s, 'u, 'e) Hub \<Rightarrow> Stats" where
  "stats db h =
     (let online = length (filter (\<lambda>(_, s). s_tx s \<noteq> None) (by_id (h_sessions h)));
          or_zero = (\<lambda>r. case r of Some n \<Rightarrow> n | None \<Rightarrow> 0);
          (dl, ev, nx) = (case h_storage h of
             Some s \<Rightarrow> (or_zero (dead_letter_count db s), or_zero (event_count db s), or_zero (next_offset db s))
           | None \<Rightarrow> (0, 0, 0))
      in \<lparr>clients_online = online, clients_total = length (by_id (h_sessions h)),
          st_subscription_count = subscription_count (h_router h),
          st_retained_count = retained_len (h_retained h),
          dead_letters = dl, events = ev, st_next_offset = nx\<rparr>)"

section \<open>Startup\<close>

record Loaded =
  l_router :: Router
  l_table :: SessionTable
  l_next_raw :: u64
  l_to_expire :: "(ClientId \<times> u32) list"

definition restore_subscription :: "ClientId \<Rightarrow> Router \<Rightarrow> string \<times> QoS \<Rightarrow> Router" where
  "restore_subscription cid router sub = (case sub of (raw, qos) \<Rightarrow>
     (case shared_parse raw of
        Some sh \<Rightarrow> subscribe_shared router (ss_group sh) cid (ss_filter sh) qos
      | None \<Rightarrow>
          (case topic_filter_parse raw of
             Some tf \<Rightarrow> subscribe router cid tf qos
           | None \<Rightarrow> router)))"

definition restore_queue ::
    "(string, bytes) hash_map \<Rightarrow> Instant \<Rightarrow> RetryConfig \<Rightarrow> string \<Rightarrow> Session \<Rightarrow> Session" where
  "restore_queue inflight now retry client_id s =
     (case Option.bind (hm_get inflight client_id) (\<lambda>b. decode_inflight b now retry) of
        Some (next_id, queue) \<Rightarrow> s\<lparr>s_next_id := next_id, s_inflight := queue\<rparr>
      | None \<Rightarrow> s)"

definition restore_session ::
    "(string, bytes) hash_map \<Rightarrow> Instant \<Rightarrow> RetryConfig \<Rightarrow> Loaded \<Rightarrow> PersistedSession \<Rightarrow> Loaded" where
  "restore_session inflight now retry l ps =
     (let cid = l_next_raw l;
          l = l\<lparr>l_next_raw := l_next_raw l + 1\<rparr>;
          l = l\<lparr>l_router := foldl (restore_subscription cid) (l_router l) (ps_subscriptions ps)\<rparr>;
          session = restore_queue inflight now retry (ps_client_id ps)
                      (session_new (ps_client_id ps) None (ps_expiry_secs ps) 0);
          l = l\<lparr>l_table := (l_table l)\<lparr>id_of := hm_insert (ps_client_id ps) cid (id_of (l_table l))\<rparr>\<rparr>;
          l = l\<lparr>l_table := (l_table l)\<lparr>by_id := hm_insert cid session (by_id (l_table l))\<rparr>\<rparr>
      in if ps_expiry_secs ps \<noteq> NO_EXPIRY
         then l\<lparr>l_to_expire := l_to_expire l @ [(cid, ps_expiry_secs ps)]\<rparr> else l)"

definition loaded_empty :: Loaded where
  "loaded_empty = \<lparr>l_router = router_new, l_table = \<lparr>by_id = [], id_of = [], generation = 0\<rparr>,
     l_next_raw = 1, l_to_expire = []\<rparr>"

definition hub_new ::
    "('s, 'u, 'e) Redb \<Rightarrow> ('s, 'u, 'e) Storage option \<Rightarrow> RetryConfig \<Rightarrow> u64 \<Rightarrow> Instant \<Rightarrow> ('s, 'u, 'e) Hub" where
  "hub_new db storage retry event_log_max now =
     (let retained = (case storage of
            None \<Rightarrow> retained_new
          | Some s \<Rightarrow> (case load_retained db s of
                Some messages \<Rightarrow> foldl retained_apply retained_new messages
              | None \<Rightarrow> retained_new));
          inflight = (case storage of
            None \<Rightarrow> []
          | Some s \<Rightarrow> (case load_inflight db s of Some m \<Rightarrow> m | None \<Rightarrow> []));
          loaded = (case storage of
            None \<Rightarrow> loaded_empty
          | Some s \<Rightarrow> (case load_sessions db s of
                Some sessions \<Rightarrow> foldl (restore_session inflight now retry) loaded_empty sessions
              | None \<Rightarrow> loaded_empty))
      in \<lparr>h_next_id = l_next_raw loaded, h_router = l_router loaded, h_retained = retained,
          h_sessions = l_table loaded, h_storage = storage, h_persist = map_option (\<lambda>_. []) storage,
          h_retry = retry, h_event_log_max = event_log_max, h_outbox = [],
          h_timers = map (\<lambda>(cid, expiry). (cid, 0, from_secs (unat expiry))) (l_to_expire loaded)\<rparr>)"

text \<open>The worker thread takes the oldest queued write.\<close>

definition worker_step :: "('s, 'u, 'e) Redb \<Rightarrow> ('s, 'u, 'e) Hub \<Rightarrow> ('s, 'u, 'e) Hub option" where
  "worker_step db h =
     (case (h_storage h, h_persist h) of
        (Some st, Some (op # ops)) \<Rightarrow>
          map_option (\<lambda>st. h\<lparr>h_storage := Some st, h_persist := Some ops\<rparr>) (apply_persist_op db st op)
      | _ \<Rightarrow> Some h)"

end
