(* ===== verification/Hub_Invariant.thy ===== *)
theory Hub_Invariant
  imports Hub
begin

text \<open>
  The invariant of the hub: the session table and its index are inverse to each other, every
  session is well formed, client ids are fresh, and the router and the retained store keep their
  own invariants. Every operation keeps it and none of them panics under it.
\<close>

section \<open>Invariant\<close>

declare map_of_eq_Some_iff [simp del]

definition table_ok :: "SessionTable \<Rightarrow> u64 \<Rightarrow> bool" where
  "table_ok t next \<longleftrightarrow> hm_ok (by_id t) \<and> hm_ok (id_of t) \<and>
     (\<forall>c cid. hm_get (id_of t) c = Some cid \<longleftrightarrow> (\<exists>s. hm_get (by_id t) cid = Some s \<and> s_client_id s = c)) \<and>
     (\<forall>cid s. hm_get (by_id t) cid = Some s \<longrightarrow>
        session_ok s \<and> cid < next \<and> s_generation s \<le> generation t)"

definition hub_ok :: "('s, 'u, 'e) Hub \<Rightarrow> bool" where
  "hub_ok h \<longleftrightarrow> table_ok (h_sessions h) (h_next_id h) \<and> router_ok (h_router h) \<and>
     retained_ok (h_retained h) \<and> (h_storage h = None \<longleftrightarrow> h_persist h = None)"

section \<open>What the helpers leave alone\<close>

lemma enqueue_sel [simp]:
  "h_sessions (enqueue h op) = h_sessions h" "h_router (enqueue h op) = h_router h"
  "h_retained (enqueue h op) = h_retained h" "h_next_id (enqueue h op) = h_next_id h"
  "h_storage (enqueue h op) = h_storage h" "h_outbox (enqueue h op) = h_outbox h"
  "h_retry (enqueue h op) = h_retry h" "h_timers (enqueue h op) = h_timers h"
  "h_event_log_max (enqueue h op) = h_event_log_max h"
  "h_persist (enqueue h op) = map_option (\<lambda>q. q @ [op]) (h_persist h)"
  by (simp_all add: enqueue_def)

lemma hub_ok_enqueue [simp]: "hub_ok (enqueue h op) = hub_ok h"
  by (simp add: hub_ok_def)

lemma hub_ok_persist_meta [simp]: "hub_ok (persist_meta h c e) = hub_ok h"
  by (simp add: persist_meta_def)

lemma persist_meta_sel [simp]:
  "h_sessions (persist_meta h c e) = h_sessions h" "h_router (persist_meta h c e) = h_router h"
  "h_retained (persist_meta h c e) = h_retained h" "h_next_id (persist_meta h c e) = h_next_id h"
  "h_storage (persist_meta h c e) = h_storage h" "h_outbox (persist_meta h c e) = h_outbox h"
  "h_persist (persist_meta h c e) = None \<longleftrightarrow> h_persist h = None"
  by (simp_all add: persist_meta_def)

lemma write_inflight_sel [simp]:
  "h_sessions (write_inflight h b) = h_sessions h" "h_router (write_inflight h b) = h_router h"
  "h_retained (write_inflight h b) = h_retained h" "h_next_id (write_inflight h b) = h_next_id h"
  "h_storage (write_inflight h b) = h_storage h" "h_outbox (write_inflight h b) = h_outbox h"
  by (simp_all add: write_inflight_def)

lemma hub_ok_write_inflight [simp]: "hub_ok (write_inflight h b) = hub_ok h"
  by (simp add: write_inflight_def)

lemma hub_ok_write_inflights [simp]: "hub_ok (foldl write_inflight h bs) = hub_ok h"
  by (induction bs arbitrary: h) simp_all

lemma hub_ok_write_snapshot [simp]: "hub_ok (write_snapshot h b) = hub_ok h"
  by (simp add: write_snapshot_def split: option.split)

lemma put_session_at_sel [simp]:
  "h_router (put_session_at h cid so) = h_router h" "h_retained (put_session_at h cid so) = h_retained h"
  "h_next_id (put_session_at h cid so) = h_next_id h" "h_storage (put_session_at h cid so) = h_storage h"
  "h_persist (put_session_at h cid so) = h_persist h" "h_retry (put_session_at h cid so) = h_retry h"
  "h_outbox (put_session_at h cid so) = h_outbox h @ snd so" "h_timers (put_session_at h cid so) = h_timers h"
  "h_event_log_max (put_session_at h cid so) = h_event_log_max h"
  "by_id (h_sessions (put_session_at h cid so)) = hm_insert cid (fst so) (by_id (h_sessions h))"
  "id_of (h_sessions (put_session_at h cid so)) = id_of (h_sessions h)"
  "generation (h_sessions (put_session_at h cid so)) = generation (h_sessions h)"
  by (simp_all add: put_session_at_def)

section \<open>Updating the table\<close>

lemma hub_ok_session:
  "hub_ok h \<Longrightarrow> hm_get (by_id (h_sessions h)) cid = Some s \<Longrightarrow>
     session_ok s \<and> cid < h_next_id h \<and> s_generation s \<le> generation (h_sessions h)"
  by (simp add: hub_ok_def table_ok_def)

lemma hub_ok_put_session_at:
  assumes ok: "hub_ok h" and get: "hm_get (by_id (h_sessions h)) cid = Some s"
    and s': "session_ok (fst so)" "s_client_id (fst so) = s_client_id s"
      "s_generation (fst so) \<le> generation (h_sessions h)"
  shows "hub_ok (put_session_at h cid so)"
  using assms by (auto simp: hub_ok_def table_ok_def hm_ok_insert update_conv')

lemma hub_ok_discard:
  assumes "hub_ok h" shows "hub_ok (discard h cid)"
proof -
  let ?t = "h_sessions h"
  have ok: "table_ok ?t (h_next_id h)" using assms by (simp add: hub_ok_def)
  have "hm_get (filter (\<lambda>(_, v). v \<noteq> cid) (id_of ?t)) c = Some v \<longleftrightarrow>
      hm_get (id_of ?t) c = Some v \<and> v \<noteq> cid" for c v
    using hm_get_filter [of "id_of ?t"] ok [unfolded table_ok_def, THEN conjunct2, THEN conjunct1]
    by (auto split: option.split)
  then have "table_ok \<lparr>by_id = hm_remove cid (by_id ?t), id_of = filter (\<lambda>(_, v). v \<noteq> cid) (id_of ?t),
      generation = generation ?t\<rparr> (h_next_id h)"
    using ok by (auto simp: table_ok_def hm_ok_remove hm_ok_filter delete_conv')
  with assms show ?thesis
    by (cases ?t) (simp add: hub_ok_def discard_def Let_def split: option.split)
qed

lemma word_less_succ: "(y :: 'a::len word) \<le> x \<Longrightarrow> x + 1 \<noteq> 0 \<Longrightarrow> y < x + 1"
proof -
  assume le: "y \<le> x" and nz: "x + 1 \<noteq> 0"
  from nz have "unat (x + 1) = Suc (unat x)" by (metis unatSuc add.commute)
  with le show "y < x + 1" by (simp add: word_less_nat_alt word_le_nat_alt)
qed

lemma table_ok_bump:
  "table_ok t n \<Longrightarrow> generation t + 1 \<noteq> 0 \<Longrightarrow> table_ok (t\<lparr>generation := generation t + 1\<rparr>) n"
  by (auto simp: table_ok_def intro: order_trans [OF _ less_imp_le [OF word_less_succ]])

lemma table_ok_fresh: "table_ok t n \<Longrightarrow> hm_get (by_id t) n = None"
  by (metis less_irrefl option.exhaust table_ok_def)

lemma table_ok_index: "table_ok t n \<Longrightarrow> hm_get (by_id t) cid = Some s \<Longrightarrow> hm_get (id_of t) (s_client_id s) = Some cid"
  unfolding table_ok_def by metis

lemma table_ok_new:
  assumes ok: "table_ok t n" and n: "n + 1 \<noteq> 0" and s: "session_ok s" "s_generation s \<le> generation t"
    and old: "hm_get (id_of t) (s_client_id s) = None"
  shows "table_ok (t\<lparr>id_of := hm_insert (s_client_id s) n (id_of t), by_id := hm_insert n s (by_id t)\<rparr>) (n + 1)"
proof -
  have "hm_get (by_id t) n = None" by (rule table_ok_fresh [OF ok])
  moreover have "x < n + 1" if "x < n" for x using that word_less_succ [OF less_imp_le n] by blast
  moreover have "s_client_id s' \<noteq> s_client_id s" if "hm_get (by_id t) x = Some s'" for x s'
    using table_ok_index [OF ok that] old by auto
  ultimately show ?thesis
    using assms word_less_succ [OF order_refl n]
    by (auto simp: table_ok_def hm_ok_insert update_conv')
qed

lemma table_ok_cong:
  assumes "table_ok t n" "hm_get (by_id t') = hm_get (by_id t)" "hm_get (id_of t') = hm_get (id_of t)"
    "hm_ok (by_id t')" "hm_ok (id_of t')" "generation t' = generation t"
  shows "table_ok t' n"
  using assms by (simp add: table_ok_def)

lemma table_ok_drop:
  assumes ok: "table_ok t n" and old: "hm_get (id_of t) c = Some cid"
  shows "table_ok (t\<lparr>by_id := hm_remove cid (by_id t), id_of := hm_remove c (id_of t)\<rparr>) n"
proof -
  have iff: "hm_get (id_of t) c' = Some x \<longleftrightarrow> (\<exists>s. hm_get (by_id t) x = Some s \<and> s_client_id s = c')" for c' x
    using ok unfolding table_ok_def by blast
  have "c' = c \<longleftrightarrow> x = cid" if "hm_get (id_of t) c' = Some x" for c' x
    using that old iff [of c' x] iff [of c cid] by (metis option.inject)
  then have "hm_get (hm_remove c (id_of t)) c' = Some x \<longleftrightarrow>
      (\<exists>s. hm_get (hm_remove cid (by_id t)) x = Some s \<and> s_client_id s = c')" for c' x
    using iff [of c' x] by (auto simp: delete_conv')
  moreover have "session_ok s \<and> x < n \<and> s_generation s \<le> generation t"
    if "hm_get (hm_remove cid (by_id t)) x = Some s" for x s
    using that ok by (simp add: table_ok_def delete_conv' split: if_splits)
  ultimately show ?thesis
    using ok unfolding table_ok_def by (simp add: hm_ok_remove)
qed

lemma table_ok_replace:
  assumes ok: "table_ok t n" and n: "n + 1 \<noteq> 0" and s: "session_ok s" "s_generation s \<le> generation t"
    and old: "hm_get (id_of t) (s_client_id s) = Some cid"
  shows "table_ok (t\<lparr>id_of := hm_insert (s_client_id s) n (id_of t),
    by_id := hm_insert n s (hm_remove cid (by_id t))\<rparr>) (n + 1)"
proof (rule table_ok_cong)
  let ?t = "t\<lparr>by_id := hm_remove cid (by_id t), id_of := hm_remove (s_client_id s) (id_of t)\<rparr>"
  show "table_ok (?t\<lparr>id_of := hm_insert (s_client_id s) n (id_of ?t), by_id := hm_insert n s (by_id ?t)\<rparr>) (n + 1)"
    by (rule table_ok_new [OF table_ok_drop [OF ok old] n s(1)]) (simp_all add: s delete_conv')
qed (use ok in \<open>simp_all add: table_ok_def update_conv' delete_conv' hm_ok_insert hm_ok_remove\<close>)

section \<open>Connecting\<close>

lemma session_attach_sel:
  "s_client_id (fst (session_attach s tx expiry gen now cfg)) = s_client_id s"
  "s_generation (fst (session_attach s tx expiry gen now cfg)) = gen"
  "s_tx (fst (session_attach s tx expiry gen now cfg)) = Some tx"
  "s_expiry_secs (fst (session_attach s tx expiry gen now cfg)) = expiry"
  by (simp_all add: session_attach_def Let_def retransmit_eq)

lemma connect_ok:
  assumes ok: "hub_ok h" and n: "h_next_id h + 1 \<noteq> 0" and g: "generation (h_sessions h) + 1 \<noteq> 0"
  shows "\<exists>cn h'. connect h c clean expiry tx now = Some (cn, h') \<and> hub_ok h'"
proof -
  define t where "t = (h_sessions h)\<lparr>generation := generation (h_sessions h) + 1\<rparr>"
  define s where "s = session_new c (Some tx) expiry (generation t)"
  have t: "table_ok t (h_next_id h)" using ok table_ok_bump [OF _ g] by (simp add: t_def hub_ok_def)
  have s: "session_ok s" "s_generation s \<le> generation t" "s_client_id s = c"
    by (simp_all add: s_def) (simp_all add: session_new_def)
  show ?thesis
  proof (cases "hm_get (id_of t) c")
    case None
    with table_ok_new [OF t n s(1,2)] s(3) ok show ?thesis
      by (simp add: connect_def Let_def t_def [symmetric] s_def [symmetric] hub_ok_def)
  next
    case (Some cid)
    show ?thesis
    proof (cases clean)
      case True
      with Some table_ok_replace [OF t n s(1,2)] s(3) ok show ?thesis
        by (simp add: connect_def Let_def forget_persisted_def t_def [symmetric] s_def [symmetric] hub_ok_def)
    next
      case False
      obtain s0 where s0: "hm_get (by_id t) cid = Some s0" "s_client_id s0 = c"
        using t Some unfolding table_ok_def by metis
      let ?h = "h\<lparr>h_sessions := t\<rparr>" and ?so = "session_attach s0 tx expiry (generation t) now (h_retry h)"
      have ok': "hub_ok ?h" using ok t by (simp add: hub_ok_def)
      have "hub_ok (put_session_at ?h cid ?so)"
        by (rule hub_ok_put_session_at [OF ok', of _ s0])
          (use s0 t in \<open>auto simp: session_ok_attach session_attach_sel table_ok_def\<close>)
      with False Some s0 show ?thesis
        by (simp add: connect_def Let_def t_def [symmetric])
    qed
  qed
qed

section \<open>Delivering and publishing\<close>

lemma hub_ok_deliver:
  assumes ok: "hub_ok h" and get: "hm_get (by_id (h_sessions h)) cid = Some s"
  obtains so where "deliver s topic payload qos retain now cfg = Some so" "hub_ok (put_session_at h cid so)"
proof -
  have s: "session_ok s" "s_generation s \<le> generation (h_sessions h)" using hub_ok_session [OF ok get] by auto
  obtain s' out where "deliver s topic payload qos retain now cfg = Some (s', out)" "session_ok s'"
    "s_client_id s' = s_client_id s" "s_generation s' = s_generation s"
    by (rule deliver_ok [OF s(1)]) blast
  with s that [of "(s', out)"] hub_ok_put_session_at [OF ok get, of "(s', out)"] show ?thesis by simp
qed

lemma deliver_targets_ok:
  "hub_ok h \<Longrightarrow> \<exists>h' bs n. deliver_targets h topic payload qos now targets = Some (h', bs, n) \<and> hub_ok h'"
proof (induction targets arbitrary: h)
  case (Cons target targets)
  obtain cid granted where target: "target = (cid, granted)" by fastforce
  show ?case
  proof (cases "hm_get (by_id (h_sessions h)) cid")
    case None
    with Cons target show ?thesis by simp
  next
    case (Some s)
    obtain so where so: "deliver s topic payload (min qos granted) False now (h_retry h) = Some so"
      and "hub_ok (put_session_at h cid so)"
      by (rule hub_ok_deliver [OF Cons.prems Some])
    from Cons.IH [OF this(2)] so Some target show ?thesis by (auto simp: Let_def)
  qed
qed simp

lemma hub_ok_router: "hub_ok h \<Longrightarrow> router_ok r \<Longrightarrow> hub_ok (h\<lparr>h_router := r\<rparr>)"
  by (simp add: hub_ok_def)

lemma publish_total:
  assumes "hub_ok h"
  shows "\<exists>n h'. publish h topic payload qos retain now ts = Some (n, h') \<and> hub_ok h'"
proof -
  define h1 where "h1 = (if retain then
      enqueue (h\<lparr>h_retained := retained_apply (h_retained h)
          \<lparr>m_topic = topic, m_payload = payload, m_qos = qos, m_retain = True\<rparr>\<rparr>)
        (PutRetained topic payload qos)
    else h)"
  define h2 where "h2 = (if 0 < h_event_log_max h1 \<and> \<not> starts_with ''$'' topic then
      enqueue h1 (AppendEvent (encode_event ts topic (qos_as_u8 qos) payload) (h_event_log_max h1))
    else h1)"
  have "hub_ok h1" using assms by (auto simp: h1_def hub_ok_def)
  then have "hub_ok h2" by (simp add: h2_def)
  obtain targets router where route: "route (h_router h2) topic = (targets, router)" by fastforce
  with \<open>hub_ok h2\<close> router_ok_route [of "h_router h2" topic] have "hub_ok (h2\<lparr>h_router := router\<rparr>)"
    by (simp add: hub_ok_def)
  from deliver_targets_ok [OF this, of topic payload qos now targets] route this show ?thesis
    by (auto simp: publish_def Let_def h1_def [symmetric] h2_def [symmetric])
qed

lemma dead_letter_ok:
  assumes "hub_ok h" shows "\<exists>h'. dead_letter h c msg reason now ts = Some h' \<and> hub_ok h'"
proof (cases "is_dlq_topic (p_topic (d_publish msg))")
  case False
  let ?h = "if h_persist h \<noteq> None then enqueue h (AppendDeadLetter (encode_dead_letter ts c (p_topic (d_publish msg)) reason
      (d_attempts msg) (qos_as_u8 (to_core_qos (p_qos (d_publish msg)))) (p_payload (d_publish msg)))) else h"
  have "hub_ok ?h" using assms by simp
  from publish_total [OF this] obtain n h' where "publish ?h (dlq_topic c (p_topic (d_publish msg)))
      (p_payload (d_publish msg)) (to_core_qos (p_qos (d_publish msg))) False now ts = Some (n, h')" "hub_ok h'"
    by blast
  with False show ?thesis unfolding dead_letter_def Let_def by simp
qed (use assms in \<open>simp add: dead_letter_def\<close>)

lemma dead_letter_all_ok: "hub_ok h \<Longrightarrow> \<exists>h'. dead_letter_all h dead reason now ts = Some h' \<and> hub_ok h'"
proof (induction dead arbitrary: h)
  case (Cons d dead)
  obtain c msg where d: "d = (c, msg)" by fastforce
  obtain h1 where "dead_letter h c msg reason now ts = Some h1" "hub_ok h1"
    using dead_letter_ok [OF Cons.prems] by blast
  with Cons.IH [of h1] d show ?case by simp
qed simp

section \<open>Detaching, expiry and retries\<close>

lemma hub_ok_timers [simp]: "hub_ok (h\<lparr>h_timers := ts\<rparr>) = hub_ok h"
  by (simp add: hub_ok_def)

lemma hub_ok_outbox [simp]: "hub_ok (h\<lparr>h_outbox := out\<rparr>) = hub_ok h"
  by (simp add: hub_ok_def)

lemma hub_ok_detach:
  assumes "hub_ok h" shows "hub_ok (detach h cid gen)"
proof (cases "hm_get (by_id (h_sessions h)) cid")
  case (Some s)
  have "hub_ok (put_session_at h cid (session_detach s, []))"
    by (rule hub_ok_put_session_at [OF assms Some])
      (use hub_ok_session [OF assms Some] in \<open>simp_all add: session_ok_detach session_detach_def [of s]
         session_ok_def\<close>)
  with assms Some show ?thesis by (simp add: detach_def Let_def hub_ok_discard)
qed (use assms in \<open>simp add: detach_def\<close>)

lemma purge_ok:
  assumes "hub_ok h" shows "\<exists>h'. purge_if_idle h cid gen now ts = Some h' \<and> hub_ok h'"
proof (cases "hm_get (by_id (h_sessions h)) cid")
  case (Some s)
  have "hub_ok (put_session_at h cid (snd (drain_undelivered s), []))"
    by (rule hub_ok_put_session_at [OF assms Some])
      (use hub_ok_session [OF assms Some] session_ok_drain [of s] in \<open>simp_all add: drain_undelivered_def\<close>)
  then have "hub_ok (discard (put_session_at h cid (snd (drain_undelivered s), [])) cid)"
    by (rule hub_ok_discard)
  from dead_letter_all_ok [OF this] assms Some show ?thesis
    by (auto simp: purge_if_idle_def split: prod.split)
qed (use assms in \<open>simp add: purge_if_idle_def\<close>)

text \<open>What one run of the retry loop makes of each session.\<close>

definition ticked :: "Instant \<Rightarrow> RetryConfig \<Rightarrow> Session \<Rightarrow> Session" where
  "ticked now cfg s = (if s_tx s = None then s else fst (snd (tick_retries s now cfg)))"

lemma retries_loop_table:
  "fst (retries_loop h now m) = map (\<lambda>(cid, s). (cid, ticked now (h_retry h) s)) m"
proof (induction m)
  case (Cons e m)
  then show ?case
    by (cases e) (auto simp: ticked_def Let_def split: prod.split)
qed simp

lemma ticked_sel [simp]:
  "s_client_id (ticked now cfg s) = s_client_id s" "s_generation (ticked now cfg s) = s_generation s"
  "s_tx (ticked now cfg s) = s_tx s" "session_ok s \<Longrightarrow> session_ok (ticked now cfg s)"
  "s_expiry_secs (ticked now cfg s) = s_expiry_secs s" "s_next_id (ticked now cfg s) = s_next_id s"
  by (simp_all add: ticked_def tick_retries_inflight session_ok_def list_all_iff)

lemma hm_get_map_snd: "hm_get (map (\<lambda>(k, v). (k, f v)) m) k = map_option f (hm_get m k)"
  by (induction m) auto

lemma run_retries_ok:
  assumes "hub_ok h" shows "\<exists>h'. run_retries h now ts = Some h' \<and> hub_ok h'"
proof -
  obtain table dead bs out where loop: "retries_loop h now (by_id (h_sessions h)) = (table, dead, bs, out)"
    by (metis prod_cases4)
  then have table: "table = map (\<lambda>(cid, s). (cid, ticked now (h_retry h) s)) (by_id (h_sessions h))"
    using retries_loop_table [of h now "by_id (h_sessions h)"] by simp
  have "hm_get table cid = map_option (ticked now (h_retry h)) (hm_get (by_id (h_sessions h)) cid)" for cid
    unfolding table by (rule hm_get_map_snd)
  moreover have "hm_ok table" using assms by (simp add: table hub_ok_def table_ok_def comp_def case_prod_beta)
  ultimately have "table_ok ((h_sessions h)\<lparr>by_id := table\<rparr>) (h_next_id h)"
    using assms by (auto simp: hub_ok_def table_ok_def)
  then have "hub_ok (foldl write_inflight (h\<lparr>h_sessions := (h_sessions h)\<lparr>by_id := table\<rparr>, h_outbox := h_outbox h @ out\<rparr>) bs)"
    using assms by (simp, simp add: hub_ok_def)
  from dead_letter_all_ok [OF this] loop show ?thesis by (auto simp: run_retries_def Let_def)
qed

section \<open>The remaining operations\<close>

lemma hub_ok_persist_subscription [simp]: "hub_ok (persist_subscription h cid raw qos) = hub_ok h"
  by (simp add: persist_subscription_def split: option.split)

lemma hub_ok_subscribe: "hub_ok h \<Longrightarrow> hub_ok (hub_subscribe h cid flt qos raw)"
  by (simp add: hub_subscribe_def) (simp add: hub_ok_def)

lemma hub_ok_subscribe_shared: "hub_ok h \<Longrightarrow> hub_ok (hub_subscribe_shared h grp cid flt qos raw)"
  by (simp add: hub_subscribe_shared_def) (simp add: hub_ok_def)

lemma hub_ok_unsubscribe:
  assumes "hub_ok h" shows "hub_ok (snd (hub_unsubscribe h cid raw))"
proof -
  define p where "p = (case shared_parse raw of
      Some sh \<Rightarrow> unsubscribe_shared (h_router h) (ss_group sh) cid (as_str (ss_filter sh))
    | None \<Rightarrow> unsubscribe (h_router h) cid raw)"
  have "router_ok (snd p)" using assms by (simp add: p_def hub_ok_def split: option.split)
  then have "hub_ok (h\<lparr>h_router := snd p\<rparr>)" by (rule hub_ok_router [OF assms])
  then show ?thesis
    by (cases p) (auto simp: hub_unsubscribe_def p_def [symmetric] Let_def split: option.split)
qed

lemma retained_loop_ok:
  "session_ok s \<Longrightarrow> \<exists>s' out b. retained_loop s msgs granted now cfg = Some (s', out, b) \<and> session_ok s' \<and>
     s_client_id s' = s_client_id s \<and> s_generation s' = s_generation s"
proof (induction msgs arbitrary: s)
  case (Cons m msgs)
  obtain s1 out1 where "deliver s (m_topic m) (m_payload m) (min (m_qos m) granted) True now cfg = Some (s1, out1)"
    "session_ok s1" "s_client_id s1 = s_client_id s" "s_generation s1 = s_generation s"
    by (rule deliver_ok [OF Cons.prems]) blast
  with Cons.IH [of s1] show ?case by auto
qed auto

lemma deliver_retained_ok:
  assumes "hub_ok h" shows "\<exists>h'. deliver_retained h cid flt granted now = Some h' \<and> hub_ok h'"
proof (cases "hm_get (by_id (h_sessions h)) cid")
  case (Some s)
  obtain s' out b where loop: "retained_loop s (retained_matching (h_retained h) flt) granted now (h_retry h) = Some (s', out, b)"
    "session_ok s'" "s_client_id s' = s_client_id s" "s_generation s' = s_generation s"
    using retained_loop_ok hub_ok_session [OF assms Some] by blast
  have "hub_ok (put_session_at h cid (s', out))"
    by (rule hub_ok_put_session_at [OF assms Some])
      (use loop hub_ok_session [OF assms Some] in simp_all)
  with loop Some assms show ?thesis by (simp add: deliver_retained_def Let_def)
qed (use assms in \<open>simp add: deliver_retained_def Let_def\<close>)

lemma hub_ok_locked_ack:
  assumes "hub_ok h" and f: "\<And>s. session_ok s \<Longrightarrow> session_ok (fst (f s)) \<and> s_client_id (fst (f s)) = s_client_id s \<and>
    s_generation (fst (f s)) = s_generation s"
  shows "hub_ok (fst (locked_ack h cid f))"
proof (cases "hm_get (by_id (h_sessions h)) cid")
  case (Some s)
  have "hub_ok (put_session_at h cid (f s))"
    by (rule hub_ok_put_session_at [OF assms(1) Some]) (use f hub_ok_session [OF assms(1) Some] in auto)
  with Some show ?thesis by (simp add: locked_ack_def Let_def)
qed (use assms in \<open>simp add: locked_ack_def\<close>)

lemma session_ack_sel [simp]:
  "s_client_id (session_on_puback s pid) = s_client_id s" "s_generation (session_on_puback s pid) = s_generation s"
  "s_client_id (session_on_pubcomp s pid) = s_client_id s" "s_generation (session_on_pubcomp s pid) = s_generation s"
  "s_client_id (fst (session_on_pubrec s pid)) = s_client_id s"
  "s_generation (fst (session_on_pubrec s pid)) = s_generation s"
  by (simp_all add: session_on_puback_def session_on_pubcomp_def session_on_pubrec_def split: option.split prod.split)

lemma hub_ok_acks:
  assumes "hub_ok h"
  shows "hub_ok (on_puback h cid pid)" and "hub_ok (on_pubrec h cid pid)" and "hub_ok (on_pubcomp h cid pid)"
  using hub_ok_locked_ack [OF assms, of "\<lambda>s. (session_on_puback s pid, [])" cid]
    hub_ok_locked_ack [OF assms, of "\<lambda>s. session_on_pubrec s pid" cid]
    hub_ok_locked_ack [OF assms, of "\<lambda>s. (session_on_pubcomp s pid, [])" cid]
  by (simp_all add: on_puback_def on_pubrec_def on_pubcomp_def session_ok_puback session_ok_pubrec
      session_ok_pubcomp case_prod_beta)

lemma hub_ok_qos2:
  assumes "hub_ok h"
  shows "hub_ok (snd (inbound_qos2_seen h cid pid))" and "hub_ok (inbound_qos2_release h cid pid)"
proof -
  have put: "hub_ok (put_session_at h cid (s', []))"
    if "hm_get (by_id (h_sessions h)) cid = Some s" "s' = s\<lparr>s_incoming_qos2 := X\<rparr>" for s s' X
    by (rule hub_ok_put_session_at [OF assms that(1)])
      (use that hub_ok_session [OF assms that(1)] in \<open>simp_all add: session_ok_def\<close>)
  show "hub_ok (snd (inbound_qos2_seen h cid pid))" "hub_ok (inbound_qos2_release h cid pid)"
    using assms put by (auto simp: inbound_qos2_seen_def inbound_qos2_release_def qos2_seen_def qos2_release_def
        split: option.split)
qed

lemma hub_ok_replay: "hub_ok h \<Longrightarrow> hub_ok (snd (replay db h cid from flt))"
  by (simp add: replay_def split: option.split prod.split)

lemma hub_ok_worker: "hub_ok h \<Longrightarrow> worker_step db h = Some h' \<Longrightarrow> hub_ok h'"
  by (auto simp: worker_step_def hub_ok_def split: option.splits list.splits)

section \<open>Reachable states\<close>

text \<open>
  Every interleaving of operations, at the granularity of whole operations: connections, timers
  and the persistence worker take steps in any order. The two \<open>u64\<close> counters of \<open>connect\<close> are
  assumed not to be exhausted.
\<close>

inductive hub_step :: "('s, 'u, 'e) Redb \<Rightarrow> ('s, 'u, 'e) Hub \<Rightarrow> ('s, 'u, 'e) Hub \<Rightarrow> bool" for db where
  step_connect: "h_next_id h + 1 \<noteq> 0 \<Longrightarrow> generation (h_sessions h) + 1 \<noteq> 0 \<Longrightarrow>
     connect h c clean expiry tx now = Some (cn, h') \<Longrightarrow> hub_step db h h'"
| step_detach: "hub_step db h (detach h cid gen)"
| step_purge: "purge_if_idle h cid gen now ts = Some h' \<Longrightarrow> hub_step db h h'"
| step_retries: "run_retries h now ts = Some h' \<Longrightarrow> hub_step db h h'"
| step_publish: "publish h topic payload qos retain now ts = Some (n, h') \<Longrightarrow> hub_step db h h'"
| step_subscribe: "hub_step db h (hub_subscribe h cid flt qos raw)"
| step_subscribe_shared: "hub_step db h (hub_subscribe_shared h grp cid flt qos raw)"
| step_unsubscribe: "hub_step db h (snd (hub_unsubscribe h cid raw))"
| step_retained: "deliver_retained h cid flt granted now = Some h' \<Longrightarrow> hub_step db h h'"
| step_replay: "hub_step db h (snd (replay db h cid from flt))"
| step_puback: "hub_step db h (on_puback h cid pid)"
| step_pubrec: "hub_step db h (on_pubrec h cid pid)"
| step_pubcomp: "hub_step db h (on_pubcomp h cid pid)"
| step_seen: "hub_step db h (snd (inbound_qos2_seen h cid pid))"
| step_release: "hub_step db h (inbound_qos2_release h cid pid)"
| step_flush: "hub_step db h (hub_flush h)"
| step_worker: "worker_step db h = Some h' \<Longrightarrow> hub_step db h h'"

inductive hub_reach :: "('s, 'u, 'e) Redb \<Rightarrow> ('s, 'u, 'e) Hub \<Rightarrow> ('s, 'u, 'e) Hub \<Rightarrow> bool" for db h0 where
  reach_start: "hub_reach db h0 h0"
| reach_step: "hub_reach db h0 h \<Longrightarrow> hub_step db h h' \<Longrightarrow> hub_reach db h0 h'"

lemma hub_ok_flush [simp]: "hub_ok (hub_flush h) = hub_ok h"
  by (simp add: hub_flush_def hub_ok_def)

lemma hub_step_ok: "hub_step db h h' \<Longrightarrow> hub_ok h \<Longrightarrow> hub_ok h'"
proof (induction rule: hub_step.induct)
  case (step_connect h c clean expiry tx now cn h')
  with connect_ok [of h c clean expiry tx now] show ?case by auto
next
  case (step_purge h cid gen now ts h')
  with purge_ok [of h cid gen now ts] show ?case by auto
next
  case (step_retries h now ts h')
  with run_retries_ok [of h now ts] show ?case by auto
next
  case (step_publish h topic payload qos retain now ts n h')
  with publish_total [of h topic payload qos retain now ts] show ?case by auto
next
  case (step_retained h cid flt granted now h')
  with deliver_retained_ok [of h cid flt granted now] show ?case by auto
qed (simp_all add: hub_ok_detach hub_ok_subscribe hub_ok_subscribe_shared hub_ok_unsubscribe hub_ok_replay
    hub_ok_acks hub_ok_qos2 hub_ok_worker)

lemma hub_reach_ok: "hub_reach db h0 h \<Longrightarrow> hub_ok h0 \<Longrightarrow> hub_ok h"
  by (induction rule: hub_reach.induct) (auto intro: hub_step_ok)

lemma hub_ok_in_memory: "hub_ok (hub_new db None retry event_log_max now)"
  by (simp add: hub_new_def hub_ok_def loaded_empty_def table_ok_def)


definition small_retry :: RetryConfig where
  "small_retry = \<lparr>max_attempts = 2, base = 1, cap = 4\<rparr>"

definition hub0 :: "((string \<times> bytes) list, (string \<times> u32) list, (u64 \<times> bytes) list) Hub" where
  "hub0 = hub_new list_db None small_retry 0 0"

definition hub1 :: "((string \<times> bytes) list, (string \<times> u32) list, (u64 \<times> bytes) list) Hub" where
  "hub1 = snd (the (connect hub0 ''c'' False 60 7 0))"


end
