(* ===== verification/Restart.thy ===== *)
theory Restart
  imports Hub_Invariant
begin

text \<open>
  Startup from disk (\<open>Hub::new\<close>): the hub that a restarted broker builds holds exactly the durable
  sessions, each offline with its queue and its subscriptions, and satisfies the invariant of the
  hub.
\<close>

section \<open>Restoring the subscriptions of one session\<close>

text \<open>
  Where a persisted filter goes: into the normal table under its text, or into the table of its
  share group; an invalid one nowhere.
\<close>

definition slot_of :: "string \<Rightarrow> (string option \<times> string) option" where
  "slot_of raw =
     (case shared_parse raw of
        Some sh \<Rightarrow> Some (Some (ss_group sh), as_str (ss_filter sh))
      | None \<Rightarrow> map_option (\<lambda>tf. (None, as_str tf)) (topic_filter_parse raw))"

definition subs_at :: "Router \<Rightarrow> string option \<times> ClientId \<times> string \<Rightarrow> QoS option" where
  "subs_at r k = (case k of
     (None, cid, f) \<Rightarrow> normal_subs r (cid, f)
   | (Some g, cid, f) \<Rightarrow> shared_subs r (g, cid, f))"

lemma slot_of_text:
  "slot_of raw = Some (grp, f) \<Longrightarrow>
     raw = (case grp of None \<Rightarrow> f | Some g \<Rightarrow> ''$share/'' @ g @ ''/'' @ f)"
  by (auto simp: slot_of_def shared_parse_Some_iff as_str_parse split: option.splits)

lemma slot_of_inj: "slot_of a = Some k \<Longrightarrow> slot_of b = Some k \<Longrightarrow> a = b"
  using slot_of_text by (metis prod.exhaust)

lemma subs_at_subscribe:
  "subs_at (subscribe r cid flt q) = (subs_at r)((None, cid, as_str flt) \<mapsto> q)"
  "subs_at (subscribe_shared r g cid flt q) = (subs_at r)((Some g, cid, as_str flt) \<mapsto> q)"
  by (auto simp: subs_at_def fun_eq_iff split: option.split)

lemma subs_at_restore:
  "subs_at (restore_subscription cid r (raw, q)) =
     (case slot_of raw of None \<Rightarrow> subs_at r | Some (grp, f) \<Rightarrow> (subs_at r)((grp, cid, f) \<mapsto> q))"
  by (simp add: restore_subscription_def slot_of_def subs_at_subscribe split: option.split)

lemma subs_at_new: "subs_at router_new k = None"
  by (simp add: subs_at_def normal_subs_def shared_subs_def nested_look_def router_new_def
      split: prod.split option.split)

lemma router_ok_restore: "router_ok r \<Longrightarrow> router_ok (restore_subscription cid r sub)"
  by (cases sub) (simp add: restore_subscription_def split: option.split)

lemma router_ok_restores: "router_ok r \<Longrightarrow> router_ok (foldl (restore_subscription cid) r subs)"
  by (induction subs arbitrary: r) (simp_all add: router_ok_restore)

lemma subs_at_restores_other:
  "c' \<noteq> cid \<Longrightarrow> subs_at (foldl (restore_subscription cid) r subs) (grp, c', f) = subs_at r (grp, c', f)"
proof (induction subs rule: rev_induct)
  case (snoc sub subs)
  then show ?case by (cases sub) (simp add: subs_at_restore split: option.split)
qed simp

lemma subs_at_restores:
  assumes none: "\<And>grp f. subs_at r (grp, cid, f) = None" and keys: "distinct (map fst subs)"
  shows "subs_at (foldl (restore_subscription cid) r subs) (grp, cid, f) = Some q \<longleftrightarrow>
    (\<exists>raw. slot_of raw = Some (grp, f) \<and> map_of subs raw = Some q)"
  using keys
proof (induction subs arbitrary: q rule: rev_induct)
  case Nil
  then show ?case by (simp add: none)
next
  case (snoc sub subs)
  obtain raw q' where sub: "sub = (raw, q')" by fastforce
  let ?r = "foldl (restore_subscription cid) r subs"
  have fresh: "map_of subs raw = None" using snoc.prems sub by (auto simp: map_of_eq_None_iff)
  have get: "map_of (subs @ [sub]) raw' = (if raw' = raw then Some q' else map_of subs raw')" for raw'
    using fresh sub by (auto simp: map_add_def split: option.split)
  show ?case
  proof (cases "slot_of raw = Some (grp, f)")
    case True
    then have "subs_at (restore_subscription cid ?r sub) (grp, cid, f) = Some q'"
      by (simp add: sub subs_at_restore)
    moreover have "slot_of raw' = Some (grp, f) \<longleftrightarrow> raw' = raw" for raw' using True slot_of_inj by blast
    ultimately show ?thesis using get by simp
  next
    case False
    then have "subs_at (restore_subscription cid ?r sub) (grp, cid, f) = subs_at ?r (grp, cid, f)"
      by (auto simp: sub subs_at_restore split: option.split)
    moreover have "(\<exists>raw'. slot_of raw' = Some (grp, f) \<and> map_of (subs @ [sub]) raw' = Some q) \<longleftrightarrow>
        (\<exists>raw'. slot_of raw' = Some (grp, f) \<and> map_of subs raw' = Some q)"
      using False get by metis
    ultimately show ?thesis using snoc.IH [of q] snoc.prems by simp
  qed
qed

section \<open>Restoring all sessions\<close>

definition restored ::
    "(string, bytes) hash_map \<Rightarrow> Instant \<Rightarrow> RetryConfig \<Rightarrow> PersistedSession \<Rightarrow> Session" where
  "restored inflight now retry ps = restore_queue inflight now retry (ps_client_id ps)
     (session_new (ps_client_id ps) None (ps_expiry_secs ps) 0)"

text \<open>What the loop over the persisted sessions has built after the sessions \<open>pss\<close>.\<close>

definition restored_as ::
    "(string, bytes) hash_map \<Rightarrow> Instant \<Rightarrow> RetryConfig \<Rightarrow> Loaded \<Rightarrow> ClientId \<Rightarrow> PersistedSession \<Rightarrow> bool" where
  "restored_as inflight now retry l cid ps \<longleftrightarrow>
     hm_get (id_of (l_table l)) (ps_client_id ps) = Some cid \<and>
     hm_get (by_id (l_table l)) cid = Some (restored inflight now retry ps) \<and>
     (\<forall>grp f q. subs_at (l_router l) (grp, cid, f) = Some q \<longleftrightarrow>
        (\<exists>raw. slot_of raw = Some (grp, f) \<and> map_of (ps_subscriptions ps) raw = Some q)) \<and>
     (ps_expiry_secs ps \<noteq> NO_EXPIRY \<longrightarrow> (cid, ps_expiry_secs ps) \<in> set (l_to_expire l))"

text \<open>Every subscription has a text and belongs to an id that was given out.\<close>

definition slots_ok :: "Router \<Rightarrow> ClientId \<Rightarrow> bool" where
  "slots_ok r next_id \<longleftrightarrow> (\<forall>grp cid f. subs_at r (grp, cid, f) \<noteq> None \<longrightarrow>
     cid < next_id \<and> (\<exists>raw. slot_of raw = Some (grp, f)))"

definition loaded_ok ::
    "(string, bytes) hash_map \<Rightarrow> Instant \<Rightarrow> RetryConfig \<Rightarrow> Loaded \<Rightarrow> PersistedSession list \<Rightarrow> bool" where
  "loaded_ok inflight now retry l pss \<longleftrightarrow>
     table_ok (l_table l) (l_next_raw l) \<and> router_ok (l_router l) \<and>
     l_next_raw l = of_nat (length pss + 1) \<and>
     (\<forall>c. hm_get (id_of (l_table l)) c \<noteq> None \<longleftrightarrow> c \<in> ps_client_id ` set pss) \<and>
     slots_ok (l_router l) (l_next_raw l) \<and>
     (\<forall>ps \<in> set pss. \<exists>cid. restored_as inflight now retry l cid ps)"

lemma restore_queue_sel [simp]:
  "s_client_id (restore_queue inflight now retry c s) = s_client_id s"
  "s_generation (restore_queue inflight now retry c s) = s_generation s"
  "s_tx (restore_queue inflight now retry c s) = s_tx s"
  "s_expiry_secs (restore_queue inflight now retry c s) = s_expiry_secs s"
  by (simp_all add: restore_queue_def split: option.split prod.split)

lemma restored_sel [simp]:
  "s_client_id (restored inflight now retry ps) = ps_client_id ps"
  "s_generation (restored inflight now retry ps) = 0"
  "s_tx (restored inflight now retry ps) = None"
  "s_expiry_secs (restored inflight now retry ps) = ps_expiry_secs ps"
  by (simp_all add: restored_def session_new_def)

lemma restored_queue:
  "(s_next_id (restored inflight now retry ps), s_inflight (restored inflight now retry ps)) =
     (case Option.bind (hm_get inflight (ps_client_id ps)) (\<lambda>b. decode_inflight b now retry) of
        Some q \<Rightarrow> q | None \<Rightarrow> (1, []))"
  by (simp add: restored_def restore_queue_def session_new_def split: option.split prod.split)

text \<open>The stored counters are those of running sessions, so never 0.\<close>

definition counters_ok :: "(string \<rightharpoonup> bytes) \<Rightarrow> Instant \<Rightarrow> RetryConfig \<Rightarrow> bool" where
  "counters_ok blobs now retry \<longleftrightarrow>
     (\<forall>c b n q. blobs c = Some b \<longrightarrow> decode_inflight b now retry = Some (n, q) \<longrightarrow> n \<noteq> 0)"

lemma session_ok_restored:
  assumes "counters_ok (hm_get inflight) now retry"
  shows "session_ok (restored inflight now retry ps)"
proof (cases "Option.bind (hm_get inflight (ps_client_id ps)) (\<lambda>b. decode_inflight b now retry)")
  case None
  with restored_queue [of inflight now retry ps] show ?thesis by (simp add: session_ok_def)
next
  case (Some nq)
  obtain n q where nq: "nq = (n, q)" by fastforce
  with Some obtain b where b: "hm_get inflight (ps_client_id ps) = Some b" "decode_inflight b now retry = Some (n, q)"
    by (auto simp: bind_eq_Some_conv)
  from b(2) obtain c where "decode_loop now retry c [] = Some q"
    by (auto simp: decode_inflight_def bind_eq_Some_conv)
  from decode_loop_ok [OF this] have "list_all (\<lambda>e. state_ok (e_state e)) q" by (simp add: list_all_iff)
  moreover have "n \<noteq> 0" using assms b unfolding counters_ok_def by blast
  ultimately show ?thesis using restored_queue [of inflight now retry ps] Some nq by (simp add: session_ok_def)
qed

lemma restore_session_eq:
  fixes l :: Loaded
  defines "cid \<equiv> l_next_raw l"
  shows "restore_session inflight now retry l ps = \<lparr>
    l_router = foldl (restore_subscription cid) (l_router l) (ps_subscriptions ps),
    l_table = (l_table l)\<lparr>id_of := hm_insert (ps_client_id ps) cid (id_of (l_table l)),
      by_id := hm_insert cid (restored inflight now retry ps) (by_id (l_table l))\<rparr>,
    l_next_raw = cid + 1,
    l_to_expire = l_to_expire l @ (if ps_expiry_secs ps \<noteq> NO_EXPIRY then [(cid, ps_expiry_secs ps)] else [])\<rparr>"
  by (simp add: restore_session_def Let_def cid_def restored_def)

lemma restore_session_ok:
  assumes ok: "loaded_ok inflight now retry l pss" and counters: "counters_ok (hm_get inflight) now retry"
    and new: "ps_client_id ps \<notin> ps_client_id ` set pss" and keys: "distinct (map fst (ps_subscriptions ps))"
    and room: "length pss + 2 < 2 ^ 64"
  shows "loaded_ok inflight now retry (restore_session inflight now retry l ps) (pss @ [ps])"
proof -
  let ?l = "restore_session inflight now retry l ps" and ?cid = "l_next_raw l"
  let ?s = "restored inflight now retry ps"
  note eq = restore_session_eq [of inflight now retry l ps]
  have t: "table_ok (l_table l) ?cid" and r: "router_ok (l_router l)" and n: "?cid = of_nat (length pss + 1)"
    and dom: "\<And>c. hm_get (id_of (l_table l)) c \<noteq> None \<longleftrightarrow> c \<in> ps_client_id ` set pss"
    and slots: "slots_ok (l_router l) ?cid"
    and old: "\<And>ps. ps \<in> set pss \<Longrightarrow> \<exists>cid. restored_as inflight now retry l cid ps"
    using ok unfolding loaded_ok_def by blast+
  have unat: "unat (of_nat k :: u64) = k" if "k < 2 ^ 64" for k
    using that by (simp add: unat_of_nat take_bit_nat_eq_self)
  have nxt: "?cid + 1 = of_nat (length (pss @ [ps]) + 1)" by (simp add: n)
  have nz: "?cid + 1 \<noteq> 0"
  proof -
    have "unat (?cid + 1) = length pss + 2" unfolding nxt by (subst unat) (use room in simp_all)
    then show ?thesis by (metis add_is_0 unat_0 zero_neq_numeral)
  qed
  have less: "x < ?cid + 1" if "x \<le> ?cid" for x using word_less_succ [OF that nz] .
  have none: "hm_get (id_of (l_table l)) (ps_client_id ps) = None" using dom new by blast
  have t': "table_ok (l_table ?l) (l_next_raw ?l)"
    using table_ok_new [OF t nz session_ok_restored [OF counters, of ps]] none by (simp add: eq)
  have fresh: "subs_at (l_router l) (grp, ?cid, f) = None" for grp f
    using slots unfolding slots_ok_def by (metis less_irrefl)
  have new_as: "restored_as inflight now retry ?l ?cid ps"
    by (simp add: restored_as_def eq update_conv' subs_at_restores [OF fresh keys])
  have old_as: "restored_as inflight now retry ?l cid ps'" if "restored_as inflight now retry l cid ps'" for cid ps'
  proof -
    from that have get: "hm_get (id_of (l_table l)) (ps_client_id ps') = Some cid"
      "hm_get (by_id (l_table l)) cid = Some (restored inflight now retry ps')"
      by (simp_all add: restored_as_def)
    with table_ok_fresh [OF t] none have "cid \<noteq> ?cid" "ps_client_id ps' \<noteq> ps_client_id ps" by auto
    with that show ?thesis by (simp add: restored_as_def eq update_conv' subs_at_restores_other)
  qed
  have slots': "slots_ok (l_router ?l) (?cid + 1)"
    unfolding slots_ok_def
  proof (intro allI impI)
    fix grp cid f
    assume some: "subs_at (l_router ?l) (grp, cid, f) \<noteq> None"
    show "cid < ?cid + 1 \<and> (\<exists>raw. slot_of raw = Some (grp, f))"
    proof (cases "cid = ?cid")
      case True
      with some subs_at_restores [OF fresh keys] show ?thesis by (auto simp: eq less)
    next
      case False
      with some have "subs_at (l_router l) (grp, cid, f) \<noteq> None" by (simp add: eq subs_at_restores_other)
      with slots less less_imp_le show ?thesis unfolding slots_ok_def by blast
    qed
  qed
  have dom': "hm_get (id_of (l_table ?l)) c \<noteq> None \<longleftrightarrow> c \<in> ps_client_id ` set (pss @ [ps])" for c
    using dom [of c] by (auto simp: eq update_conv')
  have "\<exists>cid. restored_as inflight now retry ?l cid ps'" if "ps' \<in> set (pss @ [ps])" for ps'
    using that new_as old_as old [of ps'] by (cases "ps' = ps") auto
  moreover have "l_next_raw ?l = ?cid + 1" "router_ok (l_router ?l)" by (simp_all add: eq router_ok_restores [OF r])
  ultimately show ?thesis
    using t' nxt slots' dom' unfolding loaded_ok_def by metis
qed

lemma loaded_ok_empty: "loaded_ok inflight now retry loaded_empty []"
  by (simp add: loaded_ok_def loaded_empty_def table_ok_def slots_ok_def subs_at_new)

lemma restore_sessions_ok:
  assumes counters: "counters_ok (hm_get inflight) now retry"
  shows "distinct (map ps_client_id pss) \<Longrightarrow> list_all (\<lambda>ps. distinct (map fst (ps_subscriptions ps))) pss \<Longrightarrow>
    length pss + 1 < 2 ^ 64 \<Longrightarrow>
    loaded_ok inflight now retry (foldl (restore_session inflight now retry) loaded_empty pss) pss"
proof (induction pss rule: rev_induct)
  case Nil
  show ?case by (simp add: loaded_ok_empty)
next
  case (snoc ps pss)
  then have "loaded_ok inflight now retry (foldl (restore_session inflight now retry) loaded_empty pss) pss" by simp
  from restore_session_ok [OF this counters, of ps] snoc.prems show ?case by simp
qed

section \<open>The hub after a restart\<close>

lemma distinct_client_subs:
  assumes "hm_ok rows" shows "distinct (map fst (client_subs c rows))"
  using assms
proof (induction rows)
  case (Cons row rows)
  obtain key v where row: "row = (key, v)" by fastforce
  have step: "client_subs c ((key, v) # rows) = (case split_once SEP key of
       Some (c', raw') \<Rightarrow> if c' = c then [(raw', row_qos v)] else []
     | None \<Rightarrow> []) @ client_subs c rows"
    by (simp add: client_subs_def split: option.split)
  have mem: "c @ SEP # raw \<in> fst ` set rows" if "raw \<in> fst ` set (client_subs c rows)" for raw
    using that by (force simp: client_subs_def set_map_filter split_once_Some_iff split: option.splits if_splits)
  show ?case
    using Cons mem by (auto simp: row step split_once_Some_iff split: option.split)
qed (simp add: client_subs_def)

lemma map_of_client_subs_durable:
  "map_of (client_subs c (str_rows r (st_subscriptions st))) = du_subs (durable r st) c"
proof (cases "SEP \<in> set c")
  case True
  then have "client_subs c rows = []" for rows
    by (auto simp: client_subs_def map_filter_def filter_empty_conv split_once_Some_iff
        split: option.splits if_splits)
  with True show ?thesis by (simp add: durable_def)
next
  case False
  then show ?thesis by (simp add: fun_eq_iff durable_def map_of_client_subs)
qed

definition persisted :: "('s, 'u, 'e) Rows \<Rightarrow> ('s, 'u, 'e) Storage \<Rightarrow> string \<times> u32 \<Rightarrow> PersistedSession" where
  "persisted r st = (\<lambda>(c, e). \<lparr>ps_client_id = c, ps_expiry_secs = e,
     ps_subscriptions = client_subs c (str_rows r (st_subscriptions st))\<rparr>)"

lemma persisted_sel [simp]:
  "ps_client_id (persisted r st ce) = fst ce" "ps_expiry_secs (persisted r st ce) = snd ce"
  "ps_subscriptions (persisted r st ce) = client_subs (fst ce) (str_rows r (st_subscriptions st))"
  by (simp_all add: persisted_def split: prod.split)

lemma hub_new_loaded:
  assumes laws: "redb_laws db r" "redb_total db r"
    and counters: "counters_ok (du_inflight (durable r st)) now retry"
    and room: "length (u32_rows r (st_sessions st)) + 1 < 2 ^ 64"
  defines "pss \<equiv> map (persisted r st) (u32_rows r (st_sessions st))"
  obtains inflight l where "hm_get inflight = du_inflight (durable r st)" "loaded_ok inflight now retry l pss"
    "h_next_id (hub_new db (Some st) retry mx now) = l_next_raw l"
    "h_router (hub_new db (Some st) retry mx now) = l_router l"
    "h_sessions (hub_new db (Some st) retry mx now) = l_table l"
    "h_timers (hub_new db (Some st) retry mx now) =
       map (\<lambda>(cid, expiry). (cid, 0, from_secs (unat expiry))) (l_to_expire l)"
    "retained_ok (h_retained (hub_new db (Some st) retry mx now))"
    "retained_look (h_retained (hub_new db (Some st) retry mx now)) = du_retained (durable r st)"
proof -
  note parts = redb_parts [OF laws]
  obtain blobs where blobs: "load_inflight db st = Some blobs" "hm_get blobs = du_inflight (durable r st)"
    using load_inflight_spec [OF laws] by blast
  obtain msgs where msgs: "load_retained db st = Some msgs"
    "retained_look (foldl retained_apply retained_new msgs) = du_retained (durable r st)"
    using load_retained_spec [OF laws, of st] by blast
  have "distinct (map ps_client_id pss)"
    using law_distinct [OF parts(2), of "st_sessions st"] by (simp add: pss_def comp_def)
  moreover have "list_all (\<lambda>ps. distinct (map fst (ps_subscriptions ps))) pss"
    by (auto simp: pss_def list_all_iff distinct_client_subs [OF law_distinct [OF parts(1)]])
  moreover have "length pss + 1 < 2 ^ 64" using room by (simp add: pss_def)
  ultimately have ok: "loaded_ok blobs now retry (foldl (restore_session blobs now retry) loaded_empty pss) pss"
    using restore_sessions_ok counters blobs(2) by metis
  have "retained_ok (foldl retained_apply retained_new msgs)"
    by (induction msgs rule: rev_induct) simp_all
  then show ?thesis
    by (intro that [OF blobs(2) ok])
      (simp_all add: hub_new_def Let_def blobs(1) msgs load_sessions_spec [OF laws, of st] pss_def
        persisted_def [symmetric])
qed

text \<open>
  The durable session of \<open>c\<close>, with expiry \<open>e\<close>, is back as the session \<open>s\<close> with the id \<open>cid\<close>: offline,
  with the stored queue, the stored subscriptions and a purge timer.
\<close>

definition session_back ::
    "Durable \<Rightarrow> Instant \<Rightarrow> RetryConfig \<Rightarrow> ('s, 'u, 'e) Hub \<Rightarrow> string \<Rightarrow> u32 \<Rightarrow> ClientId \<Rightarrow> Session \<Rightarrow> bool" where
  "session_back d now retry h c e cid s \<longleftrightarrow>
     hm_get (id_of (h_sessions h)) c = Some cid \<and> hm_get (by_id (h_sessions h)) cid = Some s \<and>
     s_client_id s = c \<and> s_tx s = None \<and> s_expiry_secs s = e \<and>
     (s_next_id s, s_inflight s) =
       (case Option.bind (du_inflight d c) (\<lambda>b. decode_inflight b now retry) of Some q \<Rightarrow> q | None \<Rightarrow> (1, [])) \<and>
     (\<forall>grp f q. subs_at (h_router h) (grp, cid, f) = Some q \<longleftrightarrow>
        (\<exists>raw. slot_of raw = Some (grp, f) \<and> du_subs d c raw = Some q)) \<and>
     (e \<noteq> NO_EXPIRY \<longrightarrow> (cid, s_generation s, from_secs (unat e)) \<in> set (h_timers h))"

lemma restored_as_back:
  assumes as: "restored_as inflight now retry l cid (persisted r st (c, e))"
    and "hm_get inflight = du_inflight (durable r st)"
    "h_router h = l_router l" "h_sessions h = l_table l"
    and timers: "h_timers h = map (\<lambda>(cid, expiry). (cid, 0, from_secs (unat expiry))) (l_to_expire l)"
  shows "session_back (durable r st) now retry h c e cid (restored inflight now retry (persisted r st (c, e)))"
proof -
  have "e \<noteq> NO_EXPIRY \<longrightarrow> (cid, 0, from_secs (unat e)) \<in> set (h_timers h)"
    using as by (force simp: restored_as_def timers)
  with as restored_queue [of inflight now retry "persisted r st (c, e)"] show ?thesis
    by (simp add: session_back_def restored_as_def assms(2-4) map_of_client_subs_durable)
qed

lemma hub_new_restores:
  assumes "redb_laws db r" "redb_total db r"
    and "counters_ok (du_inflight (durable r st)) now retry"
    and "length (u32_rows r (st_sessions st)) + 1 < 2 ^ 64"
    and "h = hub_new db (Some st) retry mx now"
  shows "hub_ok h \<and> slots_ok (h_router h) (h_next_id h) \<and>
    retained_look (h_retained h) = du_retained (durable r st) \<and>
    (\<forall>c. hm_get (id_of (h_sessions h)) c \<noteq> None \<longleftrightarrow> du_sessions (durable r st) c \<noteq> None) \<and>
    (\<forall>c e. du_sessions (durable r st) c = Some e \<longrightarrow>
       (\<exists>cid s. session_back (durable r st) now retry h c e cid s))"
proof -
  define pss where "pss = map (persisted r st) (u32_rows r (st_sessions st))"
  obtain inflight l where inflight: "hm_get inflight = du_inflight (durable r st)"
    and ok: "loaded_ok inflight now retry l pss"
    and h: "h_next_id h = l_next_raw l" "h_router h = l_router l" "h_sessions h = l_table l"
      "h_timers h = map (\<lambda>(cid, expiry). (cid, 0, from_secs (unat expiry))) (l_to_expire l)"
      "retained_ok (h_retained h)" "retained_look (h_retained h) = du_retained (durable r st)"
    using hub_new_loaded [OF assms(1-4), of mx] assms(5) unfolding pss_def by blast
  have "h_storage h = None \<longleftrightarrow> h_persist h = None" by (simp add: assms(5) hub_new_def Let_def)
  moreover have "table_ok (l_table l) (l_next_raw l)" "router_ok (l_router l)"
      "slots_ok (l_router l) (l_next_raw l)"
    using ok unfolding loaded_ok_def by blast+
  ultimately have "hub_ok h" "slots_ok (h_router h) (h_next_id h)" using h by (simp_all add: hub_ok_def)
  have hm: "hm_ok (u32_rows r (st_sessions st))" by (rule law_distinct [OF redb_parts(2) [OF assms(1,2)]])
  have "hm_get (id_of (h_sessions h)) c \<noteq> None \<longleftrightarrow> c \<in> ps_client_id ` set pss" for c
    using ok h(3) unfolding loaded_ok_def by metis
  then have dom: "hm_get (id_of (h_sessions h)) c \<noteq> None \<longleftrightarrow> du_sessions (durable r st) c \<noteq> None" for c
    by (simp add: pss_def image_image durable_def map_of_eq_None_iff)
  have "\<exists>cid s. session_back (durable r st) now retry h c e cid s"
    if "du_sessions (durable r st) c = Some e" for c e
  proof -
    have "persisted r st (c, e) \<in> set pss"
      using that hm by (force simp: pss_def durable_def map_of_eq_Some_iff)
    then show ?thesis using ok restored_as_back [OF _ inflight h(2-4)] unfolding loaded_ok_def by blast
  qed
  then show ?thesis using \<open>hub_ok h\<close> \<open>slots_ok (h_router h) (h_next_id h)\<close> h(6) dom by blast
qed

text \<open>
  C6. A restart restores the durable sessions. Whatever the disk holds (with packet-id counters as
  running sessions write them), the hub that starts from it satisfies the invariant of the hub, so
  none of its operations panics; it knows exactly the client ids whose session is durable; and each
  such session is offline, has its stored expiry and its purge timer, continues with the stored
  packet-id counter and in-flight queue, and is subscribed to exactly its stored filters, normal and
  shared ones in their own table, at their granted QoS.
\<close>

theorem restart_restores_sessions:
  assumes "redb_laws db r" "redb_total db r"
    and "counters_ok (du_inflight (durable r st)) now retry"
    and "length (u32_rows r (st_sessions st)) + 1 < 2 ^ 64"
    and "h = hub_new db (Some st) retry mx now"
  shows "hub_ok h \<and>
    (\<forall>c. hm_get (id_of (h_sessions h)) c \<noteq> None \<longleftrightarrow> du_sessions (durable r st) c \<noteq> None) \<and>
    (\<forall>c e. du_sessions (durable r st) c = Some e \<longrightarrow>
       (\<exists>cid s. session_back (durable r st) now retry h c e cid s))"
  using hub_new_restores [OF assms] by blast

theorem restart_restores_sessions_witness:
  "\<exists>cid s. hm_get (id_of (h_sessions (hub_new list_db (Some sample_storage) small_retry 0 0))) ''a'' = Some cid \<and>
     hm_get (by_id (h_sessions (hub_new list_db (Some sample_storage) small_retry 0 0))) cid = Some s \<and>
     s_tx s = None \<and> s_expiry_secs s = 60 \<and>
     subs_at (h_router (hub_new list_db (Some sample_storage) small_retry 0 0)) (None, cid, ''t/#'') = Some AtLeastOnce"
proof -
  let ?d = "durable list_view sample_storage"
  have counters: "counters_ok (du_inflight ?d) 0 small_retry"
    by (simp add: counters_ok_def durable_def sample_storage_def empty_storage_def list_view_def)
  have len: "length (u32_rows list_view (st_sessions sample_storage)) + 1 < 2 ^ 64"
    by code_simp
  have d: "du_sessions ?d ''a'' = Some 60" by code_simp
  have sub: "du_subs ?d ''a'' ''t/#'' = Some AtLeastOnce" by code_simp
  have slot: "slot_of ''t/#'' = Some (None, ''t/#'')" by code_simp
  from restart_restores_sessions [OF list_db_laws list_db_total counters len refl, of 0] d
  obtain cid s where "session_back ?d 0 small_retry (hub_new list_db (Some sample_storage) small_retry 0 0) ''a'' 60 cid s"
    by blast
  with slot sub show ?thesis unfolding session_back_def by blast
qed

end
