(* ===== verification/Mirror.thy ===== *)
theory Mirror
  imports Restart
begin

text \<open>
  The disk follows the memory: whatever an operation of the hub changes in the retained store, in a
  durable session, in its queue or in its subscriptions, the writes it queues make the same change
  to the durable state. The state compared with the memory is that of the disk once the queued
  writes are applied.
\<close>

section \<open>What the disk should hold\<close>

definition session_of :: "('s, 'u, 'e) Hub \<Rightarrow> string \<Rightarrow> (ClientId \<times> Session) option" where
  "session_of h c = Option.bind (hm_get (id_of (h_sessions h)) c)
     (\<lambda>cid. map_option (Pair cid) (hm_get (by_id (h_sessions h)) cid))"

text \<open>Of a durable session: its id, its expiry and its queue as it is written.\<close>

definition stored_view :: "('s, 'u, 'e) Hub \<Rightarrow> string \<Rightarrow> (ClientId \<times> u32 \<times> bytes) option" where
  "stored_view h c = (case session_of h c of
     Some (cid, s) \<Rightarrow>
       if 0 < s_expiry_secs s then Some (cid, s_expiry_secs s, encode_inflight s) else None
   | None \<Rightarrow> None)"

text \<open>The granted QoS per subscription text of one client.\<close>

definition subs_text :: "Router \<Rightarrow> ClientId \<Rightarrow> string \<rightharpoonup> QoS" where
  "subs_text r cid raw = (case slot_of raw of None \<Rightarrow> None | Some (grp, f) \<Rightarrow> subs_at r (grp, cid, f))"

text \<open>A session without a stored queue starts with an empty one.\<close>

definition du_blob :: "Durable \<Rightarrow> string \<Rightarrow> bytes" where
  "du_blob d c = (case du_inflight d c of Some blob \<Rightarrow> blob | None \<Rightarrow> encode_queue 1 [])"

definition client_stored :: "Durable \<Rightarrow> Router \<Rightarrow> (ClientId \<times> u32 \<times> bytes) option \<Rightarrow> string \<Rightarrow> bool" where
  "client_stored d r view c \<longleftrightarrow>
     (case view of
        None \<Rightarrow> du_sessions d c = None \<and> du_subs d c = Map.empty \<and> du_inflight d c = None
      | Some (cid, expiry, blob) \<Rightarrow>
          du_sessions d c = Some expiry \<and> du_blob d c = blob \<and> du_subs d c = subs_text r cid)"

definition names_ok :: "('s, 'u, 'e) Hub \<Rightarrow> bool" where
  "names_ok h \<longleftrightarrow> (\<forall>c. hm_get (id_of (h_sessions h)) c \<noteq> None \<longrightarrow> SEP \<notin> set c)"

definition mirrors :: "Durable \<Rightarrow> ('s, 'u, 'e) Hub \<Rightarrow> bool" where
  "mirrors d h \<longleftrightarrow> hub_ok h \<and> h_persist h \<noteq> None \<and> du_retained d = retained_look (h_retained h) \<and>
     slots_ok (h_router h) (h_next_id h) \<and> names_ok h \<and>
     (\<forall>c. client_stored d (h_router h) (stored_view h c) c)"

lemma mirrors_client: "mirrors d h \<Longrightarrow> client_stored d (h_router h) (stored_view h c) c"
  by (simp add: mirrors_def)

lemma mirrorsI:
  assumes "mirrors d h" "hub_ok h'" "h_persist h' \<noteq> None" "du_retained d' = retained_look (h_retained h')"
    "slots_ok (h_router h') (h_next_id h')" "names_ok h'"
    "\<And>c. client_stored d' (h_router h') (stored_view h' c) c"
  shows "mirrors d' h'"
  using assms by (simp add: mirrors_def)

lemma client_stored_cong:
  assumes "du_sessions d' c = du_sessions d c" "du_subs d' c = du_subs d c" "du_inflight d' c = du_inflight d c"
  shows "client_stored d' r view c = client_stored d r view c"
  using assms by (cases view) (auto simp: client_stored_def du_blob_def)

text \<open>An operation leads from \<open>h\<close> to \<open>h'\<close> and queues the writes that keep the disk in step.\<close>

definition tracks :: "('s, 'u, 'e) Hub \<Rightarrow> ('s, 'u, 'e) Hub \<Rightarrow> bool" where
  "tracks h h' \<longleftrightarrow> (\<forall>d. mirrors d h \<longrightarrow> (\<exists>ops. h_storage h' = h_storage h \<and>
     h_persist h' = map_option (\<lambda>q. q @ ops) (h_persist h) \<and> list_all op_ok ops \<and>
     mirrors (foldl durable_apply d ops) h'))"

lemma tracks_refl [simp]: "tracks h h"
  by (auto simp: tracks_def option.map_ident intro!: exI [of _ "[]"])

lemma tracks_trans: "tracks h h1 \<Longrightarrow> tracks h1 h2 \<Longrightarrow> tracks h h2"
proof (unfold tracks_def, intro allI impI)
  fix d
  assume 1: "\<forall>d. mirrors d h \<longrightarrow> (\<exists>ops. h_storage h1 = h_storage h \<and>
      h_persist h1 = map_option (\<lambda>q. q @ ops) (h_persist h) \<and> list_all op_ok ops \<and> mirrors (foldl durable_apply d ops) h1)"
    and 2: "\<forall>d. mirrors d h1 \<longrightarrow> (\<exists>ops. h_storage h2 = h_storage h1 \<and>
      h_persist h2 = map_option (\<lambda>q. q @ ops) (h_persist h1) \<and> list_all op_ok ops \<and> mirrors (foldl durable_apply d ops) h2)"
    and d: "mirrors d h"
  from 1 d obtain ops1 where ops1: "h_storage h1 = h_storage h" "h_persist h1 = map_option (\<lambda>q. q @ ops1) (h_persist h)"
    "list_all op_ok ops1" "mirrors (foldl durable_apply d ops1) h1" by blast
  from 2 ops1(4) obtain ops2 where ops2: "h_storage h2 = h_storage h1" "h_persist h2 = map_option (\<lambda>q. q @ ops2) (h_persist h1)"
    "list_all op_ok ops2" "mirrors (foldl durable_apply (foldl durable_apply d ops1) ops2) h2" by blast
  show "\<exists>ops. h_storage h2 = h_storage h \<and> h_persist h2 = map_option (\<lambda>q. q @ ops) (h_persist h) \<and>
      list_all op_ok ops \<and> mirrors (foldl durable_apply d ops) h2"
    using ops1 ops2 by (intro exI [of _ "ops1 @ ops2"]) (simp add: option.map_comp comp_def)
qed

text \<open>The writes may depend on what the disk mirrors.\<close>

lemma tracksI:
  assumes "\<And>d. mirrors d h \<Longrightarrow> \<exists>ops. h_storage h' = h_storage h \<and>
    h_persist h' = map_option (\<lambda>q. q @ ops) (h_persist h) \<and> list_all op_ok ops \<and> mirrors (foldl durable_apply d ops) h'"
  shows "tracks h h'"
  using assms by (simp add: tracks_def)

lemma mirrors_enqueue [simp]: "mirrors d (enqueue h op) = mirrors d h"
  by (simp add: mirrors_def names_ok_def stored_view_def session_of_def)

lemma tracks_op:
  assumes "h_storage h1 = h_storage h" "h_persist h1 = h_persist h"
    and "\<And>d. mirrors d h \<Longrightarrow> op_ok op \<and> mirrors (durable_apply d op) h1"
  shows "tracks h (enqueue h1 op)"
proof (rule tracksI)
  fix d
  assume "mirrors d h"
  from assms(3) [OF this] assms(1,2) show "\<exists>ops. h_storage (enqueue h1 op) = h_storage h \<and>
      h_persist (enqueue h1 op) = map_option (\<lambda>q. q @ ops) (h_persist h) \<and> list_all op_ok ops \<and>
      mirrors (foldl durable_apply d ops) (enqueue h1 op)"
    by (intro exI [of _ "[op]"]) simp
qed

lemma tracks_quiet:
  assumes "h_storage h' = h_storage h" "h_persist h' = h_persist h" "\<And>d. mirrors d h \<Longrightarrow> mirrors d h'"
  shows "tracks h h'"
  using assms by (auto simp: tracks_def option.map_ident intro!: exI [of _ "[]"])

section \<open>Sessions\<close>

lemma encode_inflight_nonempty [simp]: "encode_inflight s \<noteq> []" "[] \<noteq> encode_inflight s"
proof -
  show "encode_inflight s \<noteq> []" by (simp add: encode_inflight_def encode_queue_concat flip: length_0_conv)
  then show "[] \<noteq> encode_inflight s" by (rule not_sym)
qed

lemma session_of_iff:
  assumes "hub_ok h"
  shows "session_of h c = Some (cid, s) \<longleftrightarrow> hm_get (by_id (h_sessions h)) cid = Some s \<and> s_client_id s = c"
proof -
  have "table_ok (h_sessions h) (h_next_id h)" using assms by (simp add: hub_ok_def)
  then have "hm_get (id_of (h_sessions h)) c = Some cid \<longleftrightarrow>
      (\<exists>s. hm_get (by_id (h_sessions h)) cid = Some s \<and> s_client_id s = c)" for cid
    unfolding table_ok_def by blast
  then show ?thesis by (auto simp: session_of_def bind_eq_Some_conv)
qed

lemma session_of_known:
  assumes "hub_ok h" shows "session_of h c = None \<longleftrightarrow> hm_get (id_of (h_sessions h)) c = None"
proof -
  have "table_ok (h_sessions h) (h_next_id h)" using assms by (simp add: hub_ok_def)
  then have "hm_get (id_of (h_sessions h)) c = Some cid \<Longrightarrow> hm_get (by_id (h_sessions h)) cid \<noteq> None" for cid
    unfolding table_ok_def by blast
  then show ?thesis by (cases "hm_get (id_of (h_sessions h)) c") (auto simp: session_of_def)
qed

lemma names_ok_iff: "hub_ok h \<Longrightarrow> names_ok h \<longleftrightarrow> (\<forall>c. session_of h c \<noteq> None \<longrightarrow> SEP \<notin> set c)"
  by (simp add: names_ok_def session_of_known)

lemma option_pair_eqI: "(\<And>x y. a = Some (x, y) \<longleftrightarrow> b = Some (x, y)) \<Longrightarrow> a = b"
  by (metis option.exhaust prod.exhaust)

lemma session_of_eqI:
  assumes "hub_ok h" "hub_ok h'"
    and "\<And>cid s. hm_get (by_id (h_sessions h')) cid = Some s \<and> s_client_id s = c \<longleftrightarrow>
      hm_get (by_id (h_sessions h)) cid = Some s \<and> s_client_id s = c"
  shows "session_of h' c = session_of h c"
  by (rule option_pair_eqI) (simp add: session_of_iff assms)

lemma mirrors_name: "mirrors d h \<Longrightarrow> hm_get (by_id (h_sessions h)) cid = Some s \<Longrightarrow> SEP \<notin> set (s_client_id s)"
  using table_ok_index [of "h_sessions h" "h_next_id h" cid s]
  by (auto simp: mirrors_def names_ok_def hub_ok_def)

lemma session_of_put:
  assumes "hub_ok h" "hub_ok (put_session_at h cid so)" "hm_get (by_id (h_sessions h)) cid = Some s"
    "s_client_id (fst so) = s_client_id s"
  shows "session_of (put_session_at h cid so) c =
    (if c = s_client_id s then Some (cid, fst so) else session_of h c)"
proof (cases "c = s_client_id s")
  case True
  then show ?thesis using assms by (simp add: session_of_iff update_conv')
next
  case False
  then have "session_of (put_session_at h cid so) c = session_of h c"
    by (intro session_of_eqI [OF assms(1,2)]) (use assms(3,4) in \<open>auto simp: update_conv' split: if_splits\<close>)
  with False show ?thesis by simp
qed

text \<open>What is written of a session that changes.\<close>

definition snapshot_ops :: "Session \<Rightarrow> PersistOp list" where
  "snapshot_ops s = (if 0 < s_expiry_secs s then [PutInflight (s_client_id s) (encode_inflight s)] else [])"

lemma mirrors_put:
  assumes m: "mirrors d h" and get: "hm_get (by_id (h_sessions h)) cid = Some s"
    and s': "session_ok (fst so)" "s_client_id (fst so) = s_client_id s"
      "s_expiry_secs (fst so) = s_expiry_secs s" "s_generation (fst so) = s_generation s"
  shows "list_all op_ok (snapshot_ops (fst so))"
    and "mirrors (foldl durable_apply d (snapshot_ops (fst so))) (put_session_at h cid so)"
    and "encode_inflight (fst so) = encode_inflight s \<Longrightarrow> mirrors d (put_session_at h cid so)"
proof -
  have ok: "hub_ok h" using m by (simp add: mirrors_def)
  have ok': "hub_ok (put_session_at h cid so)"
    by (rule hub_ok_put_session_at [OF ok get]) (use s' hub_ok_session [OF ok get] in auto)
  have old: "session_of h (s_client_id s) = Some (cid, s)" using ok get by (simp add: session_of_iff)
  have view: "stored_view (put_session_at h cid so) c = (if c = s_client_id s then
      if 0 < s_expiry_secs s then Some (cid, s_expiry_secs s, encode_inflight (fst so)) else None
    else stored_view h c)" for c
    using s' by (simp add: stored_view_def session_of_put [OF ok ok' get])
  have own: "client_stored d (h_router h) (if 0 < s_expiry_secs s then
      Some (cid, s_expiry_secs s, encode_inflight s) else None) (s_client_id s)"
    using mirrors_client [OF m, of "s_client_id s"] by (simp add: stored_view_def old)
  have base: "h_persist (put_session_at h cid so) \<noteq> None" "names_ok (put_session_at h cid so)"
    "slots_ok (h_router (put_session_at h cid so)) (h_next_id (put_session_at h cid so))"
    "du_retained d = retained_look (h_retained (put_session_at h cid so))"
    using m by (simp_all add: mirrors_def names_ok_def)
  show "list_all op_ok (snapshot_ops (fst so))"
    using mirrors_name [OF m get] s' by (simp add: snapshot_ops_def)
  show "mirrors (foldl durable_apply d (snapshot_ops (fst so))) (put_session_at h cid so)"
  proof (rule mirrorsI [OF m ok' base(1) _ base(3,2)])
    fix c
    show "client_stored (foldl durable_apply d (snapshot_ops (fst so))) (h_router (put_session_at h cid so))
        (stored_view (put_session_at h cid so) c) c"
    proof (cases "c = s_client_id s")
      case True
      with own s' show ?thesis by (auto simp: view snapshot_ops_def client_stored_def du_blob_def)
    next
      case False
      with mirrors_client [OF m, of c] s' show ?thesis
        by (simp add: view snapshot_ops_def client_stored_cong [of "d\<lparr>du_inflight := _\<rparr>"])
    qed
  qed (use base in \<open>simp add: snapshot_ops_def\<close>)
  show "mirrors d (put_session_at h cid so)" if "encode_inflight (fst so) = encode_inflight s"
  proof (rule mirrorsI [OF m ok' base(1,4,3,2)])
    show "client_stored d (h_router (put_session_at h cid so)) (stored_view (put_session_at h cid so) c) c" for c
      using own mirrors_client [OF m, of c] that by (cases "c = s_client_id s") (simp_all add: view split: if_splits)
  qed
qed

lemma write_snapshot_ops:
  assumes "h_storage h1 \<noteq> None"
  shows "h_persist (write_snapshot h (snapshot_inflight h1 s)) = map_option (\<lambda>q. q @ snapshot_ops s) (h_persist h)"
    and "h_storage (write_snapshot h (snapshot_inflight h1 s)) = h_storage h"
    and "mirrors d (write_snapshot h (snapshot_inflight h1 s)) = mirrors d h"
  using assms
  by (simp_all add: write_snapshot_def snapshot_inflight_def snapshot_ops_def write_inflight_def option.map_ident
      mirrors_def names_ok_def stored_view_def session_of_def)

lemma mirrors_storage: "mirrors d h \<Longrightarrow> h_storage h \<noteq> None"
  by (auto simp: mirrors_def hub_ok_def)

text \<open>A session is replaced and its snapshot is queued.\<close>

lemma tracks_put_snapshot:
  assumes get: "hm_get (by_id (h_sessions h)) cid = Some s"
    and s': "hub_ok h \<Longrightarrow> session_ok (fst so)" "s_client_id (fst so) = s_client_id s"
      "s_expiry_secs (fst so) = s_expiry_secs s" "s_generation (fst so) = s_generation s"
  shows "tracks h (write_snapshot (put_session_at h cid so) (snapshot_inflight (put_session_at h cid so) (fst so)))"
proof (rule tracksI)
  fix d
  assume d: "mirrors d h"
  then have ok: "session_ok (fst so)" using s'(1) by (simp add: mirrors_def)
  have st: "h_storage (put_session_at h cid so) \<noteq> None" using mirrors_storage [OF d] by simp
  from mirrors_put(1,2) [OF d get ok s'(2-4)] show "\<exists>ops.
      h_storage (write_snapshot (put_session_at h cid so) (snapshot_inflight (put_session_at h cid so) (fst so))) = h_storage h \<and>
      h_persist (write_snapshot (put_session_at h cid so) (snapshot_inflight (put_session_at h cid so) (fst so))) =
        map_option (\<lambda>q. q @ ops) (h_persist h) \<and> list_all op_ok ops \<and>
      mirrors (foldl durable_apply d ops)
        (write_snapshot (put_session_at h cid so) (snapshot_inflight (put_session_at h cid so) (fst so)))"
    by (intro exI [of _ "snapshot_ops (fst so)"]) (simp add: write_snapshot_ops [OF st])
qed

lemma tracks_put_same:
  assumes get: "hm_get (by_id (h_sessions h)) cid = Some s"
    and s': "hub_ok h \<Longrightarrow> session_ok (fst so)" "s_client_id (fst so) = s_client_id s"
      "s_expiry_secs (fst so) = s_expiry_secs s" "s_generation (fst so) = s_generation s"
    and same: "encode_inflight (fst so) = encode_inflight s"
  shows "tracks h (put_session_at h cid so)"
proof (rule tracks_quiet)
  fix d
  assume "mirrors d h"
  then show "mirrors d (put_session_at h cid so)"
    using s' same by (intro mirrors_put(3) [OF _ get]) (simp_all add: mirrors_def)
qed simp_all

section \<open>Publishing\<close>

lemma tracks_enqueue:
  assumes "op_ok op" "\<And>d. durable_apply d op = d" shows "tracks h (enqueue h op)"
  using assms by (intro tracks_op) simp_all

lemma stored_view_cong:
  assumes "h_sessions h' = h_sessions h"
  shows "stored_view h' c = stored_view h c" "names_ok h' = names_ok h"
  using assms by (simp_all add: stored_view_def session_of_def names_ok_def)

lemma subs_at_route: "subs_at (snd (route r t)) = subs_at r"
  by (auto simp: subs_at_def fun_eq_iff split: option.split)

lemma subs_at_cong:
  assumes "subs_at r' = subs_at r"
  shows "slots_ok r' n = slots_ok r n" "client_stored d r' view c = client_stored d r view c"
proof -
  have texts: "subs_text r' = subs_text r" by (intro ext) (simp only: subs_text_def assms)
  show "slots_ok r' n = slots_ok r n" "client_stored d r' view c = client_stored d r view c"
    unfolding slots_ok_def client_stored_def assms texts by (rule refl)+
qed

lemma tracks_route:
  assumes "route (h_router h) t = (targets, router)" shows "tracks h (h\<lparr>h_router := router\<rparr>)"
proof (rule tracks_quiet)
  fix d
  assume d: "mirrors d h"
  have router: "router = snd (route (h_router h) t)" using assms by simp
  have "hub_ok (h\<lparr>h_router := router\<rparr>)"
    using d by (intro hub_ok_router) (simp_all add: router mirrors_def hub_ok_def)
  moreover have "subs_at router = subs_at (h_router h)" unfolding router by (rule subs_at_route)
  ultimately show "mirrors d (h\<lparr>h_router := router\<rparr>)"
    using d by (simp add: mirrors_def stored_view_cong [of "h\<lparr>h_router := router\<rparr>" h] subs_at_cong [of router "h_router h"])
qed simp_all

lemma tracks_retain:
  "tracks h (enqueue (h\<lparr>h_retained := retained_apply (h_retained h)
      \<lparr>m_topic = topic, m_payload = payload, m_qos = qos, m_retain = True\<rparr>\<rparr>) (PutRetained topic payload qos))"
proof (rule tracks_op)
  fix d
  let ?m = "\<lparr>m_topic = topic, m_payload = payload, m_qos = qos, m_retain = True\<rparr>"
  let ?h = "h\<lparr>h_retained := retained_apply (h_retained h) ?m\<rparr>"
  assume d: "mirrors d h"
  then have ok: "retained_ok (h_retained h)" by (simp add: mirrors_def hub_ok_def)
  from mem_store.look_put [OF ok, of "(topic, payload, qos)"]
  have "retained_look (retained_apply (h_retained h) ?m) = last_value_write (retained_look (h_retained h)) (topic, payload, qos)"
    by (simp add: retained_put_def)
  moreover have "hub_ok ?h" using d by (simp add: mirrors_def hub_ok_def)
  ultimately show "op_ok (PutRetained topic payload qos) \<and> mirrors (durable_apply d (PutRetained topic payload qos)) ?h"
    using d by (auto simp: mirrors_def stored_view_cong [of ?h h] intro: client_stored_cong [THEN iffD2])
qed simp_all

lemma deliver_same:
  "deliver s topic payload AtMostOnce retain now cfg = Some so \<Longrightarrow> encode_inflight (fst so) = encode_inflight s"
  by (auto simp: deliver_def Let_def)

definition put_inflights :: "(string \<times> bytes) list \<Rightarrow> PersistOp list" where
  "put_inflights bs = map (\<lambda>(c, blob). PutInflight c blob) bs"

lemma snapshot_inflight_ops:
  "h_storage h \<noteq> None \<Longrightarrow>
     put_inflights (case snapshot_inflight h s of Some b \<Rightarrow> [b] | None \<Rightarrow> []) = snapshot_ops s"
  by (simp add: snapshot_inflight_def snapshot_ops_def put_inflights_def)

lemma put_inflights_simps [simp]:
  "put_inflights [] = []" "put_inflights (bs @ bs') = put_inflights bs @ put_inflights bs'"
  by (simp_all add: put_inflights_def)

lemma deliver_targets_mirrors:
  assumes "mirrors d h" "deliver_targets h topic payload qos now targets = Some (h', bs, n)"
  shows "h_storage h' = h_storage h \<and> h_persist h' = h_persist h \<and> list_all op_ok (put_inflights bs) \<and>
    mirrors (foldl durable_apply d (put_inflights bs)) h'"
  using assms
proof (induction targets arbitrary: d h bs n)
  case (Cons target targets)
  obtain cid granted where target: "target = (cid, granted)" by fastforce
  show ?case
  proof (cases "hm_get (by_id (h_sessions h)) cid")
    case None
    with Cons target show ?thesis by simp
  next
    case (Some s)
    have ok: "hub_ok h" using Cons.prems(1) by (simp add: mirrors_def)
    let ?q = "min qos granted"
    obtain s' out where so: "deliver s topic payload ?q False now (h_retry h) = Some (s', out)" and
      s': "session_ok s'" "s_client_id s' = s_client_id s" "s_expiry_secs s' = s_expiry_secs s"
        "s_generation s' = s_generation s"
      using deliver_ok hub_ok_session [OF ok Some] by metis
    let ?h = "put_session_at h cid (s', out)"
    define b where "b = (if ?q \<noteq> AtMostOnce then case snapshot_inflight ?h s' of Some b \<Rightarrow> [b] | None \<Rightarrow> [] else [])"
    from Cons.prems(2) Some so target obtain bs' n' where rest:
      "deliver_targets ?h topic payload qos now targets = Some (h', bs', n')" "bs = b @ bs'"
      by (auto simp: Let_def b_def bind_eq_Some_conv cong: if_cong split: if_splits)
    have st: "h_storage ?h \<noteq> None" using mirrors_storage [OF Cons.prems(1)] by simp
    have step: "list_all op_ok (put_inflights b) \<and> mirrors (foldl durable_apply d (put_inflights b)) ?h"
    proof (cases "?q = AtMostOnce")
      case True
      with so have "encode_inflight s' = encode_inflight s" using deliver_same by fastforce
      with True mirrors_put(3) [OF Cons.prems(1) Some, of "(s', out)"] s' show ?thesis by (simp add: b_def)
    next
      case False
      with mirrors_put(1,2) [OF Cons.prems(1) Some, of "(s', out)"] s' show ?thesis
        by (simp add: b_def snapshot_inflight_ops [OF st])
    qed
    from Cons.IH [OF conjunct2 [OF step] rest(1)] step rest(2) show ?thesis by simp
  qed
qed simp

lemma foldl_write_inflight:
  "h_persist (foldl write_inflight h bs) = map_option (\<lambda>q. q @ put_inflights bs) (h_persist h) \<and>
   h_storage (foldl write_inflight h bs) = h_storage h \<and>
   mirrors d (foldl write_inflight h bs) = mirrors d h"
proof (induction bs arbitrary: h)
  case (Cons b bs)
  have one: "h_persist (write_inflight h b) = map_option (\<lambda>q. q @ put_inflights [b]) (h_persist h)"
    by (simp add: write_inflight_def put_inflights_def case_prod_beta)
  have "mirrors d (write_inflight h b) = mirrors d h"
    by (simp add: mirrors_def one stored_view_cong [of "write_inflight h b" h])
  with Cons one show ?case by (simp add: option.map_comp comp_def put_inflights_def)
qed (simp_all add: option.map_ident)

lemma tracks_deliver_targets:
  assumes "deliver_targets h topic payload qos now targets = Some (h', bs, n)"
  shows "tracks h (foldl write_inflight h' bs)"
proof (rule tracksI)
  fix d
  assume "mirrors d h"
  from deliver_targets_mirrors [OF this assms] show "\<exists>ops. h_storage (foldl write_inflight h' bs) = h_storage h \<and>
      h_persist (foldl write_inflight h' bs) = map_option (\<lambda>q. q @ ops) (h_persist h) \<and> list_all op_ok ops \<and>
      mirrors (foldl durable_apply d ops) (foldl write_inflight h' bs)"
    by (intro exI [of _ "put_inflights bs"]) (simp add: foldl_write_inflight)
qed

lemma tracks_publish:
  assumes "publish h topic payload qos retain now ts = Some (n, h')" shows "tracks h h'"
proof -
  define h1 where "h1 = (if retain then
      enqueue (h\<lparr>h_retained := retained_apply (h_retained h)
          \<lparr>m_topic = topic, m_payload = payload, m_qos = qos, m_retain = True\<rparr>\<rparr>)
        (PutRetained topic payload qos)
    else h)"
  define h2 where "h2 = (if 0 < h_event_log_max h1 \<and> \<not> starts_with ''$'' topic then
      enqueue h1 (AppendEvent (encode_event ts topic (qos_as_u8 qos) payload) (h_event_log_max h1))
    else h1)"
  obtain targets router where route: "route (h_router h2) topic = (targets, router)" by fastforce
  define h3 where "h3 = h2\<lparr>h_router := router\<rparr>"
  have "tracks h h1" by (simp add: h1_def tracks_retain)
  moreover have "tracks h1 h2" by (simp add: h2_def tracks_enqueue)
  moreover have "tracks h2 h3" unfolding h3_def by (rule tracks_route [OF route])
  moreover have "tracks h3 h'"
    using assms route by (auto simp: publish_def Let_def h1_def [symmetric] h2_def [symmetric] h3_def [symmetric]
        bind_eq_Some_conv tracks_deliver_targets split: if_splits)
  ultimately show ?thesis by (blast intro: tracks_trans)
qed

lemma tracks_dead_letter:
  assumes "dead_letter h c msg reason now ts = Some h'" shows "tracks h h'"
proof -
  have "tracks h (if h_persist h \<noteq> None then enqueue h (AppendDeadLetter blob) else h)" for blob
    by (simp add: tracks_enqueue)
  then show ?thesis
    using assms by (auto simp: dead_letter_def Let_def split: if_splits intro: tracks_trans tracks_publish)
qed

lemma tracks_dead_letter_all: "dead_letter_all h dead reason now ts = Some h' \<Longrightarrow> tracks h h'"
proof (induction dead arbitrary: h)
  case (Cons x dead)
  then show ?case by (cases x) (auto simp: bind_eq_Some_conv intro: tracks_trans tracks_dead_letter)
qed simp

section \<open>Detaching and expiry\<close>

lemma mirrors_cong:
  assumes "mirrors d h" "hub_ok h'" "h_persist h' \<noteq> None" "h_retained h' = h_retained h" "h_router h' = h_router h"
    "h_next_id h' = h_next_id h" "session_of h' = session_of h"
  shows "mirrors d h'"
proof -
  have "hub_ok h" using assms(1) by (simp add: mirrors_def)
  have "stored_view h' = stored_view h" using assms(7) by (simp add: stored_view_def fun_eq_iff)
  moreover have "names_ok h' = names_ok h"
    using session_of_known [OF \<open>hub_ok h\<close>] session_of_known [OF assms(2)] assms(7) by (simp add: names_ok_def)
  ultimately show ?thesis using assms by (simp add: mirrors_def)
qed

lemma subs_at_remove_client:
  "router_ok r \<Longrightarrow> subs_at (remove_client r cid) (grp, c, f) = (if c = cid then None else subs_at r (grp, c, f))"
  by (auto simp: subs_at_def split: option.split)

lemma subs_text_remove_client: "router_ok r \<Longrightarrow> c \<noteq> cid \<Longrightarrow> subs_text (remove_client r cid) c = subs_text r c"
  by (intro ext) (auto simp: subs_text_def subs_at_remove_client split: option.split)

lemma discard_sel:
  "h_storage (discard h cid) = h_storage h" "h_retained (discard h cid) = h_retained h"
  "h_router (discard h cid) = remove_client (h_router h) cid" "h_next_id (discard h cid) = h_next_id h"
  "by_id (h_sessions (discard h cid)) = hm_remove cid (by_id (h_sessions h))"
  "generation (h_sessions (discard h cid)) = generation (h_sessions h)"
  "h_timers (discard h cid) = h_timers h"
  "h_persist (discard h cid) = (case hm_get (by_id (h_sessions h)) cid of
     Some s \<Rightarrow> map_option (\<lambda>q. q @ [RemoveSession (s_client_id s)]) (h_persist h) | None \<Rightarrow> h_persist h)"
  by (simp_all add: discard_def Let_def split: option.split)

lemma session_of_discard:
  assumes "hub_ok h"
  shows "session_of (discard h cid) c = (case session_of h c of
     Some (x, s) \<Rightarrow> if x = cid then None else Some (x, s) | None \<Rightarrow> None)"
proof -
  have "session_of (discard h cid) c = Some (x, s) \<longleftrightarrow> session_of h c = Some (x, s) \<and> x \<noteq> cid" for x s
    using session_of_iff [OF assms] session_of_iff [OF hub_ok_discard [OF assms]]
    by (auto simp: discard_sel delete_conv')
  then show ?thesis by (intro option_pair_eqI) (auto split: option.split)
qed

lemma tracks_discard: "tracks h (discard h cid)"
proof (rule tracksI)
  fix d
  assume d: "mirrors d h"
  then have ok: "hub_ok h" and router: "router_ok (h_router h)" by (simp_all add: mirrors_def hub_ok_def)
  note iff = session_of_iff [OF ok]
  define ops where "ops = (case hm_get (by_id (h_sessions h)) cid of
    Some s \<Rightarrow> [RemoveSession (s_client_id s)] | None \<Rightarrow> [])"
  let ?d = "foldl durable_apply d ops" and ?h = "discard h cid"
  have client: "client_stored ?d (h_router ?h) (stored_view ?h c) c" for c
  proof (cases "\<exists>s. session_of h c = Some (cid, s)")
    case True
    then obtain s where s: "session_of h c = Some (cid, s)" by blast
    with iff have "ops = [RemoveSession c]" by (simp add: ops_def)
    with s show ?thesis by (simp add: stored_view_def session_of_discard [OF ok] client_stored_def)
  next
    case False
    then have view: "stored_view ?h c = stored_view h c" "x \<noteq> cid" if "stored_view h c = Some (x, y)" for x y
      using that by (auto simp: stored_view_def session_of_discard [OF ok] split: option.splits if_splits)
    have view_None: "stored_view ?h c = None" if "stored_view h c = None"
      using that by (auto simp: stored_view_def session_of_discard [OF ok] split: option.splits if_splits)
    have "s_client_id s \<noteq> c" if "hm_get (by_id (h_sessions h)) cid = Some s" for s
      using False iff that by blast
    then have "du_sessions ?d c = du_sessions d c" "du_subs ?d c = du_subs d c" "du_inflight ?d c = du_inflight d c"
      by (auto simp: ops_def split: option.split)
    then have "client_stored ?d (h_router h) (stored_view h c) c"
      using mirrors_client [OF d, of c] client_stored_cong by blast
    with view view_None show ?thesis
      by (cases "stored_view h c") (auto simp: client_stored_def discard_sel subs_text_remove_client [OF router])
  qed
  have "mirrors ?d ?h"
  proof (rule mirrorsI [OF d hub_ok_discard [OF ok]])
    show "h_persist ?h \<noteq> None" using d by (simp add: mirrors_def discard_sel split: option.split)
    show "slots_ok (h_router ?h) (h_next_id ?h)"
      using d by (auto simp: mirrors_def slots_ok_def discard_sel subs_at_remove_client [OF router])
    show "names_ok ?h"
      using d by (auto simp: mirrors_def names_ok_iff hub_ok_discard session_of_discard [OF ok] split: option.splits)
    show "du_retained ?d = retained_look (h_retained ?h)"
      using d by (simp add: mirrors_def discard_sel ops_def split: option.split)
  qed (rule client)
  moreover have "list_all op_ok ops" using mirrors_name [OF d, of cid] by (simp add: ops_def split: option.split)
  ultimately show "\<exists>ops. h_storage ?h = h_storage h \<and> h_persist ?h = map_option (\<lambda>q. q @ ops) (h_persist h) \<and>
      list_all op_ok ops \<and> mirrors (foldl durable_apply d ops) ?h"
    by (intro exI [of _ ops]) (simp add: discard_sel ops_def option.map_ident split: option.split)
qed

lemma tracks_timers: "tracks h (h\<lparr>h_timers := t\<rparr>)"
  by (rule tracks_quiet) (auto simp: session_of_def mirrors_def names_ok_def stored_view_def [abs_def])

lemma tracks_outbox: "tracks h (h\<lparr>h_outbox := t\<rparr>)"
  by (rule tracks_quiet) (auto simp: session_of_def mirrors_def names_ok_def stored_view_def [abs_def])

lemma tracks_detach: "tracks h (detach h cid gen)"
proof (cases "hm_get (by_id (h_sessions h)) cid")
  case (Some s)
  have "tracks h (put_session_at h cid (session_detach s, []))"
    by (rule tracks_put_same [OF Some])
      (use hub_ok_session [OF _ Some] in \<open>auto simp: session_ok_detach session_detach_def [of s] encode_inflight_def session_ok_def\<close>)
  with Some show ?thesis
    by (auto simp: detach_def Let_def intro: tracks_trans tracks_discard tracks_timers)
qed (simp add: detach_def)

lemma discard_put:
  assumes "hm_get (by_id (h_sessions h)) cid = Some s" "s_client_id s' = s_client_id s"
  shows "discard (put_session_at h cid (s', [])) cid = discard h cid"
proof -
  have "hm_remove cid (hm_insert cid s' m) = hm_remove cid m" for m :: "(ClientId, Session) hash_map"
    by (induction m) auto
  with assms show ?thesis by (simp add: discard_def put_session_at_def update_conv' Let_def)
qed

lemma tracks_purge:
  assumes "purge_if_idle h cid gen now ts = Some h'" shows "tracks h h'"
proof (cases "hm_get (by_id (h_sessions h)) cid")
  case (Some s)
  have "discard (put_session_at h cid (snd (drain_undelivered s), [])) cid = discard h cid"
    by (rule discard_put [OF Some]) (simp add: drain_undelivered_def)
  with Some assms show ?thesis
    by (auto simp: purge_if_idle_def split: if_splits prod.splits
        intro: tracks_trans [OF tracks_discard] tracks_dead_letter_all)
qed (use assms in \<open>simp add: purge_if_idle_def\<close>)

end
