(* ===== verification/Mirror_Ops.thy ===== *)
theory Mirror_Ops
  imports Mirror
begin

text \<open>
  The remaining operations keep the disk in step as well: the retry timer, connecting,
  subscriptions, retained delivery, acknowledgements, and the worker itself.
\<close>

section \<open>The retry timer\<close>

definition tick_changed :: "Instant \<Rightarrow> RetryConfig \<Rightarrow> Session \<Rightarrow> bool" where
  "tick_changed now cfg s \<longleftrightarrow> s_tx s \<noteq> None \<and> snd (fst (tick_retries s now cfg))"

lemma ticked_same: "\<not> tick_changed now cfg s \<Longrightarrow> encode_inflight (ticked now cfg s) = encode_inflight s"
proof -
  assume "\<not> tick_changed now cfg s"
  then have "s_tx s \<noteq> None \<Longrightarrow> \<not> list_ex (due now) (s_inflight s)"
    using tick_loop_spec [of now cfg "[]" "s_inflight s" "[]" "[]" False]
    by (simp add: tick_changed_def tick_retries_def)
  then have "s_tx s \<noteq> None \<Longrightarrow> map (bump now cfg) (filter (\<lambda>e. \<not> (due now e \<and> exhausted cfg e)) (s_inflight s)) = s_inflight s"
    by (subst filter_True) (auto simp: list_ex_iff bump_def intro!: map_idI)
  then show ?thesis
    using tick_loop_spec [of now cfg "[]" "s_inflight s" "[]" "[]" False]
    by (simp add: ticked_def tick_retries_def encode_inflight_def)
qed

lemma retries_loop_blobs:
  "fst (snd (snd (retries_loop h now m))) =
     List.map_filter (\<lambda>(cid, s). if tick_changed now (h_retry h) s then snapshot_inflight h (ticked now (h_retry h) s)
       else None) m"
proof (induction m)
  case (Cons e m)
  obtain cid s where "e = (cid, s)" by fastforce
  with Cons show ?case
    by (auto simp: tick_changed_def ticked_def Let_def map_filter_simps split: prod.split option.split)
qed (simp add: map_filter_simps)

lemma foldl_put_inflights:
  assumes "\<forall>(c, blob) \<in> set bs. blob = B c \<and> blob \<noteq> []"
  shows "du_inflight (foldl durable_apply d (put_inflights bs)) c =
      (if c \<in> fst ` set bs then Some (B c) else du_inflight d c) \<and>
    du_sessions (foldl durable_apply d (put_inflights bs)) = du_sessions d \<and>
    du_subs (foldl durable_apply d (put_inflights bs)) = du_subs d \<and>
    du_retained (foldl durable_apply d (put_inflights bs)) = du_retained d"
  using assms
proof (induction bs rule: rev_induct)
  case (snoc b bs)
  obtain c' blob where b: "b = (c', blob)" by fastforce
  with snoc.prems snoc.IH show ?case by (auto simp: put_inflights_def)
qed simp

lemma tracks_ticked:
  assumes loop: "retries_loop h now (by_id (h_sessions h)) = (table, dead, bs, out)"
  shows "tracks h (foldl write_inflight (h\<lparr>h_sessions := (h_sessions h)\<lparr>by_id := table\<rparr>, h_outbox := h_outbox h @ out\<rparr>) bs)"
    (is "tracks h (foldl write_inflight ?h bs)")
proof (rule tracksI)
  fix d
  assume d: "mirrors d h"
  let ?t = "ticked now (h_retry h)"
  have ok: "hub_ok h" and st: "h_storage h \<noteq> None" using d mirrors_storage [OF d] by (simp_all add: mirrors_def)
  have table: "table = map (\<lambda>(cid, s). (cid, ?t s)) (by_id (h_sessions h))"
    using retries_loop_table [of h now "by_id (h_sessions h)"] loop by simp
  have get: "hm_get table cid = map_option ?t (hm_get (by_id (h_sessions h)) cid)" for cid
    unfolding table by (rule hm_get_map_snd)
  have hm: "hm_ok (by_id (h_sessions h))" using ok by (simp add: hub_ok_def table_ok_def)
  have "hm_ok table" using hm by (simp add: table comp_def case_prod_beta)
  then have ok': "hub_ok ?h" using ok get by (auto simp: hub_ok_def table_ok_def)
  have sess: "session_of ?h c = map_option (\<lambda>(cid, s). (cid, ?t s)) (session_of h c)" for c
    by (simp add: session_of_def get option.map_comp comp_def Option.bind_map_option map_option_bind)
  define B where "B c = (case session_of h c of Some (cid, s) \<Rightarrow> encode_inflight (?t s) | None \<Rightarrow> [])" for c
  have bs: "(c, blob) \<in> set bs \<longleftrightarrow> (\<exists>cid s. session_of h c = Some (cid, s) \<and> tick_changed now (h_retry h) s \<and>
      0 < s_expiry_secs s \<and> blob = encode_inflight (?t s))" for c blob
  proof -
    have "(c, blob) \<in> set bs \<longleftrightarrow> (\<exists>cid s. (cid, s) \<in> set (by_id (h_sessions h)) \<and> tick_changed now (h_retry h) s \<and>
        snapshot_inflight h (?t s) = Some (c, blob))"
      using retries_loop_blobs [of h now "by_id (h_sessions h)"] loop by (force simp: set_map_filter split: if_splits)
    with st show ?thesis
      by (auto simp: session_of_iff [OF ok] hm_get_iff_mem [OF hm] snapshot_inflight_def)
  qed
  have B: "\<forall>(c, blob) \<in> set bs. blob = B c \<and> blob \<noteq> []" by (auto simp: bs B_def)
  let ?d = "foldl durable_apply d (put_inflights bs)"
  have client: "client_stored ?d (h_router h) (stored_view ?h c) c" for c
  proof (cases "session_of h c")
    case None
    then have "c \<notin> fst ` set bs" by (force simp: bs)
    with None mirrors_client [OF d, of c] foldl_put_inflights [OF B, of d c] show ?thesis
      by (simp add: stored_view_def sess client_stored_def)
  next
    case (Some p)
    obtain cid s where p: "p = (cid, s)" by fastforce
    have mem: "c \<in> fst ` set bs \<longleftrightarrow> tick_changed now (h_retry h) s \<and> 0 < s_expiry_secs s"
    proof -
      have "c \<in> fst ` set bs \<longleftrightarrow> (\<exists>blob. (c, blob) \<in> set bs)" by force
      with Some p show ?thesis by (auto simp: bs)
    qed
    from Some p have view: "stored_view ?h c = (if 0 < s_expiry_secs s then Some (cid, s_expiry_secs s, encode_inflight (?t s)) else None)"
      "stored_view h c = (if 0 < s_expiry_secs s then Some (cid, s_expiry_secs s, encode_inflight s) else None)"
      by (simp_all add: stored_view_def sess)
    show ?thesis
      using mirrors_client [OF d, of c] foldl_put_inflights [OF B, of d c] mem Some p ticked_same [of now "h_retry h" s]
      by (cases "tick_changed now (h_retry h) s") (auto simp: view client_stored_def du_blob_def B_def split: if_splits)
  qed
  have "mirrors ?d ?h"
  proof (rule mirrorsI [OF d ok'])
    show "names_ok ?h" using d by (simp add: mirrors_def names_ok_def)
  qed (use d client foldl_put_inflights [OF B, of d] in \<open>auto simp: mirrors_def\<close>)
  moreover have "list_all op_ok (put_inflights bs)"
    using mirrors_name [OF d] by (auto simp: put_inflights_def list_all_iff bs session_of_iff [OF ok])
  ultimately show "\<exists>ops. h_storage (foldl write_inflight ?h bs) = h_storage h \<and>
      h_persist (foldl write_inflight ?h bs) = map_option (\<lambda>q. q @ ops) (h_persist h) \<and> list_all op_ok ops \<and>
      mirrors (foldl durable_apply d ops) (foldl write_inflight ?h bs)"
    by (intro exI [of _ "put_inflights bs"]) (simp add: foldl_write_inflight)
qed

lemma tracks_run_retries:
  assumes "run_retries h now ts = Some h'" shows "tracks h h'"
proof -
  obtain table dead bs out where loop: "retries_loop h now (by_id (h_sessions h)) = (table, dead, bs, out)"
    by (metis prod_cases4)
  with assms show ?thesis
    by (auto simp: run_retries_def Let_def intro: tracks_trans [OF tracks_ticked [OF loop]] tracks_dead_letter_all)
qed

section \<open>Connecting\<close>

text \<open>
  What the arguments of a \<open>connect\<close> must satisfy: a client identifier as the MQTT codec delivers it,
  counters that are not exhausted, and no session that is made durable only when it is resumed, as
  what it has subscribed to and queued before was never written.
\<close>

definition connect_legal :: "('s, 'u, 'e) Hub \<Rightarrow> string \<Rightarrow> bool \<Rightarrow> u32 \<Rightarrow> bool" where
  "connect_legal h c clean expiry \<longleftrightarrow> SEP \<notin> set c \<and> h_next_id h + 1 \<noteq> 0 \<and> generation (h_sessions h) + 1 \<noteq> 0 \<and>
     (clean \<or> (case session_of h c of Some (cid, s) \<Rightarrow> s_expiry_secs s = 0 \<longrightarrow> expiry = 0 | None \<Rightarrow> True))"

definition meta_op :: "string \<Rightarrow> u32 \<Rightarrow> PersistOp" where
  "meta_op c expiry = (if 0 < expiry then PutSession c expiry else RemoveSession c)"

lemma persist_meta_op: "persist_meta h c expiry = enqueue h (meta_op c expiry)"
  by (simp add: persist_meta_def meta_op_def)

lemma op_ok_meta [simp]: "op_ok (meta_op c expiry) \<longleftrightarrow> SEP \<notin> set c"
  by (simp add: meta_op_def)

lemma durable_apply_meta:
  "c' \<noteq> c \<Longrightarrow> du_sessions (durable_apply d (meta_op c e)) c' = du_sessions d c'"
  "c' \<noteq> c \<Longrightarrow> du_subs (durable_apply d (meta_op c e)) c' = du_subs d c'"
  "c' \<noteq> c \<Longrightarrow> du_inflight (durable_apply d (meta_op c e)) c' = du_inflight d c'"
  "du_retained (durable_apply d (meta_op c e)) = du_retained d"
  by (simp_all add: meta_op_def)

text \<open>One client's session changes, the disk is told of its expiry.\<close>

lemma mirrors_meta:
  assumes d: "mirrors d h" and h2: "hub_ok h2" "h_persist h2 \<noteq> None" "h_retained h2 = h_retained h"
      "h_router h2 = h_router h" "slots_ok (h_router h) (h_next_id h2)"
    and sess: "session_of h2 = (session_of h)(c \<mapsto> (cid, s))" and c: "SEP \<notin> set c"
    and stored: "0 < s_expiry_secs s \<Longrightarrow> du_blob d c = encode_inflight s \<and> du_subs d c = subs_text (h_router h) cid"
  shows "mirrors (durable_apply d (meta_op c (s_expiry_secs s))) h2"
proof (rule mirrorsI [OF d h2(1,2)])
  show "names_ok h2"
    using d c by (auto simp: names_ok_iff [OF h2(1)] sess mirrors_def names_ok_iff split: if_splits)
  fix x
  show "client_stored (durable_apply d (meta_op c (s_expiry_secs s))) (h_router h2) (stored_view h2 x) x"
  proof (cases "x = c")
    case True
    with stored show ?thesis
      by (simp add: stored_view_def sess client_stored_def meta_op_def du_blob_def h2 split: option.split)
  next
    case False
    with mirrors_client [OF d, of x] show ?thesis
      by (simp add: stored_view_def sess h2 client_stored_cong [OF durable_apply_meta(1-3) [OF False]])
  qed
qed (use d h2 in \<open>simp_all add: mirrors_def durable_apply_meta\<close>)

lemma fresh_subs:
  assumes "mirrors d h" shows "subs_text (h_router h) (h_next_id h) = Map.empty"
proof
  fix raw
  have "subs_at (h_router h) (grp, h_next_id h, f) = None" for grp f
    using assms unfolding mirrors_def slots_ok_def by (metis less_irrefl)
  then show "subs_text (h_router h) (h_next_id h) raw = None" by (simp add: subs_text_def split: option.split)
qed

lemma mirrors_fresh:
  assumes d: "mirrors d h" and h2: "hub_ok h2" "h_persist h2 \<noteq> None" "h_retained h2 = h_retained h"
      "h_router h2 = h_router h" "h_next_id h2 = h_next_id h + 1" "h_next_id h + 1 \<noteq> 0"
    and sess: "session_of h2 = (session_of h)(c \<mapsto> (h_next_id h, session_new c tx expiry gen))"
    and c: "SEP \<notin> set c" "session_of h c = None"
  shows "mirrors (durable_apply d (meta_op c expiry)) h2"
proof -
  let ?s = "session_new c tx expiry gen"
  have e: "s_expiry_secs ?s = expiry" "encode_inflight ?s = encode_queue 1 []"
    by (simp_all add: session_new_def encode_inflight_def)
  have "slots_ok (h_router h) (h_next_id h2)"
    using d h2(5,6) word_less_succ [OF less_imp_le] by (fastforce simp: mirrors_def slots_ok_def)
  moreover have "du_inflight d c = None" "du_subs d c = Map.empty"
    using mirrors_client [OF d, of c] c(2) by (simp_all add: stored_view_def client_stored_def)
  ultimately show ?thesis
    using mirrors_meta [OF d h2(1-4) _ sess c(1)] fresh_subs [OF d] by (simp add: e du_blob_def)
qed

lemma session_of_new:
  assumes "hub_ok h" "hub_ok h2" "session_of h c = None" "s_client_id s = c"
    and "hm_get (by_id (h_sessions h2)) = (hm_get (by_id (h_sessions h)))(h_next_id h \<mapsto> s)"
  shows "session_of h2 = (session_of h)(c \<mapsto> (h_next_id h, s))"
proof
  fix x
  have fresh: "hm_get (by_id (h_sessions h)) (h_next_id h) = None"
    using assms(1) table_ok_fresh by (simp add: hub_ok_def)
  have "s_client_id s' \<noteq> c" if "hm_get (by_id (h_sessions h)) cid = Some s'" for cid s'
    using assms(1,3) that session_of_iff [OF assms(1), of c cid s'] by auto
  with fresh show "session_of h2 x = ((session_of h)(c \<mapsto> (h_next_id h, s))) x"
    using assms(3-5) by (intro option_pair_eqI) (auto simp: session_of_iff assms(1,2) split: if_splits)
qed

lemma tracks_connect_new:
  assumes legal: "SEP \<notin> set c" "h_next_id h + 1 \<noteq> 0" "generation (h_sessions h) + 1 \<noteq> 0"
    and new: "hm_get (id_of (h_sessions h)) c = None"
    and con: "connect h c clean expiry tx now = Some (cn, h')"
  shows "tracks h h'"
proof -
  define s where "s = session_new c (Some tx) expiry (generation (h_sessions h) + 1)"
  define h2 where "h2 = h\<lparr>h_sessions := \<lparr>by_id = hm_insert (h_next_id h) s (by_id (h_sessions h)),
    id_of = hm_insert c (h_next_id h) (id_of (h_sessions h)), generation = generation (h_sessions h) + 1\<rparr>,
    h_next_id := h_next_id h + 1\<rparr>"
  have h': "h' = enqueue h2 (meta_op c expiry)"
    using con new by (cases h, cases "h_sessions h") (auto simp: connect_def Let_def persist_meta_op h2_def s_def)
  show ?thesis
    unfolding h'
  proof (rule tracks_op)
    fix d
    assume d: "mirrors d h"
    then have ok: "hub_ok h" by (simp add: mirrors_def)
    have ok2: "hub_ok h2" using connect_ok [OF ok legal(2,3), of c clean expiry tx now] con by (simp add: h')
    have none: "session_of h c = None" using session_of_known [OF ok] new by simp
    have "session_of h2 = (session_of h)(c \<mapsto> (h_next_id h, s))"
      by (rule session_of_new [OF ok ok2 none]) (simp_all add: s_def session_new_def h2_def update_conv' fun_eq_iff)
    from mirrors_fresh [OF d ok2 _ _ _ _ legal(2) this [unfolded s_def] legal(1) none] d legal(1)
    show "op_ok (meta_op c expiry) \<and> mirrors (durable_apply d (meta_op c expiry)) h2"
      by (simp add: h2_def mirrors_def)
  qed (simp_all add: h2_def)
qed

lemma tracks_connect_clean:
  assumes legal: "SEP \<notin> set c" "h_next_id h + 1 \<noteq> 0" "generation (h_sessions h) + 1 \<noteq> 0"
    and old: "hm_get (id_of (h_sessions h)) c = Some cid"
    and con: "connect h c True expiry tx now = Some (cn, h')"
  shows "tracks h h'"
proof (rule tracksI)
  fix d
  assume d: "mirrors d h"
  then have ok: "hub_ok h" by (simp add: mirrors_def)
  obtain s0 where s0: "session_of h c = Some (cid, s0)"
    using session_of_known [OF ok, of c] old by (auto simp: session_of_def bind_eq_Some_conv)
  then have get: "hm_get (by_id (h_sessions h)) cid = Some s0" "s_client_id s0 = c" by (simp_all add: session_of_iff [OF ok])
  let ?h = "discard h cid" and ?d = "durable_apply d (RemoveSession c)"
  obtain q where q: "h_persist h = Some q" using d by (auto simp: mirrors_def)
  from tracks_discard [of h cid] d have md: "mirrors ?d ?h"
    by (auto simp: tracks_def discard_sel get q)
  then have okd: "hub_ok ?h" by (simp add: mirrors_def)
  define s where "s = session_new c (Some tx) expiry (generation (h_sessions h) + 1)"
  define h2 where "h2 = h\<lparr>h_sessions := \<lparr>by_id = hm_insert (h_next_id h) s (hm_remove cid (by_id (h_sessions h))),
    id_of = hm_insert c (h_next_id h) (id_of (h_sessions h)), generation = generation (h_sessions h) + 1\<rparr>,
    h_router := remove_client (h_router h) cid, h_persist := Some (q @ [RemoveSession c]),
    h_next_id := h_next_id h + 1\<rparr>"
  have h': "h' = enqueue h2 (meta_op c expiry)"
    using con old q by (cases h, cases "h_sessions h")
      (auto simp: connect_def Let_def persist_meta_op forget_persisted_def h2_def s_def enqueue_def)
  have ok2: "hub_ok h2" using connect_ok [OF ok legal(2,3), of c True expiry tx now] con by (simp add: h')
  have none: "session_of ?h c = None" by (simp add: session_of_discard [OF ok] s0)
  have "session_of h2 = (session_of ?h)(c \<mapsto> (h_next_id ?h, s))"
    by (rule session_of_new [OF okd ok2 none]) (simp_all add: s_def session_new_def h2_def discard_sel get update_conv' delete_conv' fun_eq_iff)
  from mirrors_fresh [OF md ok2 _ _ _ _ _ this [unfolded s_def] legal(1) none] legal
  have "mirrors (durable_apply ?d (meta_op c expiry)) h2"
    by (simp add: h2_def discard_sel)
  then have "mirrors (foldl durable_apply d [RemoveSession c, meta_op c expiry]) h'"
    by (simp add: h')
  with legal(1) show "\<exists>ops. h_storage h' = h_storage h \<and> h_persist h' = map_option (\<lambda>q. q @ ops) (h_persist h) \<and>
      list_all op_ok ops \<and> mirrors (foldl durable_apply d ops) h'"
    by (intro exI [of _ "[RemoveSession c, meta_op c expiry]"]) (simp add: h' h2_def q)
qed

lemma encode_inflight_rearm:
  assumes "s_next_id s' = s_next_id s" "s_inflight s' = map (rearm now cfg) (s_inflight s)"
  shows "encode_inflight s' = encode_inflight s"
proof -
  have "encode_entry [] (rearm now cfg e) = encode_entry [] e" for e
    by (simp add: encode_entry_def rearm_def cong: Inflight.case_cong)
  with assms show ?thesis by (simp add: encode_inflight_def encode_queue_concat comp_def)
qed

lemma tracks_connect_resume:
  assumes legal: "connect_legal h c False expiry"
    and old: "hm_get (id_of (h_sessions h)) c = Some cid"
    and con: "connect h c False expiry tx now = Some (cn, h')"
  shows "tracks h h'"
proof -
  let ?t = "(h_sessions h)\<lparr>generation := generation (h_sessions h) + 1\<rparr>"
  from con old obtain s where get: "hm_get (by_id (h_sessions h)) cid = Some s"
    by (auto simp: connect_def Let_def split: option.splits)
  define so where "so = session_attach s tx expiry (generation ?t) now (h_retry h)"
  define h2 where "h2 = put_session_at (h\<lparr>h_sessions := ?t\<rparr>) cid so"
  have h': "h' = enqueue h2 (meta_op c expiry)"
    using con old get by (simp add: connect_def Let_def persist_meta_op h2_def so_def)
  have attach: "s_expiry_secs (fst so) = expiry" "s_client_id (fst so) = s_client_id s"
    by (simp_all add: so_def session_attach_sel)
  have same: "encode_inflight (fst so) = encode_inflight s"
    by (rule encode_inflight_rearm [where now = now and cfg = "h_retry h"])
      (simp_all add: so_def session_attach_def Let_def retransmit_eq)
  show ?thesis
    unfolding h'
  proof (rule tracks_op)
    fix d
    assume d: "mirrors d h"
    then have ok: "hub_ok h" by (simp add: mirrors_def)
    have ok1: "hub_ok (h\<lparr>h_sessions := ?t\<rparr>)"
      using ok legal table_ok_bump by (auto simp: hub_ok_def connect_legal_def)
    have ok2: "hub_ok h2"
      using connect_ok [OF ok, of c False expiry tx now] legal con by (simp add: h' connect_legal_def)
    have s: "session_of h c = Some (cid, s)"
      using old get by (simp add: session_of_def)
    then have c: "s_client_id s = c" by (simp add: session_of_iff [OF ok])
    have same_sess: "session_of (h\<lparr>h_sessions := ?t\<rparr>) = session_of h" by (simp add: session_of_def fun_eq_iff)
    have sess: "session_of h2 = (session_of h)(c \<mapsto> (cid, fst so))"
      using session_of_put [OF ok1 ok2 [unfolded h2_def], of s] get attach c same_sess by (auto simp: h2_def fun_eq_iff)
    have "du_blob d c = encode_inflight (fst so) \<and> du_subs d c = subs_text (h_router h) cid" if "0 < expiry"
      using that legal mirrors_client [OF d, of c] s same
      by (auto simp: connect_legal_def stored_view_def client_stored_def word_neq_0_conv split: if_splits)
    then have "mirrors (durable_apply d (meta_op c (s_expiry_secs (fst so)))) h2"
      using d legal attach by (intro mirrors_meta [OF d ok2 _ _ _ _ sess])
        (auto simp: h2_def mirrors_def connect_legal_def)
    with legal show "op_ok (meta_op c expiry) \<and> mirrors (durable_apply d (meta_op c expiry)) h2"
      by (simp add: attach connect_legal_def)
  qed (simp_all add: h2_def)
qed

lemma tracks_connect:
  assumes legal: "connect_legal h c clean expiry" and con: "connect h c clean expiry tx now = Some (cn, h')"
  shows "tracks h h'"
proof (cases "hm_get (id_of (h_sessions h)) c")
  case None
  with legal con show ?thesis by (intro tracks_connect_new) (simp_all add: connect_legal_def)
next
  case (Some cid)
  with legal con tracks_connect_clean [of c h cid] tracks_connect_resume [of h c expiry cid] show ?thesis
    by (cases clean) (auto simp: connect_legal_def)
qed

section \<open>Subscriptions\<close>

text \<open>One client's subscription text gets a new entry, or loses it.\<close>

definition sub_op :: "string \<Rightarrow> string \<Rightarrow> QoS option \<Rightarrow> PersistOp" where
  "sub_op c raw q = (case q of Some qos \<Rightarrow> PutSubscription c raw qos | None \<Rightarrow> RemoveSubscription c raw)"

lemma sub_op_simps:
  "sub_op c raw (Some qos) = PutSubscription c raw qos" "sub_op c raw None = RemoveSubscription c raw"
  by (simp_all add: sub_op_def)

lemma durable_apply_sub:
  "durable_apply d (sub_op c raw q) = d\<lparr>du_subs := (du_subs d)(c := (du_subs d c)(raw := q))\<rparr>"
  by (cases q) (simp_all add: sub_op_def)

lemma op_ok_sub [simp]: "op_ok (sub_op c raw q) \<longleftrightarrow> SEP \<notin> set c"
  by (cases q) (simp_all add: sub_op_def)

lemma subs_text_set:
  assumes "subs_at r' = (subs_at r)((grp, cid, f) := q)" "slot_of raw = Some (grp, f)"
  shows "subs_text r' c = (if c = cid then (subs_text r c)(raw := q) else subs_text r c)"
proof
  fix x
  show "subs_text r' c x = (if c = cid then (subs_text r c)(raw := q) else subs_text r c) x"
  proof (cases "slot_of x = Some (grp, f)")
    case True
    then have "x = raw" using slot_of_inj assms(2) by blast
    with True assms(1) show ?thesis by (simp add: subs_text_def)
  next
    case False
    then have "x \<noteq> raw" using assms(2) by blast
    with False assms(1) show ?thesis by (auto simp: subs_text_def split: option.split)
  qed
qed

lemma slots_ok_set:
  assumes "slots_ok r n" "subs_at r' = (subs_at r)((grp, cid, f) := q)" "q \<noteq> None \<Longrightarrow> cid < n \<and> slot_of raw = Some (grp, f)"
  shows "slots_ok r' n"
  using assms unfolding slots_ok_def by (auto split: if_splits)

lemma mirrors_subs:
  assumes d: "mirrors d h" and r: "router_ok r'" "slots_ok r' (h_next_id h)"
    and texts: "\<And>c. subs_text r' c = (if c = cid then (subs_text (h_router h) c)(raw := q) else subs_text (h_router h) c)"
  shows "durable_client h cid = None \<Longrightarrow> mirrors d (h\<lparr>h_router := r'\<rparr>)"
    and "durable_client h cid = Some c \<Longrightarrow> op_ok (sub_op c raw q) \<and>
      mirrors (durable_apply d (sub_op c raw q)) (h\<lparr>h_router := r'\<rparr>)"
proof -
  let ?h = "h\<lparr>h_router := r'\<rparr>"
  have ok: "hub_ok h" using d by (simp add: mirrors_def)
  have mine: "durable_client h cid = Some c \<longleftrightarrow> (\<exists>e blob. stored_view h c = Some (cid, e, blob))" for c
  proof -
    have "durable_client h cid = Some c \<longleftrightarrow> (\<exists>s. session_of h c = Some (cid, s) \<and> 0 < s_expiry_secs s)"
      by (auto simp: durable_client_def session_of_iff [OF ok] split: option.splits)
    then show ?thesis by (auto simp: stored_view_def split: option.splits)
  qed
  have stored: "client_stored d' r' (stored_view h c) c"
    if "du_sessions d' c = du_sessions d c" "du_inflight d' c = du_inflight d c"
      "du_subs d' c = (if durable_client h cid = Some c then (du_subs d c)(raw := q) else du_subs d c)" for d' c
    using mirrors_client [OF d, of c] that mine [of c]
    by (cases "stored_view h c") (auto simp: client_stored_def texts du_blob_def)
  have h: "hub_ok ?h" "h_persist ?h \<noteq> None" "h_retained ?h = h_retained h" "slots_ok r' (h_next_id ?h)"
    "names_ok ?h" "\<And>c. stored_view ?h c = stored_view h c"
    using d r stored_view_cong [of ?h h] by (simp_all add: mirrors_def hub_ok_def)
  show "mirrors d ?h" if "durable_client h cid = None"
    using that stored [of d] d h by (simp add: mirrors_def)
  show "op_ok (sub_op c raw q) \<and> mirrors (durable_apply d (sub_op c raw q)) ?h" if c: "durable_client h cid = Some c"
  proof
    show "op_ok (sub_op c raw q)"
      using c mirrors_name [OF d] by (auto simp: durable_client_def split: option.splits if_splits)
    show "mirrors (durable_apply d (sub_op c raw q)) ?h"
      using c stored [of "durable_apply d (sub_op c raw q)"] d h by (simp add: mirrors_def durable_apply_sub)
  qed
qed

lemma tracks_subs:
  assumes r: "\<And>d. mirrors d h \<Longrightarrow> router_ok r' \<and> slots_ok r' (h_next_id h) \<and>
      (\<forall>c. subs_text r' c = (if c = cid then (subs_text (h_router h) c)(raw := q) else subs_text (h_router h) c))"
  shows "tracks h (if h_persist h = None then h\<lparr>h_router := r'\<rparr>
    else case durable_client h cid of Some c \<Rightarrow> enqueue (h\<lparr>h_router := r'\<rparr>) (sub_op c raw q) | None \<Rightarrow> h\<lparr>h_router := r'\<rparr>)"
proof (cases "h_persist h = None")
  case True
  then show ?thesis by (simp add: tracks_def mirrors_def)
next
  case False
  show ?thesis
  proof (cases "durable_client h cid")
    case None
    have "tracks h (h\<lparr>h_router := r'\<rparr>)"
    proof (rule tracks_quiet)
      fix d
      assume d: "mirrors d h"
      from r [OF this] None show "mirrors d (h\<lparr>h_router := r'\<rparr>)" by (intro mirrors_subs(1) [OF d]) blast+
    qed simp_all
    with None show ?thesis by simp
  next
    case (Some c)
    have "tracks h (enqueue (h\<lparr>h_router := r'\<rparr>) (sub_op c raw q))"
    proof (rule tracks_op)
      fix d
      assume d: "mirrors d h"
      from r [OF this] Some show "op_ok (sub_op c raw q) \<and> mirrors (durable_apply d (sub_op c raw q)) (h\<lparr>h_router := r'\<rparr>)"
        by (intro mirrors_subs(2) [OF d]) blast+
    qed simp_all
    with Some False show ?thesis by auto
  qed
qed

lemma durable_client_cong [simp]: "durable_client (h\<lparr>h_router := r\<rparr>) cid = durable_client h cid"
  by (simp add: durable_client_def)

lemma tracks_subscribe_slot:
  assumes "subs_at r' = (subs_at (h_router h))((grp, cid, f) \<mapsto> qos)" "slot_of raw = Some (grp, f)"
    and "router_ok (h_router h) \<Longrightarrow> router_ok r'" "cid < h_next_id h"
  shows "tracks h (persist_subscription (h\<lparr>h_router := r'\<rparr>) cid raw qos)"
proof -
  have "tracks h (if h_persist h = None then h\<lparr>h_router := r'\<rparr> else case durable_client h cid of
      Some c \<Rightarrow> enqueue (h\<lparr>h_router := r'\<rparr>) (sub_op c raw (Some qos)) | None \<Rightarrow> h\<lparr>h_router := r'\<rparr>)"
    by (rule tracks_subs)
      (use assms slots_ok_set [OF _ assms(1)] subs_text_set [OF assms(1,2)] in \<open>auto simp: mirrors_def hub_ok_def\<close>)
  then show ?thesis unfolding persist_subscription_def sub_op_simps by (auto split: if_splits)
qed

lemma tracks_subscribe:
  assumes "shared_parse raw = None" "topic_filter_parse raw = Some flt" "cid < h_next_id h"
  shows "tracks h (hub_subscribe h cid flt qos raw)"
  unfolding hub_subscribe_def using assms
  by (intro tracks_subscribe_slot [OF subs_at_subscribe(1)]) (simp_all add: slot_of_def)

lemma tracks_subscribe_shared:
  assumes "shared_parse raw = Some sh" "cid < h_next_id h"
  shows "tracks h (hub_subscribe_shared h (ss_group sh) cid (ss_filter sh) qos raw)"
  unfolding hub_subscribe_shared_def using assms
  by (intro tracks_subscribe_slot [OF subs_at_subscribe(2)]) (simp_all add: slot_of_def)

lemma subs_at_unsubscribe:
  "subs_at (snd (unsubscribe r cid f)) = (subs_at r)((None, cid, f) := None)"
  "subs_at (snd (unsubscribe_shared r g cid f)) = (subs_at r)((Some g, cid, f) := None)"
  by (auto simp: subs_at_def fun_eq_iff split: option.split)

lemma tracks_unsubscribe: "tracks h (snd (hub_unsubscribe h cid raw))"
proof -
  define r' where "r' = snd (case shared_parse raw of
      Some sh \<Rightarrow> unsubscribe_shared (h_router h) (ss_group sh) cid (as_str (ss_filter sh))
    | None \<Rightarrow> unsubscribe (h_router h) cid raw)"
  have "tracks h (if h_persist h = None then h\<lparr>h_router := r'\<rparr> else case durable_client h cid of
      Some c \<Rightarrow> enqueue (h\<lparr>h_router := r'\<rparr>) (sub_op c raw None) | None \<Rightarrow> h\<lparr>h_router := r'\<rparr>)"
  proof (rule tracks_subs)
    fix d
    assume d: "mirrors d h"
    then have ok: "router_ok (h_router h)" "slots_ok (h_router h) (h_next_id h)" by (simp_all add: mirrors_def hub_ok_def)
    have "router_ok r'" using ok by (simp add: r'_def split: option.split)
    moreover have "slots_ok r' (h_next_id h) \<and>
      (\<forall>c. subs_text r' c = (if c = cid then (subs_text (h_router h) c)(raw := None) else subs_text (h_router h) c))"
    proof (cases "slot_of raw")
      case None
      then have "shared_parse raw = None" by (auto simp: slot_of_def split: option.splits)
      moreover have "subs_at (h_router h) (None, cid, raw) = None"
        using ok(2) None slot_of_text unfolding slots_ok_def by (metis option.case(1) option.distinct(1))
      ultimately have same: "subs_at r' = subs_at (h_router h)"
        by (simp add: r'_def subs_at_unsubscribe fun_upd_idem)
      have "subs_text r' = subs_text (h_router h)" by (intro ext) (simp only: subs_text_def same)
      moreover have "subs_text (h_router h) cid raw = None" by (simp add: subs_text_def None)
      ultimately show ?thesis using ok(2) subs_at_cong(1) [OF same] by (simp add: fun_upd_idem)
    next
      case (Some k)
      obtain grp f where k: "k = (grp, f)" by fastforce
      have "subs_at r' = (subs_at (h_router h))((grp, cid, f) := None)"
        using Some k by (auto simp: slot_of_def r'_def subs_at_unsubscribe as_str_parse split: option.splits)
      from slots_ok_set [OF ok(2) this] subs_text_set [OF this] Some k show ?thesis by simp
    qed
    ultimately show "router_ok r' \<and> slots_ok r' (h_next_id h) \<and>
      (\<forall>c. subs_text r' c = (if c = cid then (subs_text (h_router h) c)(raw := None) else subs_text (h_router h) c))" ..
  qed
  moreover have "snd (hub_unsubscribe h cid raw) = (if h_persist h = None then h\<lparr>h_router := r'\<rparr> else
      case durable_client h cid of Some c \<Rightarrow> enqueue (h\<lparr>h_router := r'\<rparr>) (sub_op c raw None) | None \<Rightarrow> h\<lparr>h_router := r'\<rparr>)"
    unfolding sub_op_simps by (simp add: hub_unsubscribe_def r'_def [symmetric] case_prod_beta Let_def)
  ultimately show ?thesis by simp
qed

section \<open>Retained delivery, replay, acknowledgements\<close>

lemma retained_loop_same:
  assumes "retained_loop s msgs granted now cfg = Some (s', out, b)" "session_ok s"
  shows "s_expiry_secs s' = s_expiry_secs s \<and> (\<not> b \<longrightarrow> encode_inflight s' = encode_inflight s)"
  using assms
proof (induction msgs arbitrary: s out b)
  case (Cons m msgs)
  let ?q = "min (m_qos m) granted"
  obtain s1 out1 where s1: "deliver s (m_topic m) (m_payload m) ?q True now cfg = Some (s1, out1)"
    "session_ok s1" "s_expiry_secs s1 = s_expiry_secs s"
    by (rule deliver_ok [OF Cons.prems(2)]) blast
  with Cons.prems obtain out' b' where "retained_loop s1 msgs granted now cfg = Some (s', out', b')"
    "b = (?q \<noteq> AtMostOnce \<or> b')"
    by (auto simp: Let_def bind_eq_Some_conv)
  with Cons.IH [of s1] s1 deliver_same [of s "m_topic m" "m_payload m" True now cfg "(s1, out1)"] show ?case by auto
qed simp

lemma tracks_deliver_retained:
  assumes "deliver_retained h cid flt granted now = Some h'" shows "tracks h h'"
proof (cases "hub_ok h")
  case ok: True
  show ?thesis
  proof (cases "hm_get (by_id (h_sessions h)) cid")
    case (Some s)
    have s: "session_ok s" using hub_ok_session [OF ok Some] by simp
    obtain s' out b where loop: "retained_loop s (retained_matching (h_retained h) flt) granted now (h_retry h) = Some (s', out, b)"
      "session_ok s'" "s_client_id s' = s_client_id s" "s_generation s' = s_generation s"
      using retained_loop_ok [OF s] by blast
    have "tracks h (write_snapshot (put_session_at h cid (s', out))
        (if b then snapshot_inflight (put_session_at h cid (s', out)) s' else None))"
      using tracks_put_snapshot [OF Some, of "(s', out)"] tracks_put_same [OF Some, of "(s', out)"]
        retained_loop_same [OF loop(1) s] loop by (simp add: write_snapshot_def)
    with assms Some loop(1) show ?thesis
      by (auto simp: deliver_retained_def Let_def split: if_splits)
  qed (use assms in \<open>simp add: deliver_retained_def Let_def split: if_splits\<close>)
qed (simp add: tracks_def mirrors_def)

lemma tracks_replay: "tracks h (snd (replay db h cid since flt))"
  by (simp add: replay_def Let_def case_prod_beta tracks_outbox split: option.split)

lemma tracks_locked_ack:
  assumes "\<And>s. session_ok s \<Longrightarrow> session_ok (fst (f s))" "\<And>s. s_client_id (fst (f s)) = s_client_id s"
    "\<And>s. s_expiry_secs (fst (f s)) = s_expiry_secs s" "\<And>s. s_generation (fst (f s)) = s_generation s"
  shows "tracks h (case locked_ack h cid f of (h', snapshot) \<Rightarrow> write_snapshot h' snapshot)"
proof (cases "hm_get (by_id (h_sessions h)) cid")
  case (Some s)
  with tracks_put_snapshot [OF Some, of "f s"] assms hub_ok_session [OF _ Some] show ?thesis
    by (simp add: locked_ack_def Let_def)
qed (simp add: locked_ack_def write_snapshot_def)

lemma tracks_puback: "tracks h (on_puback h cid pid)"
  unfolding on_puback_def Let_def
  by (rule tracks_locked_ack) (simp add: session_ok_puback, simp_all add: session_on_puback_def)

lemma tracks_pubrec: "tracks h (on_pubrec h cid pid)"
  unfolding on_pubrec_def Let_def
  by (rule tracks_locked_ack) (simp add: session_ok_pubrec, simp_all add: session_on_pubrec_def split: option.split prod.split)

lemma tracks_pubcomp: "tracks h (on_pubcomp h cid pid)"
  unfolding on_pubcomp_def Let_def
  by (rule tracks_locked_ack) (simp add: session_ok_pubcomp, simp_all add: session_on_pubcomp_def)

lemma tracks_qos2:
  "tracks h (snd (inbound_qos2_seen h cid pid))" "tracks h (inbound_qos2_release h cid pid)"
proof -
  show "tracks h (snd (inbound_qos2_seen h cid pid))"
  proof (cases "hm_get (by_id (h_sessions h)) cid")
    case (Some s)
    with tracks_put_same [OF Some, of "(snd (qos2_seen s pid), [])"] hub_ok_session [OF _ Some] show ?thesis
      by (simp add: inbound_qos2_seen_def qos2_seen_def encode_inflight_def session_ok_def)
  qed (simp add: inbound_qos2_seen_def)
  show "tracks h (inbound_qos2_release h cid pid)"
  proof (cases "hm_get (by_id (h_sessions h)) cid")
    case (Some s)
    with tracks_put_same [OF Some, of "(qos2_release s pid, [])"] hub_ok_session [OF _ Some] show ?thesis
      by (simp add: inbound_qos2_release_def qos2_release_def encode_inflight_def session_ok_def)
  qed (simp add: inbound_qos2_release_def)
qed

lemma hub_flush_enqueue: "hub_flush h = enqueue h Flush"
  by (simp add: hub_flush_def enqueue_def)

lemma tracks_flush: "tracks h (hub_flush h)"
  unfolding hub_flush_enqueue by (rule tracks_enqueue) simp_all

end
