(* ===== verification/Access.thy ===== *)
theory Access
  imports Topic
begin

text \<open>
  \<open>relay-core/src/acl.rs\<close>: the allow-lists of a principal and \<open>filter_subsumes\<close>, the structural
  check that a requested filter is covered by an allowed pattern. The check is compared with what
  the two filters match.
\<close>

section \<open>Definitions\<close>

record Acl =
  acl_publish :: "string list"
  acl_subscribe :: "string list"

definition acl_default :: Acl where
  "acl_default = \<lparr>acl_publish = [], acl_subscribe = []\<rparr>"

fun subsumes_levels :: "string list \<Rightarrow> string list \<Rightarrow> bool" where
  "subsumes_levels [] [] = True"
| "subsumes_levels [] (r # rs) = False"
| "subsumes_levels (a # as) [] = (a = ''#'')"
| "subsumes_levels (a # as) (r # rs) =
     (if a = ''#'' then True
      else if r = ''#'' then False
      else if a = ''+'' then subsumes_levels as rs
      else if r = ''+'' then False
      else if a = r then subsumes_levels as rs
      else False)"

definition filter_subsumes :: "string \<Rightarrow> string \<Rightarrow> bool" where
  "filter_subsumes allowed requested =
     subsumes_levels (split_on CHR ''/'' allowed) (split_on CHR ''/'' requested)"

definition can_publish :: "Acl \<Rightarrow> string \<Rightarrow> bool" where
  "can_publish acl topic = list_ex (\<lambda>pat. topic_matches pat topic) (acl_publish acl)"

definition can_subscribe :: "Acl \<Rightarrow> string \<Rightarrow> bool" where
  "can_subscribe acl flt = list_ex (\<lambda>pat. filter_subsumes pat flt) (acl_subscribe acl)"

section \<open>Soundness\<close>

lemma subsumes_levels_sound:
  "subsumes_levels as rs \<Longrightarrow> match_levels rs ts \<Longrightarrow> match_levels as ts"
proof (induction as rs arbitrary: ts rule: subsumes_levels.induct)
  case (3 a as)
  then show ?case by (cases ts) simp_all
next
  case (4 a as r rs)
  show ?case
  proof (cases "a = ''#''")
    case True
    then show ?thesis by (cases ts) simp_all
  next
    case False
    with "4.prems"(1) have "r \<noteq> ''#''" by (simp split: if_splits)
    with "4.prems"(2) obtain t ts' where ts: "ts = t # ts'" "r = ''+'' \<or> r = t"
      "match_levels rs ts'"
      by (auto simp: match_levels_Cons)
    with False \<open>r \<noteq> ''#''\<close> "4.prems"(1) "4.IH" show ?thesis
      by (auto split: if_splits)
  qed
qed simp_all

section \<open>Completeness\<close>

text \<open>The levels a separating topic is built from: those of the request and two fresh ones.\<close>

definition from_request :: "string list \<Rightarrow> string list \<Rightarrow> bool" where
  "from_request rs ts \<longleftrightarrow>
     set ts \<subseteq> set rs \<union> {''a'', ''b''} \<and>
     (ts \<noteq> [] \<and> (rs \<noteq> [] \<longrightarrow> wildcard_level (hd rs)) \<longrightarrow> hd ts \<in> {''a'', ''b''})"

lemma from_request_Cons:
  "from_request rs ts \<Longrightarrow> l \<in> {''a'', ''b''} \<or> l = r \<and> \<not> wildcard_level r \<Longrightarrow>
     from_request (r # rs) (l # ts)"
  by (auto simp: from_request_def)

lemma valid_levels_instance: "valid_levels rs \<Longrightarrow> \<exists>ts. match_levels rs ts \<and> from_request rs ts"
proof (induction rs)
  case Nil
  have "match_levels [] [] \<and> from_request [] []" by (simp add: from_request_def)
  then show ?case by blast
next
  case (Cons r rs)
  then obtain ts where ts: "match_levels rs ts" "from_request rs ts" by auto
  show ?case
  proof (cases "wildcard_level r")
    case True
    with ts have "match_levels (r # rs) (''a'' # ts)" "from_request (r # rs) (''a'' # ts)"
      by (auto simp: wildcard_level_def intro: from_request_Cons)
    then show ?thesis by blast
  next
    case False
    with ts have "match_levels (r # rs) (r # ts)" "from_request (r # rs) (r # ts)"
      by (auto simp: wildcard_level_def intro: from_request_Cons)
    then show ?thesis by blast
  qed
qed

lemma fresh_level: "\<exists>l \<in> {''a'', ''b''}. l \<noteq> (a :: string)"
  by (cases "a = ''a''") auto

lemma separating_levels:
  "\<not> subsumes_levels as rs \<Longrightarrow> valid_levels rs \<Longrightarrow>
     \<exists>ts. match_levels rs ts \<and> \<not> match_levels as ts \<and> from_request rs ts"
proof (induction as rs rule: subsumes_levels.induct)
  case (2 r rs)
  show ?case
  proof (cases "r = ''#''")
    case True
    then have "match_levels (r # rs) [''a''] \<and> \<not> match_levels [] [''a''] \<and> from_request (r # rs) [''a'']"
      by (simp add: from_request_def)
    then show ?thesis by blast
  next
    case False
    from "2.prems" obtain ts where ts: "match_levels (r # rs) ts" "from_request (r # rs) ts"
      using valid_levels_instance by blast
    with False have "\<not> match_levels [] ts" by (cases ts) auto
    with ts show ?thesis by blast
  qed
next
  case (3 a as)
  then have "match_levels [] [] \<and> \<not> match_levels (a # as) [] \<and> from_request [] []"
    by (simp add: from_request_def)
  then show ?case by blast
next
  case (4 a as r rs)
  from "4.prems" have a: "a \<noteq> ''#''" and rs: "valid_levels rs" by auto
  show ?case
  proof (cases "r = ''#''")
    case True
    with a have "match_levels (r # rs) [] \<and> \<not> match_levels (a # as) [] \<and> from_request (r # rs) []"
      by (simp add: from_request_def)
    then show ?thesis by blast
  next
    case r: False
    have step: ?thesis
      if "match_levels rs ts" "from_request rs ts" "l \<in> {''a'', ''b''} \<and> r = ''+'' \<or> l = r \<and> r \<noteq> ''+''"
        "\<not> match_levels (a # as) (l # ts)" for l ts
    proof -
      from that r have "match_levels (r # rs) (l # ts)" by auto
      moreover from that r have "from_request (r # rs) (l # ts)"
        by (auto simp: wildcard_level_def intro: from_request_Cons)
      ultimately show ?thesis using that(4) by blast
    qed
    show ?thesis
    proof (cases "a = ''+'' \<or> a = r")
      case True
      with a r "4.prems" "4.IH" obtain ts where ts: "match_levels rs ts" "from_request rs ts"
        "\<not> match_levels as ts"
        by (auto split: if_splits)
      define l where "l = (if r = ''+'' then ''a'' else r)"
      have "l \<in> {''a'', ''b''} \<and> r = ''+'' \<or> l = r \<and> r \<noteq> ''+''" by (simp add: l_def)
      moreover from ts(3) a have "\<not> match_levels (a # as) (l # ts)" by simp
      ultimately show ?thesis using step ts(1,2) by blast
    next
      case False
      from rs obtain ts where ts: "match_levels rs ts" "from_request rs ts"
        using valid_levels_instance by blast
      obtain l' where l': "l' \<in> {''a'', ''b''}" "l' \<noteq> a" using fresh_level by blast
      define l where "l = (if r = ''+'' then l' else r)"
      have "l \<in> {''a'', ''b''} \<and> r = ''+'' \<or> l = r \<and> r \<noteq> ''+''" using l' by (simp add: l_def)
      moreover from a False l' have "\<not> match_levels (a # as) (l # ts)" by (auto simp: l_def)
      ultimately show ?thesis using step ts by blast
    qed
  qed
qed simp

text \<open>At the top level a topic has at least one level.\<close>

lemma separating_levels_nonempty:
  assumes "\<not> subsumes_levels as rs" "valid_levels rs" "valid_levels as" "rs \<noteq> []" "as \<noteq> []"
    and "\<not> (as = [''+'', ''#''] \<and> rs = [''#''])"
  shows "\<exists>ts. ts \<noteq> [] \<and> match_levels rs ts \<and> \<not> match_levels as ts \<and> from_request rs ts"
proof -
  from assms(4) obtain r rs' where rs: "rs = r # rs'" by (cases rs) auto
  from assms(5) obtain a as' where as: "as = a # as'" by (cases as) auto
  show ?thesis
  proof (cases "r = ''#''")
    case False
    from separating_levels [OF assms(1,2)] obtain ts
      where "match_levels rs ts" "\<not> match_levels as ts" "from_request rs ts" by blast
    moreover from this(1) rs False have "ts \<noteq> []" by auto
    ultimately show ?thesis by blast
  next
    case True
    with rs assms(2) have rs_eq: "rs = [''#'']" by auto
    from assms(1) as rs True have a: "a \<noteq> ''#''" by auto
    have sep: ?thesis if "ts \<noteq> []" "set ts \<subseteq> {''a'', ''b''}" "\<not> match_levels as ts" for ts
    proof -
      from that(1,2) have "hd ts \<in> {''a'', ''b''}" using hd_in_set by blast
      with that have "ts \<noteq> [] \<and> match_levels rs ts \<and> \<not> match_levels as ts \<and> from_request rs ts"
        by (cases ts) (auto simp: rs_eq from_request_def)
      then show ?thesis by blast
    qed
    obtain l where l: "l \<in> {''a'', ''b''}" "l \<noteq> a" using fresh_level by blast
    show ?thesis
    proof (cases "a = ''+''")
      case False
      with l a as show ?thesis by (intro sep [of "[l]"]) auto
    next
      case plus: True
      show ?thesis
      proof (cases as')
        case Nil
        with as plus show ?thesis by (intro sep [of "[''a'', ''a'']"]) auto
      next
        case (Cons a2 as2)
        have "a2 \<noteq> ''#''"
        proof
          assume "a2 = ''#''"
          with assms(3) as Cons have "as2 = []" by simp
          with \<open>a2 = ''#''\<close> as Cons plus rs_eq assms(6) show False by simp
        qed
        with as plus Cons show ?thesis by (intro sep [of "[''a'']"]) simp_all
      qed
    qed
  qed
qed

lemma join_with_starts:
  "ts \<noteq> [] \<Longrightarrow> hd ts \<in> {''a'', ''b''} \<Longrightarrow> \<not> starts_with ''$'' (join_with CHR ''/'' ts)"
  by (cases ts; cases "tl ts") auto

section \<open>Correctness\<close>

text \<open>
  C15. The subscribe check is sound: when \<open>filter_subsumes\<close> accepts a request, every topic the
  request matches is matched by the allowed pattern, unless the topic starts with \<open>$\<close> and the
  allowed pattern starts with a wildcard.
\<close>

theorem filter_subsumes_sound:
  assumes "filter_subsumes allowed requested" and "topic_matches requested t"
    and "\<not> (starts_with ''$'' t \<and> wildcard_level (hd (split_on CHR ''/'' allowed)))"
  shows "topic_matches allowed t"
  using assms by (auto simp: filter_subsumes_def topic_matches_def
      intro: subsumes_levels_sound split: if_splits)

theorem filter_subsumes_sound_witness:
  "filter_subsumes ''drive/u1/#'' ''drive/u1/+'' \<and> topic_matches ''drive/u1/+'' ''drive/u1/f'' \<and>
   topic_matches ''drive/u1/#'' ''drive/u1/f''"
proof -
  have h: "filter_subsumes ''drive/u1/#'' ''drive/u1/+''" "topic_matches ''drive/u1/+'' ''drive/u1/f''"
    "\<not> (starts_with ''$'' ''drive/u1/f'' \<and>
        wildcard_level (hd (split_on CHR ''/'' ''drive/u1/#'')))"
    by code_simp+
  show ?thesis using h(1,2) filter_subsumes_sound [OF h] by blast
qed

text \<open>
  C20. The subscribe check is complete: when it rejects a valid request against a valid pattern,
  some topic is matched by the request and not by the pattern. The one exception is the request
  \<open>#\<close> against \<open>+/#\<close>, which match the same topics and which the check still rejects.
\<close>

theorem filter_subsumes_complete:
  assumes "topic_filter_parse allowed = Some fa" and "topic_filter_parse requested = Some fr"
    and "\<not> filter_subsumes allowed requested"
    and "\<not> (allowed = ''+/#'' \<and> requested = ''#'')"
  shows "\<exists>t. topic_matches requested t \<and> \<not> topic_matches allowed t"
proof -
  let ?as = "split_on CHR ''/'' allowed" and ?rs = "split_on CHR ''/'' requested"
  have "\<not> (?as = [''+'', ''#''] \<and> ?rs = [''#''])"
  proof
    assume "?as = [''+'', ''#''] \<and> ?rs = [''#'']"
    then have "join_with CHR ''/'' ?as = ''+/#''" "join_with CHR ''/'' ?rs = ''#''" by simp_all
    with assms(4) show False by simp
  qed
  with assms(1,2,3) obtain ts where ts: "ts \<noteq> []" "match_levels ?rs ts" "\<not> match_levels ?as ts"
    and req: "from_request ?rs ts"
    using separating_levels_nonempty [of ?as ?rs]
    by (auto simp: topic_filter_parse_Some_iff filter_subsumes_def)
  define t where "t = join_with CHR ''/'' ts"
  have "CHR ''/'' \<notin> set l" if "l \<in> set ts" for l
    using that req split_on_no_sep [of l "CHR ''/''" requested] by (auto simp: from_request_def)
  with ts(1) have split: "split_on CHR ''/'' t = ts" by (simp add: t_def split_on_join)
  have "\<not> (starts_with ''$'' t \<and> wildcard_level (hd ?rs))"
    using req ts(1) join_with_starts by (auto simp: t_def from_request_def)
  with ts split have "topic_matches requested t" "\<not> topic_matches allowed t"
    by (auto simp: topic_matches_def)
  then show ?thesis by blast
qed

theorem filter_subsumes_complete_witness:
  "topic_filter_parse ''drive/u1/#'' = Some (TopicFilter ''drive/u1/#'') \<and>
   topic_filter_parse ''drive/#'' = Some (TopicFilter ''drive/#'') \<and>
   \<not> filter_subsumes ''drive/u1/#'' ''drive/#'' \<and>
   (\<exists>t. topic_matches ''drive/#'' t \<and> \<not> topic_matches ''drive/u1/#'' t)"
proof -
  have h: "topic_filter_parse ''drive/u1/#'' = Some (TopicFilter ''drive/u1/#'')"
    "topic_filter_parse ''drive/#'' = Some (TopicFilter ''drive/#'')"
    "\<not> filter_subsumes ''drive/u1/#'' ''drive/#''"
    "\<not> (''drive/u1/#'' = ''+/#'' \<and> ''drive/#'' = ''#'')"
    by code_simp+
  show ?thesis using h(1,2,3) filter_subsumes_complete [OF h] by blast
qed


end
