(* ===== verification/Auth.thy ===== *)
theory Auth
  imports Access Utf8
begin

text \<open>
  \<open>relay-server/src/auth.rs\<close>: authentication of a CONNECT by a signed token and the construction
  of its access control list.

  Verifying and decoding the token is the library \<open>jsonwebtoken\<close>: the parameter \<open>decode\<close>, a
  function of the token, the secret and the validation settings the source makes. What the code
  relies on is \<open>jwt_laws\<close>: an accepted token carries every claim that the settings require, and
  its issuer is one the settings allow. The claims are a value of \<open>serde_json\<close>, an object being
  the list of its entries.
\<close>

section \<open>Data\<close>

datatype Value =
    VNull
  | VBool bool
  | VNumber string
  | VString string
  | VArray "Value list"
  | VObject "(string \<times> Value) list"

definition value_as_str :: "Value \<Rightarrow> string option" where
  "value_as_str v = (case v of VString s \<Rightarrow> Some s | _ \<Rightarrow> None)"

definition value_as_array :: "Value \<Rightarrow> Value list option" where
  "value_as_array v = (case v of VArray items \<Rightarrow> Some items | _ \<Rightarrow> None)"

definition value_as_object :: "Value \<Rightarrow> (string \<times> Value) list option" where
  "value_as_object v = (case v of VObject entries \<Rightarrow> Some entries | _ \<Rightarrow> None)"

datatype Algorithm = HS256 | OtherAlgorithm

record Validation =
  v_algorithm :: Algorithm
  v_validate_aud :: bool
  v_required_spec_claims :: "string list"
  v_iss :: "string list"

datatype JwtErrorKind = JwtInvalidIssuer | JwtOtherError

type_synonym jwt_decode = "string \<Rightarrow> bytes \<Rightarrow> Validation \<Rightarrow> JwtErrorKind + Value"

definition EXPECTED_ISSUER :: string where
  "EXPECTED_ISSUER = ''ch-api-authenticator''"

record AclRule =
  r_role :: string
  r_publish :: "string list"
  r_subscribe :: "string list"

record AuthConfig =
  jwt_secret :: string
  identity_claim :: string
  roles_claim :: string
  allowed_audiences :: "string list"
  acl_rules :: "AclRule list"

record Principal =
  pr_identity :: string
  pr_acl :: Acl

datatype AuthError = InvalidToken | NoIdentity | InvalidIssuer | InvalidAudience

section \<open>Defaults\<close>

definition default_identity_claim :: string where
  "default_identity_claim = ''sub''"

definition default_roles_claim :: string where
  "default_roles_claim = ''roles''"

definition default_role :: string where
  "default_role = ''*''"

text \<open>The argument is the environment variable \<open>RELAY_ALLOWED_AUDIENCES\<close>, if it is set.\<close>

definition default_allowed_audiences :: "string option \<Rightarrow> string list" where
  "default_allowed_audiences var = (case var of
     Some raw \<Rightarrow> filter (\<lambda>s. s \<noteq> []) (map trim (split_on CHR '','' raw))
   | None \<Rightarrow> [''ch-api-drive'', ''ch-api-budgy'', ''ch-relay''])"

section \<open>Operations\<close>

definition map_decode_error :: "JwtErrorKind \<Rightarrow> AuthError" where
  "map_decode_error e = (case e of JwtInvalidIssuer \<Rightarrow> InvalidIssuer | _ \<Rightarrow> InvalidToken)"

function substitute_loop :: "(string, string) hash_map \<Rightarrow> string \<Rightarrow> string \<Rightarrow> string option" where
  "substitute_loop vars out rest =
     (case find_char CHR ''{'' rest of
        None \<Rightarrow> Some (out @ rest)
      | Some start \<Rightarrow>
          let out = out @ take start rest;
              after = drop (start + 1) rest
          in case find_char CHR ''}'' after of
               None \<Rightarrow> None
             | Some e \<Rightarrow>
                 (case hm_get vars (take e after) of
                    None \<Rightarrow> None
                  | Some v \<Rightarrow> substitute_loop vars (out @ v) (drop (e + 1) after)))"
  by pat_completeness auto
termination
  by (relation "measure (\<lambda>(vars, out, rest). length rest)") (auto simp: find_char_Some_iff)

declare substitute_loop.simps [simp del]

definition substitute :: "string \<Rightarrow> (string, string) hash_map \<Rightarrow> string option" where
  "substitute pattern vars = substitute_loop vars [] pattern"

definition audience_allowed :: "AuthConfig \<Rightarrow> Value option \<Rightarrow> bool" where
  "audience_allowed cfg aud =
     (let presented = (case aud of
            Some (VString s) \<Rightarrow> Some [s]
          | Some (VArray items) \<Rightarrow> Some (List.map_filter value_as_str items)
          | _ \<Rightarrow> None)
      in case presented of
           None \<Rightarrow> False
         | Some presented \<Rightarrow>
             if presented = [] then False
             else list_ex (\<lambda>a. list_ex (\<lambda>allowed. allowed = a) (allowed_audiences cfg)) presented)"

definition validation :: Validation where
  "validation = \<lparr>v_algorithm = HS256, v_validate_aud = False,
     v_required_spec_claims = [''exp'', ''iss''], v_iss = [EXPECTED_ISSUER]\<rparr>"

definition token_roles :: "AuthConfig \<Rightarrow> (string \<times> Value) list \<Rightarrow> string list" where
  "token_roles cfg claims =
     (case Option.bind (map_of claims (roles_claim cfg)) value_as_array of
        Some arr \<Rightarrow> List.map_filter value_as_str arr
      | None \<Rightarrow> [])"

definition token_vars :: "(string \<times> Value) list \<Rightarrow> string \<Rightarrow> (string, string) hash_map" where
  "token_vars claims identity =
     hm_insert ''sub'' identity
       (foldl (\<lambda>m (k, s). hm_insert k s m) []
         (List.map_filter (\<lambda>(k, v). map_option (Pair k) (value_as_str v)) claims))"

definition push_pattern ::
    "(string, string) hash_map \<Rightarrow> string list \<Rightarrow> string \<Rightarrow> string list" where
  "push_pattern vars pats pat = (case substitute pat vars of Some p \<Rightarrow> pats @ [p] | None \<Rightarrow> pats)"

definition apply_rule :: "string list \<Rightarrow> (string, string) hash_map \<Rightarrow> Acl \<Rightarrow> AclRule \<Rightarrow> Acl" where
  "apply_rule roles vars acl rule =
     (if r_role rule \<noteq> ''*'' \<and> \<not> list_ex (\<lambda>r. r = r_role rule) roles then acl
      else
        let acl = acl\<lparr>acl_publish := foldl (push_pattern vars) (acl_publish acl) (r_publish rule)\<rparr>
        in acl\<lparr>acl_subscribe := foldl (push_pattern vars) (acl_subscribe acl) (r_subscribe rule)\<rparr>)"

definition authenticate :: "jwt_decode \<Rightarrow> AuthConfig \<Rightarrow> bytes option \<Rightarrow> AuthError + Principal" where
  "authenticate decode cfg password =
     (case password of
        None \<Rightarrow> Inl InvalidToken
      | Some raw \<Rightarrow>
     (case from_utf8 raw of
        None \<Rightarrow> Inl InvalidToken
      | Some token \<Rightarrow>
     (case decode token (str_bytes (jwt_secret cfg)) validation of
        Inl e \<Rightarrow> Inl (map_decode_error e)
      | Inr data \<Rightarrow>
     (case value_as_object data of
        None \<Rightarrow> Inl InvalidToken
      | Some claims \<Rightarrow>
          if \<not> audience_allowed cfg (map_of claims ''aud'') then Inl InvalidAudience
          else
     (case Option.bind (map_of claims (identity_claim cfg)) value_as_str of
        None \<Rightarrow> Inl NoIdentity
      | Some identity \<Rightarrow>
          let roles = token_roles cfg claims;
              vars = token_vars claims identity;
              acl = foldl (apply_rule roles vars) acl_default (acl_rules cfg)
          in Inr \<lparr>pr_identity = identity, pr_acl = acl\<rparr>)))))"

text \<open>
  The documented behaviour of the decoder: it accepts a token only if the claims that the settings
  require are present and a textual issuer is one of those allowed.
\<close>

definition jwt_laws :: "jwt_decode \<Rightarrow> bool" where
  "jwt_laws decode \<longleftrightarrow>
     (\<forall>token secret v claims. decode token secret v = Inr (VObject claims) \<longrightarrow>
        (\<forall>c \<in> set (v_required_spec_claims v). map_of claims c \<noteq> None) \<and>
        (\<forall>i. map_of claims ''iss'' = Some (VString i) \<longrightarrow> i \<in> set (v_iss v)))"

section \<open>Templates\<close>

text \<open>
  What a pattern of a rule means: a sequence of literal parts and of references to a claim. The
  text of a pattern is the concatenation of its pieces, and filling it replaces every reference by
  the value of its claim, failing when a claim is missing.
\<close>

datatype piece = Lit string | Ref string

fun piece_text :: "piece \<Rightarrow> string" where
  "piece_text (Lit s) = s"
| "piece_text (Ref k) = CHR ''{'' # k @ [CHR ''}'']"

fun piece_ok :: "piece \<Rightarrow> bool" where
  "piece_ok (Lit s) \<longleftrightarrow> CHR ''{'' \<notin> set s"
| "piece_ok (Ref k) \<longleftrightarrow> CHR ''}'' \<notin> set k"

fun fill :: "(string, string) hash_map \<Rightarrow> piece list \<Rightarrow> string option" where
  "fill vars [] = Some []"
| "fill vars (Lit s # ps) = map_option ((@) s) (fill vars ps)"
| "fill vars (Ref k # ps) =
     (case hm_get vars k of None \<Rightarrow> None | Some v \<Rightarrow> map_option ((@) v) (fill vars ps))"

definition template_text :: "piece list \<Rightarrow> string" where
  "template_text ps = concat (map piece_text ps)"

lemma template_text_simps [simp]:
  "template_text [] = []"
  "template_text (p # ps) = piece_text p @ template_text ps"
  by (simp_all add: template_text_def)

text \<open>One round of the loop, by the shape of the rest of the pattern.\<close>

lemma substitute_loop_end:
  "CHR ''{'' \<notin> set rest \<Longrightarrow> substitute_loop vars out rest = Some (out @ rest)"
  by (subst substitute_loop.simps) (simp add: find_char_None_iff [THEN iffD2])

lemma substitute_loop_open:
  assumes "CHR ''{'' \<notin> set a" "CHR ''}'' \<notin> set after"
  shows "substitute_loop vars out (a @ CHR ''{'' # after) = None"
  using assms
  by (subst substitute_loop.simps) (simp add: find_char_append find_char_None_iff [THEN iffD2])

lemma substitute_loop_ref:
  assumes "CHR ''{'' \<notin> set a" "CHR ''}'' \<notin> set k"
  shows "substitute_loop vars out (a @ CHR ''{'' # k @ CHR ''}'' # rest) =
    (case hm_get vars k of None \<Rightarrow> None | Some v \<Rightarrow> substitute_loop vars (out @ a @ v) rest)"
  using assms by (subst substitute_loop.simps) (simp add: find_char_append split: option.split)

lemma substitute_loop_out:
  "substitute_loop vars out rest = map_option ((@) out) (substitute_loop vars [] rest)"
proof (induction rest arbitrary: out rule: length_induct)
  case (1 rest)
  show ?case
  proof (cases "find_char CHR ''{'' rest")
    case None
    then show ?thesis by (simp add: find_char_None_iff substitute_loop_end)
  next
    case (Some i)
    then obtain a after where rest: "rest = a @ CHR ''{'' # after" "CHR ''{'' \<notin> set a"
      by (rule find_charE)
    show ?thesis
    proof (cases "find_char CHR ''}'' after")
      case None
      with rest show ?thesis by (simp add: find_char_None_iff substitute_loop_open)
    next
      case (Some j)
      then obtain k r where after: "after = k @ CHR ''}'' # r" "CHR ''}'' \<notin> set k"
        by (rule find_charE)
      have IH: "substitute_loop vars out' r = map_option ((@) out') (substitute_loop vars [] r)" for out'
        using rest after by (intro 1 [rule_format]) simp
      show ?thesis using rest after
        by (cases "substitute_loop vars [] r")
          (simp_all add: substitute_loop_ref IH [of "out @ a @ _"] IH [of "a @ _"] split: option.split)
    qed
  qed
qed

lemma substitute_simps:
  "CHR ''{'' \<notin> set rest \<Longrightarrow> substitute rest vars = Some rest"
  "CHR ''{'' \<notin> set a \<Longrightarrow> CHR ''}'' \<notin> set after \<Longrightarrow>
     substitute (a @ CHR ''{'' # after) vars = None"
  "CHR ''{'' \<notin> set a \<Longrightarrow> CHR ''}'' \<notin> set k \<Longrightarrow>
     substitute (a @ CHR ''{'' # k @ CHR ''}'' # rest) vars =
       (case hm_get vars k of None \<Rightarrow> None
        | Some v \<Rightarrow> map_option ((@) (a @ v)) (substitute rest vars))"
  by (simp_all add: substitute_def substitute_loop_end substitute_loop_open substitute_loop_ref
      substitute_loop_out [of vars "a @ _"] split: option.split)

lemma substitute_lit:
  assumes "CHR ''{'' \<notin> set a"
  shows "substitute (a @ rest) vars = map_option ((@) a) (substitute rest vars)"
proof (cases "find_char CHR ''{'' rest")
  case None
  with assms show ?thesis by (simp add: find_char_None_iff substitute_simps)
next
  case (Some i)
  then obtain b after where rest: "rest = b @ CHR ''{'' # after" "CHR ''{'' \<notin> set b"
    by (rule find_charE)
  show ?thesis
  proof (cases "find_char CHR ''}'' after")
    case None
    with assms rest substitute_simps(2) [of "a @ b" after] substitute_simps(2) [of b after]
    show ?thesis by (simp add: find_char_None_iff)
  next
    case (Some j)
    then obtain k r where "after = k @ CHR ''}'' # r" "CHR ''}'' \<notin> set k"
      by (rule find_charE)
    with assms rest substitute_simps(3) [of "a @ b" k r] substitute_simps(3) [of b k r]
    show ?thesis by (cases "substitute r vars") (simp_all split: option.split)
  qed
qed

lemma substitute_template:
  "list_all piece_ok ps \<Longrightarrow> substitute (template_text ps) vars = fill vars ps"
proof (induction ps rule: fill.induct)
  case (3 vars k ps)
  then show ?case using substitute_simps(3) [of "[]" k "template_text ps"]
    by (simp split: option.split)
qed (simp_all add: substitute_simps substitute_lit)

lemma template_of_pattern:
  "substitute pat vars = Some out \<Longrightarrow> \<exists>ps. list_all piece_ok ps \<and> pat = template_text ps"
proof (induction pat arbitrary: out rule: length_induct)
  case (1 pat)
  show ?case
  proof (cases "find_char CHR ''{'' pat")
    case None
    then show ?thesis by (intro exI [of _ "[Lit pat]"]) (simp add: find_char_None_iff)
  next
    case (Some i)
    then obtain a after where pat: "pat = a @ CHR ''{'' # after" "CHR ''{'' \<notin> set a"
      by (rule find_charE)
    with 1 obtain j where "find_char CHR ''}'' after = Some j"
      by (cases "find_char CHR ''}'' after") (auto simp: find_char_None_iff substitute_simps)
    then obtain k r where after: "after = k @ CHR ''}'' # r" "CHR ''}'' \<notin> set k"
      by (rule find_charE)
    with 1 pat obtain out' where "substitute r vars = Some out'"
      by (auto simp: substitute_simps split: option.splits)
    moreover have "length r < length pat" using pat after by simp
    ultimately obtain ps where "list_all piece_ok ps" "r = template_text ps"
      using 1(1) by blast
    with pat after show ?thesis by (intro exI [of _ "Lit a # Ref k # ps"]) simp
  qed
qed

text \<open>
  C27. \<open>substitute\<close> instantiates a template: it returns a text exactly when the pattern is a
  sequence of literals and closed references whose claims are all present, and that text is the
  pattern with each reference replaced by its claim. An unclosed reference or a missing claim gives
  no pattern at all, so a rule is never granted half-instantiated.
\<close>

theorem substitute_spec:
  "substitute pat vars = Some out \<longleftrightarrow>
     (\<exists>ps. list_all piece_ok ps \<and> pat = template_text ps \<and> fill vars ps = Some out)"
  using substitute_template template_of_pattern by metis

section \<open>Authentication\<close>

text \<open>A rule grants a pattern to a token with its role, after substitution.\<close>

definition rule_applies :: "string list \<Rightarrow> AclRule \<Rightarrow> bool" where
  "rule_applies roles rule \<longleftrightarrow> r_role rule = ''*'' \<or> r_role rule \<in> set roles"

definition rule_grants :: "(AclRule \<Rightarrow> string list) \<Rightarrow> AuthConfig \<Rightarrow> (string \<times> Value) list \<Rightarrow>
    string \<Rightarrow> string \<Rightarrow> bool" where
  "rule_grants patterns cfg claims identity p \<longleftrightarrow>
     (\<exists>rule. rule \<in> set (acl_rules cfg) \<and> rule_applies (token_roles cfg claims) rule \<and>
        (\<exists>pat. pat \<in> set (patterns rule) \<and> substitute pat (token_vars claims identity) = Some p))"

lemma foldl_push_pattern:
  "set (foldl (push_pattern vars) pats ps) =
     set pats \<union> {p. \<exists>pat. pat \<in> set ps \<and> substitute pat vars = Some p}"
  by (induction ps arbitrary: pats) (auto simp: push_pattern_def split: option.split)

lemma apply_rule_sets:
  "set (acl_publish (apply_rule roles vars acl rule)) = set (acl_publish acl) \<union>
     {p. rule_applies roles rule \<and> (\<exists>pat. pat \<in> set (r_publish rule) \<and> substitute pat vars = Some p)}"
  "set (acl_subscribe (apply_rule roles vars acl rule)) = set (acl_subscribe acl) \<union>
     {p. rule_applies roles rule \<and> (\<exists>pat. pat \<in> set (r_subscribe rule) \<and> substitute pat vars = Some p)}"
  by (auto simp: apply_rule_def rule_applies_def foldl_push_pattern list_ex_iff)

lemma foldl_apply_rule:
  "set (acl_publish (foldl (apply_rule roles vars) acl rules)) = set (acl_publish acl) \<union>
     {p. \<exists>rule. rule \<in> set rules \<and> rule_applies roles rule \<and>
        (\<exists>pat. pat \<in> set (r_publish rule) \<and> substitute pat vars = Some p)}"
  "set (acl_subscribe (foldl (apply_rule roles vars) acl rules)) = set (acl_subscribe acl) \<union>
     {p. \<exists>rule. rule \<in> set rules \<and> rule_applies roles rule \<and>
        (\<exists>pat. pat \<in> set (r_subscribe rule) \<and> substitute pat vars = Some p)}"
  by (induction rules arbitrary: acl) (auto simp: apply_rule_sets)

lemma value_as_str_Some [simp]: "value_as_str v = Some s \<longleftrightarrow> v = VString s"
  by (simp add: value_as_str_def split: Value.split)

lemma value_as_str_VString [simp]: "value_as_str (VString s) = Some s"
  by simp

lemma set_map_filter_str: "set (List.map_filter value_as_str items) = {s. VString s \<in> set items}"
  by (induction items) (auto simp: List.map_filter_simps split: option.split)

lemma map_filter_str_Nil: "List.map_filter value_as_str items = [] \<longleftrightarrow> (\<forall>s. VString s \<notin> set items)"
  using set_map_filter_str [of items] by (auto simp flip: set_empty)

lemma audience_allowed_iff:
  "audience_allowed cfg aud \<longleftrightarrow>
     (\<exists>a. a \<in> set (allowed_audiences cfg) \<and>
        (aud = Some (VString a) \<or> (\<exists>items. aud = Some (VArray items) \<and> VString a \<in> set items)))"
  by (auto simp: audience_allowed_def list_ex_iff Let_def set_map_filter_str map_filter_str_Nil
      split: option.split Value.split)

lemma authenticate_InrE:
  assumes "authenticate decode cfg password = Inr pr"
  obtains raw token claims where
    "password = Some raw" "from_utf8 raw = Some token"
    "decode token (str_bytes (jwt_secret cfg)) validation = Inr (VObject claims)"
    "audience_allowed cfg (map_of claims ''aud'')"
    "map_of claims (identity_claim cfg) = Some (VString (pr_identity pr))"
    "pr_acl pr = foldl (apply_rule (token_roles cfg claims) (token_vars claims (pr_identity pr)))
       acl_default (acl_rules cfg)"
  using assms
  by (auto simp: authenticate_def Let_def value_as_object_def bind_eq_Some_conv
      split: option.splits sum.splits Value.splits if_splits)

text \<open>
  C9. Authentication fails closed and grants least privilege: a principal is returned only for a
  password that decodes, under the configured secret, to an object of claims with an expiry, an
  issuer that is the expected one, and an allowed audience; its identity is the textual identity
  claim; and it may publish and subscribe exactly what a rule for one of its roles, or for every
  role, grants after the substitution of its claims.
\<close>

theorem authenticate_grants:
  assumes "jwt_laws decode" "authenticate decode cfg password = Inr pr"
  shows "\<exists>raw token claims.
    password = Some raw \<and> from_utf8 raw = Some token \<and>
    decode token (str_bytes (jwt_secret cfg)) validation = Inr (VObject claims) \<and>
    map_of claims ''exp'' \<noteq> None \<and> map_of claims ''iss'' \<noteq> None \<and>
    (\<forall>i. map_of claims ''iss'' = Some (VString i) \<longrightarrow> i = EXPECTED_ISSUER) \<and>
    (\<exists>a. a \<in> set (allowed_audiences cfg) \<and>
       (map_of claims ''aud'' = Some (VString a) \<or>
        (\<exists>items. map_of claims ''aud'' = Some (VArray items) \<and> VString a \<in> set items))) \<and>
    map_of claims (identity_claim cfg) = Some (VString (pr_identity pr)) \<and>
    (\<forall>p. p \<in> set (acl_publish (pr_acl pr)) \<longleftrightarrow> rule_grants r_publish cfg claims (pr_identity pr) p) \<and>
    (\<forall>p. p \<in> set (acl_subscribe (pr_acl pr)) \<longleftrightarrow> rule_grants r_subscribe cfg claims (pr_identity pr) p)"
proof -
  from assms(2) obtain raw token claims where
    token: "password = Some raw" "from_utf8 raw = Some token"
      "decode token (str_bytes (jwt_secret cfg)) validation = Inr (VObject claims)" and
    aud: "audience_allowed cfg (map_of claims ''aud'')" and
    identity: "map_of claims (identity_claim cfg) = Some (VString (pr_identity pr))" and
    acl: "pr_acl pr = foldl (apply_rule (token_roles cfg claims) (token_vars claims (pr_identity pr)))
       acl_default (acl_rules cfg)"
    by (rule authenticate_InrE)
  have "(\<forall>c \<in> set (v_required_spec_claims validation). map_of claims c \<noteq> None) \<and>
      (\<forall>i. map_of claims ''iss'' = Some (VString i) \<longrightarrow> i \<in> set (v_iss validation))"
    using assms(1) token(3) unfolding jwt_laws_def by blast
  then have jwt: "map_of claims ''exp'' \<noteq> None" "map_of claims ''iss'' \<noteq> None"
      "\<forall>i. map_of claims ''iss'' = Some (VString i) \<longrightarrow> i = EXPECTED_ISSUER"
    by (simp_all add: validation_def)
  have acl_sets: "p \<in> set (acl_publish (pr_acl pr)) \<longleftrightarrow> rule_grants r_publish cfg claims (pr_identity pr) p"
      "p \<in> set (acl_subscribe (pr_acl pr)) \<longleftrightarrow> rule_grants r_subscribe cfg claims (pr_identity pr) p" for p
    by (simp_all add: acl foldl_apply_rule rule_grants_def acl_default_def)
  show ?thesis
    using token jwt aud [unfolded audience_allowed_iff] identity acl_sets
    by (intro exI [of _ raw] exI [of _ token] exI [of _ claims]) simp
qed

text \<open>A decoder that knows one token, and a configuration with a rule for drivers.\<close>

definition toy_claims :: "string \<Rightarrow> (string \<times> Value) list" where
  "toy_claims sub = [(''aud'', VString ''ch-relay''), (''exp'', VNumber ''4102444800''),
     (''iss'', VString EXPECTED_ISSUER), (''roles'', VArray [VString ''driver'']),
     (''sub'', VString sub)]"

definition toy_decode :: "string \<Rightarrow> jwt_decode" where
  "toy_decode sub token secret v =
     (if token = ''tok'' \<and> secret = str_bytes ''key'' \<and> v = validation
      then Inr (VObject (toy_claims sub)) else Inl JwtOtherError)"

definition toy_config :: AuthConfig where
  "toy_config = \<lparr>jwt_secret = ''key'', identity_claim = default_identity_claim,
     roles_claim = default_roles_claim, allowed_audiences = default_allowed_audiences None,
     acl_rules = [\<lparr>r_role = ''driver'', r_publish = [], r_subscribe = [''drive/{sub}'']\<rparr>,
       \<lparr>r_role = ''admin'', r_publish = [''#''], r_subscribe = [''#'']\<rparr>]\<rparr>"

lemma toy_decode_laws: "jwt_laws (toy_decode sub)"
  by (auto simp: jwt_laws_def toy_decode_def validation_def toy_claims_def)

lemma authenticate_toy:
  "authenticate (toy_decode ''ann'') toy_config (Some (str_bytes ''tok'')) =
     Inr \<lparr>pr_identity = ''ann'', pr_acl = \<lparr>acl_publish = [], acl_subscribe = [''drive/ann'']\<rparr>\<rparr>"
  by code_simp

theorem authenticate_grants_witness:
  "\<exists>claims. toy_decode ''ann'' ''tok'' (str_bytes (jwt_secret toy_config)) validation =
       Inr (VObject claims) \<and>
     map_of claims (identity_claim toy_config) = Some (VString ''ann'') \<and>
     rule_grants r_subscribe toy_config claims ''ann'' ''drive/ann''"
  using authenticate_grants [OF toy_decode_laws authenticate_toy]
  by (force simp: toy_decode_def split: if_splits)

text \<open>
  The value of a claim enters a pattern as it is, wildcards included: a token whose subject is
  \<open>#\<close> turns the rule \<open>drive/{sub}\<close>, meant for one driver's own topic, into a subscription to the
  topics of every driver.
\<close>

lemma claim_wildcard_escapes:
  "\<exists>pr. authenticate (toy_decode ''#'') toy_config (Some (str_bytes ''tok'')) = Inr pr \<and>
     acl_subscribe (pr_acl pr) = [''drive/#''] \<and>
     can_subscribe (pr_acl pr) ''drive/ann'' \<and> can_subscribe (pr_acl pr) ''drive/bob''"
proof -
  have "authenticate (toy_decode ''#'') toy_config (Some (str_bytes ''tok'')) =
      Inr \<lparr>pr_identity = ''#'', pr_acl = \<lparr>acl_publish = [], acl_subscribe = [''drive/#'']\<rparr>\<rparr>"
    by code_simp
  moreover have "can_subscribe \<lparr>acl_publish = [], acl_subscribe = [''drive/#'']\<rparr> ''drive/ann''"
      "can_subscribe \<lparr>acl_publish = [], acl_subscribe = [''drive/#'']\<rparr> ''drive/bob''"
    by code_simp+
  ultimately show ?thesis by simp
qed

end
