(* ===== verification/Connection.thy ===== *)
theory Connection
  imports Hub_Invariant Auth
begin

text \<open>
  \<open>relay-server/src/connection.rs\<close>: the life of one client connection. The codec that frames the
  byte stream is a library, so the handler consumes packets: each event of a connection is what
  one branch of its \<open>select!\<close> yields, with the readings of the clocks, whether a write to the
  socket succeeds, the channel a new attachment uses, and what the other tasks did to the shared
  hub since the previous event. \<open>None\<close> stands for a panic or for a wait that never ends.
\<close>

section \<open>Data\<close>

definition MAX_QOS :: QoS where
  "MAX_QOS = ExactlyOnce"

record Limits =
  connect_timeout :: Duration
  max_subscriptions_per_client :: usize

datatype Inbound = InPacket Packet | InProtocolError | InClosed

text \<open>What a connection is started with, besides the hub.\<close>

record ('s, 'u, 'e) Context =
  cx_db :: "('s, 'u, 'e) Redb"
  cx_decode :: jwt_decode
  cx_auth :: AuthConfig
  cx_limits :: Limits
  cx_peer :: string

text \<open>The surroundings of one event.\<close>

record ('s, 'u, 'e) Tick =
  tk_tx :: chan
  tk_now :: Instant
  tk_ts :: u64
  tk_sink_ok :: bool
  tk_others :: "('s, 'u, 'e) Hub \<Rightarrow> ('s, 'u, 'e) Hub"

text \<open>The local variables of the handler.\<close>

record Conn =
  cs_session_id :: "ClientId option"
  cs_generation :: u64
  cs_rx :: "chan option"
  cs_access :: Acl
  cs_will :: "Message option"
  cs_clean_disconnect :: bool
  cs_active_filters :: "string list"

definition conn_init :: Conn where
  "conn_init = \<lparr>cs_session_id = None, cs_generation = 0, cs_rx = None, cs_access = acl_default,
     cs_will = None, cs_clean_disconnect = False, cs_active_filters = []\<rparr>"

datatype Flow = Continue | Break

type_synonym ('s, 'u, 'e) outcome = "(Flow \<times> Conn \<times> ('s, 'u, 'e) Hub \<times> Packet list) option"

text \<open>\<open>if sink.send(packet).await.is_err() { break; }\<close>\<close>

definition respond ::
    "('s, 'u, 'e) Tick \<Rightarrow> Conn \<Rightarrow> ('s, 'u, 'e) Hub \<Rightarrow> Packet \<Rightarrow> ('s, 'u, 'e) outcome" where
  "respond tk c h packet =
     Some (if tk_sink_ok tk then (Continue, c, h, [packet]) else (Break, c, h, []))"

text \<open>\<open>let _ = sink.send(packet).await; break;\<close>\<close>

definition respond_and_break ::
    "('s, 'u, 'e) Tick \<Rightarrow> Conn \<Rightarrow> ('s, 'u, 'e) Hub \<Rightarrow> Packet \<Rightarrow> ('s, 'u, 'e) outcome" where
  "respond_and_break tk c h packet = Some (Break, c, h, if tk_sink_ok tk then [packet] else [])"

definition proceed :: "Conn \<Rightarrow> ('s, 'u, 'e) Hub \<Rightarrow> ('s, 'u, 'e) outcome" where
  "proceed c h = Some (Continue, c, h, [])"

definition break_off :: "Conn \<Rightarrow> ('s, 'u, 'e) Hub \<Rightarrow> ('s, 'u, 'e) outcome" where
  "break_off c h = Some (Break, c, h, [])"

text \<open>
  \<open>hub.flush().await\<close>: the marker is queued and the caller waits until the worker has reached it,
  so every write queued before is on disk.
\<close>

definition flush_wait :: "('s, 'u, 'e) Redb \<Rightarrow> ('s, 'u, 'e) Hub \<Rightarrow> ('s, 'u, 'e) Hub option" where
  "flush_wait db h =
     (let h = hub_flush h in
      case (h_storage h, h_persist h) of
        (Some st, Some ops) \<Rightarrow>
          map_option (\<lambda>st. h\<lparr>h_storage := Some st, h_persist := Some []\<rparr>) (run_persist_worker db st ops)
      | _ \<Rightarrow> Some h)"

definition parse_replay :: "string \<Rightarrow> (u64 \<times> TopicFilter) option" where
  "parse_replay rest = do {
     (from, flt) \<leftarrow> split_once CHR ''/'' rest;
     from \<leftarrow> parse_u64 from;
     flt \<leftarrow> topic_filter_parse flt;
     Some (from, flt) }"

text \<open>\<open>None\<close> is a future that stays pending.\<close>

definition next_outbound :: "chan option \<Rightarrow> Packet option \<Rightarrow> Packet option option" where
  "next_outbound rx received = (case rx of Some _ \<Rightarrow> Some received | None \<Rightarrow> None)"

text \<open>An item of the packet stream: its end, a decoding error or a packet.\<close>

definition next_inbound :: "Packet option \<Rightarrow> Packet option option \<Rightarrow> Inbound" where
  "next_inbound buffered item =
     (case buffered of
        Some packet \<Rightarrow> InPacket packet
      | None \<Rightarrow> (case item of
            Some (Some packet) \<Rightarrow> InPacket packet
          | Some None \<Rightarrow> InProtocolError
          | None \<Rightarrow> InClosed))"

section \<open>CONNECT\<close>

definition will_message :: "LastWill \<Rightarrow> Message" where
  "will_message w = \<lparr>m_topic = w_topic w, m_payload = w_message w, m_qos = to_core_qos (w_qos w),
     m_retain = w_retain w\<rparr>"

definition will_denied :: "Acl \<Rightarrow> LastWill option \<Rightarrow> bool" where
  "will_denied access will =
     (case will of Some w \<Rightarrow> \<not> can_publish access (w_topic w) | None \<Rightarrow> False)"

text \<open>The client identifier and the clean-start flag a CONNECT is served with.\<close>

definition connect_identity :: "('s, 'u, 'e) Context \<Rightarrow> Connect \<Rightarrow> string \<times> bool" where
  "connect_identity cx pkt =
     (if c_client_id pkt = [] then (''anon:'' @ cx_peer cx, True) else (c_client_id pkt, c_clean_start pkt))"

definition on_connect ::
    "('s, 'u, 'e) Context \<Rightarrow> ('s, 'u, 'e) Tick \<Rightarrow> Conn \<Rightarrow> ('s, 'u, 'e) Hub \<Rightarrow> Connect
     \<Rightarrow> ('s, 'u, 'e) outcome" where
  "on_connect cx tk c h pkt =
     (let (client_id, clean_start) = connect_identity cx pkt
      in case authenticate (cx_decode cx) (cx_auth cx) (c_password pkt) of
           Inl e \<Rightarrow> respond_and_break tk c h (PktConnectAck False ConnNotAuthorized)
         | Inr pr \<Rightarrow>
             let c = c\<lparr>cs_access := pr_acl pr\<rparr>
             in if will_denied (cs_access c) (c_last_will pkt) then respond_and_break tk c h (PktConnectAck False ConnNotAuthorized)
                else do {
                  (cn, h) \<leftarrow> connect h client_id clean_start (c_session_expiry_interval_secs pkt)
                               (tk_tx tk) (tk_now tk);
                  let c = c\<lparr>cs_session_id := Some (cn_id cn), cs_generation := cn_generation cn,
                            cs_rx := Some (tk_tx tk),
                            cs_will := map_option will_message (c_last_will pkt)\<rparr>;
                  respond tk c h (PktConnectAck (cn_session_present cn) ConnSuccess) })"

section \<open>SUBSCRIBE and UNSUBSCRIBE\<close>

text \<open>
  One filter of a SUBSCRIBE: the reason code pushed to \<open>status\<close>, the retained job if there is one,
  and the set of active filters and the hub afterwards.
\<close>

definition subscribe_filter ::
    "Limits \<Rightarrow> Acl \<Rightarrow> ClientId \<Rightarrow> string list \<Rightarrow> ('s, 'u, 'e) Hub \<Rightarrow> string \<Rightarrow> WireQoS
     \<Rightarrow> SubscribeAckReason \<times> (TopicFilter \<times> QoS) option \<times> string list \<times> ('s, 'u, 'e) Hub" where
  "subscribe_filter limits access cid active h flt opts =
     (let granted = min (to_core_qos opts) MAX_QOS;
          effective = (case shared_parse flt of Some s \<Rightarrow> as_str (ss_filter s) | None \<Rightarrow> flt)
      in if \<not> can_subscribe access effective then (SubNotAuthorized, None, active, h)
         else
           let is_new = \<not> List.member active flt in
           if is_new \<and> unat (max_subscriptions_per_client limits) \<le> length active
           then (SubQuotaExceeded, None, active, h)
           else case shared_parse flt of
             Some sh \<Rightarrow>
               let h = hub_subscribe_shared h (ss_group sh) cid (ss_filter sh) granted flt
               in (granted_reason granted, None, List.insert flt active, h)
           | None \<Rightarrow>
               (case topic_filter_parse flt of
                  Some tf \<Rightarrow>
                    let h = hub_subscribe h cid tf granted flt
                    in (granted_reason granted, Some (tf, granted), List.insert flt active, h)
                | None \<Rightarrow> (SubTopicFilterInvalid, None, active, h)))"

fun subscribe_filters ::
    "Limits \<Rightarrow> Acl \<Rightarrow> ClientId \<Rightarrow> string list \<Rightarrow> ('s, 'u, 'e) Hub \<Rightarrow> (string \<times> WireQoS) list
     \<Rightarrow> SubscribeAckReason list \<times> (TopicFilter \<times> QoS) list \<times> string list \<times> ('s, 'u, 'e) Hub" where
  "subscribe_filters limits access cid active h [] = ([], [], active, h)"
| "subscribe_filters limits access cid active h ((flt, opts) # rest) =
     (let (reason, job, active, h) = subscribe_filter limits access cid active h flt opts;
          (status, jobs, active, h) = subscribe_filters limits access cid active h rest
      in (reason # status, (case job of Some j \<Rightarrow> j # jobs | None \<Rightarrow> jobs), active, h))"

fun retained_jobs ::
    "('s, 'u, 'e) Hub \<Rightarrow> ClientId \<Rightarrow> (TopicFilter \<times> QoS) list \<Rightarrow> Instant \<Rightarrow> ('s, 'u, 'e) Hub option" where
  "retained_jobs h cid [] now = Some h"
| "retained_jobs h cid ((tf, granted) # jobs) now = do {
     h \<leftarrow> deliver_retained h cid tf granted now;
     retained_jobs h cid jobs now }"

definition on_subscribe ::
    "('s, 'u, 'e) Context \<Rightarrow> ('s, 'u, 'e) Tick \<Rightarrow> Conn \<Rightarrow> ('s, 'u, 'e) Hub \<Rightarrow> u16 \<Rightarrow> (string \<times> WireQoS) list
     \<Rightarrow> ('s, 'u, 'e) outcome" where
  "on_subscribe cx tk c h packet_id filters =
     (case cs_session_id c of
        None \<Rightarrow> break_off c h
      | Some cid \<Rightarrow>
          let (status, jobs, active, h) =
                subscribe_filters (cx_limits cx) (cs_access c) cid (cs_active_filters c) h filters;
              c = c\<lparr>cs_active_filters := active\<rparr>;
              ack = PktSubscribeAck packet_id status
          in if \<not> tk_sink_ok tk then break_off c h
             else do {
               h \<leftarrow> retained_jobs h cid jobs (tk_now tk);
               Some (Continue, c, h, [ack]) })"

fun unsubscribe_filters ::
    "ClientId \<Rightarrow> string list \<Rightarrow> ('s, 'u, 'e) Hub \<Rightarrow> string list
     \<Rightarrow> UnsubscribeAckReason list \<times> string list \<times> ('s, 'u, 'e) Hub" where
  "unsubscribe_filters cid active h [] = ([], active, h)"
| "unsubscribe_filters cid active h (flt # rest) =
     (let (existed, h) = hub_unsubscribe h cid flt;
          active = removeAll flt active;
          (status, active, h) = unsubscribe_filters cid active h rest
      in ((if existed then UnsubSuccess else NoSubscriptionExisted) # status, active, h))"

definition on_unsubscribe ::
    "('s, 'u, 'e) Tick \<Rightarrow> Conn \<Rightarrow> ('s, 'u, 'e) Hub \<Rightarrow> u16 \<Rightarrow> string list \<Rightarrow> ('s, 'u, 'e) outcome" where
  "on_unsubscribe tk c h packet_id filters =
     (case cs_session_id c of
        None \<Rightarrow> break_off c h
      | Some cid \<Rightarrow>
          let (status, active, h) = unsubscribe_filters cid (cs_active_filters c) h filters;
              c = c\<lparr>cs_active_filters := active\<rparr>
          in respond tk c h (PktUnsubscribeAck packet_id status))"

section \<open>PUBLISH\<close>

definition replay_ack ::
    "('s, 'u, 'e) Tick \<Rightarrow> Conn \<Rightarrow> ('s, 'u, 'e) Hub \<Rightarrow> Publish \<Rightarrow> ('s, 'u, 'e) outcome" where
  "replay_ack tk c h p =
     (case (to_core_qos (p_qos p), p_packet_id p) of
        (AtLeastOnce, Some packet_id) \<Rightarrow> respond tk c h (PktPublishAck packet_id PubSuccess)
      | (ExactlyOnce, Some packet_id) \<Rightarrow> respond tk c h (pubrec packet_id)
      | _ \<Rightarrow> proceed c h)"

definition on_replay_request ::
    "('s, 'u, 'e) Context \<Rightarrow> ('s, 'u, 'e) Tick \<Rightarrow> Conn \<Rightarrow> ('s, 'u, 'e) Hub \<Rightarrow> ClientId \<Rightarrow> Publish \<Rightarrow> string
     \<Rightarrow> ('s, 'u, 'e) outcome" where
  "on_replay_request cx tk c h cid p rest = do {
     h \<leftarrow> (case parse_replay rest of
             Some (from, flt) \<Rightarrow>
               if can_subscribe (cs_access c) (as_str flt)
               then map_option (\<lambda>h. snd (replay (cx_db cx) h cid from flt)) (flush_wait (cx_db cx) h)
               else Some h
           | None \<Rightarrow> Some h);
     replay_ack tk c h p }"

definition on_publish_denied ::
    "('s, 'u, 'e) Tick \<Rightarrow> Conn \<Rightarrow> ('s, 'u, 'e) Hub \<Rightarrow> Publish \<Rightarrow> ('s, 'u, 'e) outcome" where
  "on_publish_denied tk c h p =
     (case (to_core_qos (p_qos p), p_packet_id p) of
        (AtLeastOnce, Some packet_id) \<Rightarrow> respond tk c h (PktPublishAck packet_id PubNotAuthorized)
      | (ExactlyOnce, Some packet_id) \<Rightarrow> respond tk c h (PktPublishReceived packet_id PubNotAuthorized)
      | _ \<Rightarrow> proceed c h)"

definition on_publish_routed ::
    "('s, 'u, 'e) Tick \<Rightarrow> Conn \<Rightarrow> ('s, 'u, 'e) Hub \<Rightarrow> ClientId \<Rightarrow> Publish \<Rightarrow> ('s, 'u, 'e) outcome" where
  "on_publish_routed tk c h cid p =
     (let msg_qos = to_core_qos (p_qos p);
          route_it = (\<lambda>h. publish h (p_topic p) (p_payload p) msg_qos (p_retain p) (tk_now tk) (tk_ts tk))
      in case msg_qos of
           AtMostOnce \<Rightarrow> do { (n, h) \<leftarrow> route_it h; proceed c h }
         | AtLeastOnce \<Rightarrow>
             (case p_packet_id p of
                None \<Rightarrow> break_off c h
              | Some packet_id \<Rightarrow> do {
                  (n, h) \<leftarrow> route_it h;
                  respond tk c h (PktPublishAck packet_id PubSuccess) })
         | ExactlyOnce \<Rightarrow>
             (case p_packet_id p of
                None \<Rightarrow> break_off c h
              | Some packet_id \<Rightarrow>
                  let (first, h) = inbound_qos2_seen h cid packet_id
                  in if first then do { (n, h) \<leftarrow> route_it h; respond tk c h (pubrec packet_id) }
                     else respond tk c h (pubrec packet_id)))"

definition on_publish ::
    "('s, 'u, 'e) Context \<Rightarrow> ('s, 'u, 'e) Tick \<Rightarrow> Conn \<Rightarrow> ('s, 'u, 'e) Hub \<Rightarrow> Publish
     \<Rightarrow> ('s, 'u, 'e) outcome" where
  "on_publish cx tk c h p =
     (case cs_session_id c of
        None \<Rightarrow> break_off c h
      | Some cid \<Rightarrow>
          (case strip_prefix ''$replay/'' (p_topic p) of
             Some rest \<Rightarrow> on_replay_request cx tk c h cid p rest
           | None \<Rightarrow>
               if \<not> can_publish (cs_access c) (p_topic p) then on_publish_denied tk c h p
               else on_publish_routed tk c h cid p))"

section \<open>The handler\<close>

definition on_session :: "Conn \<Rightarrow> ('s, 'u, 'e) Hub \<Rightarrow> (ClientId \<Rightarrow> ('s, 'u, 'e) Hub) \<Rightarrow> ('s, 'u, 'e) Hub" where
  "on_session c h f = (case cs_session_id c of Some cid \<Rightarrow> f cid | None \<Rightarrow> h)"

definition on_publish_release ::
    "('s, 'u, 'e) Tick \<Rightarrow> Conn \<Rightarrow> ('s, 'u, 'e) Hub \<Rightarrow> u16 \<Rightarrow> ('s, 'u, 'e) outcome" where
  "on_publish_release tk c h packet_id =
     respond tk c (on_session c h (\<lambda>cid. inbound_qos2_release h cid packet_id)) (pubcomp packet_id)"

definition on_ping_request ::
    "('s, 'u, 'e) Context \<Rightarrow> ('s, 'u, 'e) Tick \<Rightarrow> Conn \<Rightarrow> ('s, 'u, 'e) Hub \<Rightarrow> ('s, 'u, 'e) outcome" where
  "on_ping_request cx tk c h = do { h \<leftarrow> flush_wait (cx_db cx) h; respond tk c h PktPingResponse }"

definition on_disconnect :: "Conn \<Rightarrow> ('s, 'u, 'e) Hub \<Rightarrow> DisconnectReasonCode \<Rightarrow> ('s, 'u, 'e) outcome" where
  "on_disconnect c h reason =
     break_off (if reason = NormalDisconnection then c\<lparr>cs_clean_disconnect := True\<rparr> else c) h"

definition on_outgoing ::
    "('s, 'u, 'e) Tick \<Rightarrow> Conn \<Rightarrow> ('s, 'u, 'e) Hub \<Rightarrow> Packet option \<Rightarrow> ('s, 'u, 'e) outcome" where
  "on_outgoing tk c h received =
     (case next_outbound (cs_rx c) received of
        None \<Rightarrow> proceed c h
      | Some (Some packet) \<Rightarrow> respond tk c h packet
      | Some None \<Rightarrow> break_off c h)"

definition handle_packet ::
    "('s, 'u, 'e) Context \<Rightarrow> ('s, 'u, 'e) Tick \<Rightarrow> Conn \<Rightarrow> ('s, 'u, 'e) Hub \<Rightarrow> Packet
     \<Rightarrow> ('s, 'u, 'e) outcome" where
  "handle_packet cx tk c h packet =
     (case packet of
        PktConnect pkt \<Rightarrow> on_connect cx tk c h pkt
      | PktSubscribe packet_id filters \<Rightarrow> on_subscribe cx tk c h packet_id filters
      | PktPublish p \<Rightarrow> on_publish cx tk c h p
      | PktPublishAck packet_id _ \<Rightarrow> proceed c (on_session c h (\<lambda>cid. on_puback h cid packet_id))
      | PktPublishReceived packet_id _ \<Rightarrow> proceed c (on_session c h (\<lambda>cid. on_pubrec h cid packet_id))
      | PktPublishComplete packet_id \<Rightarrow> proceed c (on_session c h (\<lambda>cid. on_pubcomp h cid packet_id))
      | PktPublishRelease packet_id \<Rightarrow> on_publish_release tk c h packet_id
      | PktUnsubscribe packet_id filters \<Rightarrow> on_unsubscribe tk c h packet_id filters
      | PktPingRequest \<Rightarrow> on_ping_request cx tk c h
      | PktDisconnect reason \<Rightarrow> on_disconnect c h reason
      | _ \<Rightarrow> proceed c h)"

datatype ConnEvent = Incoming Inbound | Outgoing "Packet option"

definition conn_event ::
    "('s, 'u, 'e) Context \<Rightarrow> ('s, 'u, 'e) Tick \<Rightarrow> Conn \<Rightarrow> ('s, 'u, 'e) Hub \<Rightarrow> ConnEvent
     \<Rightarrow> ('s, 'u, 'e) outcome" where
  "conn_event cx tk c h ev =
     (case ev of
        Incoming (InPacket packet) \<Rightarrow> handle_packet cx tk c h packet
      | Incoming InProtocolError \<Rightarrow> break_off c h
      | Incoming InClosed \<Rightarrow> break_off c h
      | Outgoing received \<Rightarrow> on_outgoing tk c h received)"

fun conn_loop ::
    "('s, 'u, 'e) Context \<Rightarrow> Conn \<Rightarrow> ('s, 'u, 'e) Hub \<Rightarrow> (('s, 'u, 'e) Tick \<times> ConnEvent) list
     \<Rightarrow> ('s, 'u, 'e) outcome" where
  "conn_loop cx c h [] = Some (Continue, c, h, [])"
| "conn_loop cx c h ((tk, ev) # evs) = do {
     (flow, c, h, out) \<leftarrow> conn_event cx tk c (tk_others tk h) ev;
     (case flow of
        Break \<Rightarrow> Some (Break, c, h, out)
      | Continue \<Rightarrow> do {
          (flow, c, h, out') \<leftarrow> conn_loop cx c h evs;
          Some (flow, c, h, out @ out') }) }"

text \<open>After the loop: the Will of an unclean disconnect, then the end of the attachment.\<close>

definition conn_close ::
    "('s, 'u, 'e) Tick \<Rightarrow> Conn \<Rightarrow> ('s, 'u, 'e) Hub \<Rightarrow> ('s, 'u, 'e) Hub option" where
  "conn_close tk c h = do {
     h \<leftarrow> (if \<not> cs_clean_disconnect c then
             (case cs_will c of
                Some w \<Rightarrow> map_option snd
                  (publish h (m_topic w) (m_payload w) (m_qos w) (m_retain w) (tk_now tk) (tk_ts tk))
              | None \<Rightarrow> Some h)
           else Some h);
     Some (on_session c h (\<lambda>cid. detach h cid (cs_generation c))) }"

text \<open>
  The whole handler on the first item of the stream (\<open>None\<close>: none before the timeout), and the
  events that follow. The result tells whether the connection has ended; if it has, \<open>tk_end\<close> are
  the surroundings of its end.
\<close>

definition handle ::
    "('s, 'u, 'e) Context \<Rightarrow> ('s, 'u, 'e) Hub \<Rightarrow> ('s, 'u, 'e) Tick \<Rightarrow> Packet option option option
     \<Rightarrow> (('s, 'u, 'e) Tick \<times> ConnEvent) list \<Rightarrow> ('s, 'u, 'e) Tick
     \<Rightarrow> (Flow \<times> ('s, 'u, 'e) Hub \<times> Packet list) option" where
  "handle cx h tk first evs tk_end =
     (case map_option (next_inbound None) first of
        Some (InPacket p) \<Rightarrow> do {
          (flow, c, h, out) \<leftarrow> conn_loop cx conn_init h ((tk, Incoming (next_inbound (Some p) None)) # evs);
          (case flow of
             Continue \<Rightarrow> Some (Continue, h, out)
           | Break \<Rightarrow> do {
               h \<leftarrow> conn_close tk_end c (tk_others tk_end h);
               Some (Break, h, out) }) }
      | Some InProtocolError \<Rightarrow> Some (Break, h, [])
      | Some InClosed \<Rightarrow> Some (Break, h, [])
      | None \<Rightarrow> Some (Break, h, []))"

end
