(* ===== verification/Connection_Safety.thy ===== *)
theory Connection_Safety
  imports Connection
begin

text \<open>
  What a connection may do to the shared hub: every call it makes is covered by the access list of
  the principal it authenticated last and concerns the session it opened last. The subscription quota and the addressing of replays are shown here as well.
\<close>

section \<open>The calls a connection is entitled to\<close>

text \<open>
  What a connection has been granted: the access list of the principal it authenticated last, the
  session it opened last and the Will that was accepted with it.
\<close>

record Grant =
  gr_acl :: Acl
  gr_session :: "ClientId option"
  gr_generation :: u64
  gr_will :: "Message option"

definition grant_of :: "Conn \<Rightarrow> Grant" where
  "grant_of c = \<lparr>gr_acl = cs_access c, gr_session = cs_session_id c, gr_generation = cs_generation c,
     gr_will = cs_will c\<rparr>"

text \<open>
  The calls of the hub that a grant allows. \<open>acls\<close> are the access lists that the packet at hand
  authenticates; \<open>legal\<close> is what is known of the arguments of a \<open>connect\<close>.
\<close>

inductive conn_call ::
    "('s, 'u, 'e) Redb \<Rightarrow> (('s, 'u, 'e) Hub \<Rightarrow> string \<Rightarrow> bool \<Rightarrow> u32 \<Rightarrow> bool) \<Rightarrow> Acl set \<Rightarrow>
     Grant \<times> ('s, 'u, 'e) Hub \<Rightarrow> Grant \<times> ('s, 'u, 'e) Hub \<Rightarrow> bool"
  for db legal acls where
  call_connect: "acl \<in> acls \<Longrightarrow> pred_option (\<lambda>w. can_publish acl (m_topic w)) will \<Longrightarrow>
     legal h client clean expiry \<Longrightarrow> connect h client clean expiry tx now = Some (cn, h') \<Longrightarrow>
     conn_call db legal acls (g, h) (\<lparr>gr_acl = acl, gr_session = Some (cn_id cn),
       gr_generation = cn_generation cn, gr_will = will\<rparr>, h')"
| call_refused: "acl \<in> acls \<Longrightarrow> conn_call db legal acls (g, h) (g\<lparr>gr_acl := acl\<rparr>, h)"
| call_publish: "gr_session g = Some cid \<Longrightarrow> can_publish (gr_acl g) topic \<Longrightarrow>
     publish h topic payload qos retain now ts = Some (n, h') \<Longrightarrow> conn_call db legal acls (g, h) (g, h')"
| call_will: "gr_will g = Some w \<Longrightarrow>
     publish h (m_topic w) (m_payload w) (m_qos w) (m_retain w) now ts = Some (n, h') \<Longrightarrow>
     conn_call db legal acls (g, h) (g, h')"
| call_subscribe: "gr_session g = Some cid \<Longrightarrow> can_subscribe (gr_acl g) (as_str flt) \<Longrightarrow>
     shared_parse raw = None \<Longrightarrow> topic_filter_parse raw = Some flt \<Longrightarrow>
     conn_call db legal acls (g, h) (g, hub_subscribe h cid flt qos raw)"
| call_subscribe_shared: "gr_session g = Some cid \<Longrightarrow> shared_parse raw = Some sh \<Longrightarrow>
     can_subscribe (gr_acl g) (as_str (ss_filter sh)) \<Longrightarrow>
     conn_call db legal acls (g, h) (g, hub_subscribe_shared h (ss_group sh) cid (ss_filter sh) qos raw)"
| call_retained: "gr_session g = Some cid \<Longrightarrow> can_subscribe (gr_acl g) (as_str flt) \<Longrightarrow>
     deliver_retained h cid flt granted now = Some h' \<Longrightarrow> conn_call db legal acls (g, h) (g, h')"
| call_replay: "gr_session g = Some cid \<Longrightarrow> can_subscribe (gr_acl g) (as_str flt) \<Longrightarrow>
     conn_call db legal acls (g, h) (g, snd (replay db h cid from flt))"
| call_unsubscribe: "gr_session g = Some cid \<Longrightarrow> conn_call db legal acls (g, h) (g, snd (hub_unsubscribe h cid raw))"
| call_puback: "gr_session g = Some cid \<Longrightarrow> conn_call db legal acls (g, h) (g, on_puback h cid pid)"
| call_pubrec: "gr_session g = Some cid \<Longrightarrow> conn_call db legal acls (g, h) (g, on_pubrec h cid pid)"
| call_pubcomp: "gr_session g = Some cid \<Longrightarrow> conn_call db legal acls (g, h) (g, on_pubcomp h cid pid)"
| call_seen: "gr_session g = Some cid \<Longrightarrow> conn_call db legal acls (g, h) (g, snd (inbound_qos2_seen h cid pid))"
| call_release: "gr_session g = Some cid \<Longrightarrow> conn_call db legal acls (g, h) (g, inbound_qos2_release h cid pid)"
| call_detach: "gr_session g = Some cid \<Longrightarrow> conn_call db legal acls (g, h) (g, detach h cid (gr_generation g))"
| call_flush: "flush_wait db h = Some h' \<Longrightarrow> conn_call db legal acls (g, h) (g, h')"

abbreviation conn_calls ::
    "('s, 'u, 'e) Redb \<Rightarrow> (('s, 'u, 'e) Hub \<Rightarrow> string \<Rightarrow> bool \<Rightarrow> u32 \<Rightarrow> bool) \<Rightarrow> Acl set \<Rightarrow>
     Grant \<times> ('s, 'u, 'e) Hub \<Rightarrow> Grant \<times> ('s, 'u, 'e) Hub \<Rightarrow> bool" where
  "conn_calls db legal acls \<equiv> (conn_call db legal acls)\<^sup>*\<^sup>*"

lemma Flow_neq [simp]: "flow \<noteq> Continue \<longleftrightarrow> flow = Break" "flow \<noteq> Break \<longleftrightarrow> flow = Continue"
  by (cases flow; simp)+

lemmas call_then = converse_rtranclp_into_rtranclp

text \<open>The access lists an event grants, and what \<open>legal\<close> says of it.\<close>

definition event_acls :: "('s, 'u, 'e) Context \<Rightarrow> ConnEvent \<Rightarrow> Acl set" where
  "event_acls cx ev = {pr_acl pr |pr. \<exists>pkt. ev = Incoming (InPacket (PktConnect pkt)) \<and>
     authenticate (cx_decode cx) (cx_auth cx) (c_password pkt) = Inr pr}"

definition event_legal ::
    "(('s, 'u, 'e) Hub \<Rightarrow> string \<Rightarrow> bool \<Rightarrow> u32 \<Rightarrow> bool) \<Rightarrow> ('s, 'u, 'e) Context \<Rightarrow> ('s, 'u, 'e) Hub \<Rightarrow>
     ConnEvent \<Rightarrow> bool" where
  "event_legal legal cx h ev =
     (case ev of
        Incoming (InPacket (PktConnect pkt)) \<Rightarrow>
          (case connect_identity cx pkt of (client, clean) \<Rightarrow> legal h client clean (c_session_expiry_interval_secs pkt))
      | _ \<Rightarrow> True)"

definition entitled ::
    "('s, 'u, 'e) Redb \<Rightarrow> (('s, 'u, 'e) Hub \<Rightarrow> string \<Rightarrow> bool \<Rightarrow> u32 \<Rightarrow> bool) \<Rightarrow> Acl set \<Rightarrow> Grant \<Rightarrow>
     ('s, 'u, 'e) Hub \<Rightarrow> ('s, 'u, 'e) outcome \<Rightarrow> bool" where
  "entitled db legal acls g h r \<longleftrightarrow>
     (case r of
        None \<Rightarrow> True
      | Some (flow, c', h', out) \<Rightarrow> conn_calls db legal acls (g, h) (grant_of c', h'))"

lemma grant_of_update [simp]:
  "grant_of (c\<lparr>cs_active_filters := active\<rparr>) = grant_of c"
  "grant_of (c\<lparr>cs_clean_disconnect := b\<rparr>) = grant_of c"
  "gr_session (grant_of c) = cs_session_id c" "gr_acl (grant_of c) = cs_access c"
  "gr_will (grant_of c) = cs_will c" "gr_generation (grant_of c) = cs_generation c"
  by (simp_all add: grant_of_def)

lemma entitled_Some [simp]:
  "entitled db legal acls g h (Some (flow, c', h', out)) \<longleftrightarrow> conn_calls db legal acls (g, h) (grant_of c', h')"
  "entitled db legal acls g h None"
  by (simp_all add: entitled_def)

lemma entitled_respond [simp]:
  "entitled db legal acls g h (respond tk c h' p) \<longleftrightarrow> conn_calls db legal acls (g, h) (grant_of c, h')"
  "entitled db legal acls g h (respond_and_break tk c h' p) \<longleftrightarrow> conn_calls db legal acls (g, h) (grant_of c, h')"
  "entitled db legal acls g h (proceed c h') \<longleftrightarrow> conn_calls db legal acls (g, h) (grant_of c, h')"
  "entitled db legal acls g h (break_off c h') \<longleftrightarrow> conn_calls db legal acls (g, h) (grant_of c, h')"
  by (simp_all add: respond_def respond_and_break_def proceed_def break_off_def)

lemma entitled_step:
  "conn_calls db legal acls (g, h) (g1, h1) \<Longrightarrow> entitled db legal acls g1 h1 r \<Longrightarrow> entitled db legal acls g h r"
  unfolding entitled_def by (auto split: option.splits)

section \<open>Packet by packet\<close>

lemma on_connect_entitled:
  assumes acls: "\<And>pr. authenticate (cx_decode cx) (cx_auth cx) (c_password pkt) = Inr pr \<Longrightarrow> pr_acl pr \<in> acls"
    and legal: "case connect_identity cx pkt of (client, clean) \<Rightarrow> legal h client clean (c_session_expiry_interval_secs pkt)"
  shows "entitled db legal acls (grant_of c) h (on_connect cx tk c h pkt)"
proof (cases "authenticate (cx_decode cx) (cx_auth cx) (c_password pkt)")
  case (Inl e)
  then show ?thesis by (simp add: on_connect_def split: prod.split)
next
  case (Inr pr)
  have acl: "pr_acl pr \<in> acls" using acls Inr by blast
  obtain client clean where id: "connect_identity cx pkt = (client, clean)" by fastforce
  show ?thesis
  proof (cases "will_denied (pr_acl pr) (c_last_will pkt)")
    case True
    have "conn_call db legal acls (grant_of c, h) (grant_of (c\<lparr>cs_access := pr_acl pr\<rparr>), h)"
      using call_refused [OF acl, of db legal "grant_of c" h] by (simp add: grant_of_def)
    with True Inr id show ?thesis by (simp add: on_connect_def r_into_rtranclp)
  next
    case False
    show ?thesis
    proof (cases "connect h client clean (c_session_expiry_interval_secs pkt) (tk_tx tk) (tk_now tk)")
      case (Some r)
      obtain cn h' where r: "r = (cn, h')" by fastforce
      have "pred_option (\<lambda>w. can_publish (pr_acl pr) (m_topic w)) (map_option will_message (c_last_will pkt))"
        using False by (simp add: will_denied_def will_message_def split: option.splits)
      from call_connect [where g = "grant_of c", OF acl this _ Some [unfolded r]] legal id False Inr Some r show ?thesis
        by (simp add: on_connect_def grant_of_def r_into_rtranclp)
    qed (use False Inr id in \<open>simp add: on_connect_def\<close>)
  qed
qed

lemma can_subscribe_parsed:
  "topic_filter_parse raw = Some tf \<Longrightarrow> can_subscribe access raw \<Longrightarrow> can_subscribe access (as_str tf)"
  by (simp add: as_str_parse)

lemma subscribe_filter_calls:
  assumes "gr_session g = Some cid"
    and "subscribe_filter limits (gr_acl g) cid active h flt opts = (reason, job, active', h')"
  shows "conn_calls db legal acls (g, h) (g, h')"
    and "job = Some (tf, q) \<Longrightarrow> can_subscribe (gr_acl g) (as_str tf)"
  using assms
  by (auto simp: subscribe_filter_def Let_def split: if_splits option.splits
      intro: call_subscribe call_subscribe_shared can_subscribe_parsed)

lemma subscribe_filters_calls:
  assumes "gr_session g = Some cid"
    and "subscribe_filters limits (gr_acl g) cid active h filters = (status, jobs, active', h')"
  shows "conn_calls db legal acls (g, h) (g, h') \<and>
    list_all (\<lambda>(tf, q). can_subscribe (gr_acl g) (as_str tf)) jobs"
  using assms(2)
proof (induction filters arbitrary: active h status jobs active' h')
  case (Cons f filters)
  obtain flt opts where f: "f = (flt, opts)" by fastforce
  obtain reason job active1 h1 where one:
    "subscribe_filter limits (gr_acl g) cid active h flt opts = (reason, job, active1, h1)"
    by (metis prod_cases4)
  obtain status2 jobs2 active2 h2 where rest:
    "subscribe_filters limits (gr_acl g) cid active1 h1 filters = (status2, jobs2, active2, h2)"
    by (metis prod_cases4)
  have res: "h' = h2" "jobs = (case job of Some j \<Rightarrow> j # jobs2 | None \<Rightarrow> jobs2)"
    using Cons.prems f one rest by simp_all
  show ?case
    using Cons.IH [OF rest] res subscribe_filter_calls(1) [OF assms(1) one, of db legal acls]
      subscribe_filter_calls(2) [OF assms(1) one]
    by (auto split: option.splits intro: rtranclp_trans)
qed simp

lemma retained_jobs_calls:
  assumes "gr_session g = Some cid"
  shows "list_all (\<lambda>(tf, q). can_subscribe (gr_acl g) (as_str tf)) jobs \<Longrightarrow>
    retained_jobs h cid jobs now = Some h' \<Longrightarrow> conn_calls db legal acls (g, h) (g, h')"
proof (induction jobs arbitrary: h)
  case (Cons j jobs)
  obtain tf granted where j: "j = (tf, granted)" by fastforce
  with Cons.prems obtain h1 where h1: "deliver_retained h cid tf granted now = Some h1"
    "retained_jobs h1 cid jobs now = Some h'"
    by (auto simp: bind_eq_Some_conv)
  have "conn_call db legal acls (g, h) (g, h1)"
    by (rule call_retained [OF assms _ h1(1)]) (use Cons.prems j in simp)
  with Cons.IH [OF _ h1(2)] Cons.prems show ?case by (auto intro: call_then)
qed simp

lemma on_subscribe_entitled: "entitled db legal acls (grant_of c) h (on_subscribe cx tk c h packet_id filters)"
proof (cases "cs_session_id c")
  case (Some cid)
  obtain status jobs active h1 where sub:
    "subscribe_filters (cx_limits cx) (cs_access c) cid (cs_active_filters c) h filters = (status, jobs, active, h1)"
    by (metis prod_cases4)
  have calls: "conn_calls db legal acls (grant_of c, h) (grant_of c, h1)"
      "list_all (\<lambda>(tf, q). can_subscribe (gr_acl (grant_of c)) (as_str tf)) jobs"
    using subscribe_filters_calls [of "grant_of c"] Some sub by force+
  have "conn_calls db legal acls (grant_of c, h1) (grant_of c, h2)"
    if "retained_jobs h1 cid jobs (tk_now tk) = Some h2" for h2
    using retained_jobs_calls [OF _ calls(2) that] Some by simp
  then show ?thesis
    using Some sub by (intro entitled_step [OF calls(1)])
      (cases "retained_jobs h1 cid jobs (tk_now tk)", auto simp: on_subscribe_def Let_def)
qed (simp add: on_subscribe_def)

lemma unsubscribe_filters_calls:
  "gr_session g = Some cid \<Longrightarrow> unsubscribe_filters cid active h filters = (status, active', h') \<Longrightarrow>
     conn_calls db legal acls (g, h) (g, h')"
proof (induction filters arbitrary: active h status active' h')
  case (Cons flt filters)
  have "conn_call db legal acls (g, h) (g, snd (hub_unsubscribe h cid flt))"
    by (rule call_unsubscribe [OF Cons.prems(1)])
  with Cons.IH [OF Cons.prems(1)] Cons.prems(2) show ?case
    by (auto simp: Let_def split: prod.splits intro: call_then)
qed simp

lemma on_unsubscribe_entitled: "entitled db legal acls (grant_of c) h (on_unsubscribe tk c h packet_id filters)"
proof (cases "cs_session_id c")
  case (Some cid)
  obtain status active h1 where unsub:
    "unsubscribe_filters cid (cs_active_filters c) h filters = (status, active, h1)"
    by (metis prod_cases3)
  with Some unsubscribe_filters_calls [of "grant_of c", OF _ unsub] show ?thesis
    by (simp add: on_unsubscribe_def Let_def)
qed (simp add: on_unsubscribe_def)

lemma on_publish_routed_entitled:
  assumes cid: "cs_session_id c = Some cid" and allowed: "can_publish (cs_access c) (p_topic p)"
  shows "entitled db legal acls (grant_of c) h (on_publish_routed tk c h cid p)"
proof -
  have routed: "conn_calls db legal acls (grant_of c, h0) (grant_of c, h1)"
    if "publish h0 (p_topic p) (p_payload p) qos (p_retain p) (tk_now tk) (tk_ts tk) = Some (n, h1)" for h0 h1 n qos
    by (rule r_into_rtranclp, rule call_publish [OF _ _ that]) (use cid allowed in simp_all)
  have seen: "conn_calls db legal acls (grant_of c, h) (grant_of c, snd (inbound_qos2_seen h cid pid))" for pid
    by (intro r_into_rtranclp call_seen) (use cid in simp)
  show ?thesis
  proof (cases "to_core_qos (p_qos p)")
    case ExactlyOnce
    show ?thesis
    proof (cases "p_packet_id p")
      case (Some pid)
      with ExactlyOnce routed show ?thesis
        by (intro entitled_step [OF seen [of pid]])
          (auto simp: on_publish_routed_def case_prod_beta Let_def split: option.split Option.bind_split)
    qed (use ExactlyOnce in \<open>simp add: on_publish_routed_def\<close>)
  qed (use routed in \<open>auto simp: on_publish_routed_def split: option.split Option.bind_split\<close>)
qed

lemma on_replay_request_entitled:
  assumes cid: "cs_session_id c = Some cid"
  shows "entitled (cx_db cx) legal acls (grant_of c) h (on_replay_request cx tk c h cid p rest)"
proof -
  have ack: "entitled (cx_db cx) legal acls (grant_of c) h0 (replay_ack tk c h0 p)" for h0
    by (simp add: replay_ack_def split: QoS.split option.split)
  have calls: "conn_calls (cx_db cx) legal acls (grant_of c, h) (grant_of c, snd (replay (cx_db cx) h1 cid fr flt))"
    if "can_subscribe (cs_access c) (as_str flt)" "flush_wait (cx_db cx) h = Some h1" for h1 fr flt
    by (rule call_then, rule call_flush [OF that(2)], rule r_into_rtranclp, rule call_replay)
      (use that cid in auto)
  show ?thesis
    using ack entitled_step [OF calls ack]
    by (auto simp: on_replay_request_def split: option.split Option.bind_split)
qed

lemma on_publish_entitled: "entitled (cx_db cx) legal acls (grant_of c) h (on_publish cx tk c h p)"
proof (cases "cs_session_id c")
  case (Some cid)
  have "entitled (cx_db cx) legal acls (grant_of c) h (on_publish_denied tk c h p)"
    by (simp add: on_publish_denied_def split: option.split QoS.split)
  with Some show ?thesis
    by (simp add: on_publish_def on_replay_request_entitled [OF Some]
        on_publish_routed_entitled [OF Some] split: option.split)
qed (simp add: on_publish_def)

lemma on_session_calls:
  assumes "\<And>cid. cs_session_id c = Some cid \<Longrightarrow> conn_call db legal acls (grant_of c, h) (grant_of c, f cid)"
  shows "conn_calls db legal acls (grant_of c, h) (grant_of c, on_session c h f)"
  using assms by (simp add: on_session_def r_into_rtranclp split: option.split)

lemma handle_packet_entitled:
  assumes acls: "event_acls cx (Incoming (InPacket packet)) \<subseteq> acls"
    and legal: "event_legal legal cx h (Incoming (InPacket packet))"
  shows "entitled (cx_db cx) legal acls (grant_of c) h (handle_packet cx tk c h packet)"
proof (cases packet)
  case (PktConnect pkt)
  then have "authenticate (cx_decode cx) (cx_auth cx) (c_password pkt) = Inr pr \<Longrightarrow> pr_acl pr \<in> acls" for pr
    using acls by (auto simp: event_acls_def)
  moreover have "case connect_identity cx pkt of (client, clean) \<Rightarrow>
      legal h client clean (c_session_expiry_interval_secs pkt)"
    using legal unfolding PktConnect event_legal_def by simp
  ultimately have "entitled (cx_db cx) legal acls (grant_of c) h (on_connect cx tk c h pkt)"
    by (rule on_connect_entitled)
  with PktConnect show ?thesis by (simp add: handle_packet_def)
next
  case PktPingRequest
  then show ?thesis
    by (cases "flush_wait (cx_db cx) h")
      (simp_all add: handle_packet_def on_ping_request_def r_into_rtranclp call_flush)
qed (simp_all add: handle_packet_def on_subscribe_entitled on_publish_entitled on_disconnect_def
    on_unsubscribe_entitled on_publish_release_def on_session_calls call_puback call_pubrec call_pubcomp call_release)

section \<open>The whole connection\<close>

lemma conn_event_entitled:
  assumes "event_legal legal cx h ev"
  shows "entitled (cx_db cx) legal (event_acls cx ev) (grant_of c) h (conn_event cx tk c h ev)"
  using assms
  by (auto simp: conn_event_def on_outgoing_def handle_packet_entitled
      split: ConnEvent.split Inbound.split option.split)

lemma conn_event_calls:
  assumes "event_legal legal cx h ev" "conn_event cx tk c h ev = Some (flow, c', h', out)"
  shows "conn_calls (cx_db cx) legal (event_acls cx ev) (grant_of c, h) (grant_of c', h')"
  using conn_event_entitled [OF assms(1), of c tk] assms(2) by simp

lemma conn_close_calls:
  assumes close: "conn_close tk c h = Some h'"
  shows "conn_calls db legal acls (grant_of c, h) (grant_of c, h')"
proof -
  obtain h1 where h1: "(if \<not> cs_clean_disconnect c then
        (case cs_will c of
           Some w \<Rightarrow> map_option snd (publish h (m_topic w) (m_payload w) (m_qos w) (m_retain w) (tk_now tk) (tk_ts tk))
         | None \<Rightarrow> Some h)
      else Some h) = Some h1" "h' = on_session c h1 (\<lambda>cid. detach h1 cid (cs_generation c))"
    using close by (auto simp: conn_close_def bind_eq_Some_conv)
  have "conn_calls db legal acls (grant_of c, h) (grant_of c, h1)"
    using h1(1) by (auto split: if_splits option.splits intro: call_will [of "grant_of c", simplified])
  moreover have "conn_calls db legal acls (grant_of c, h1) (grant_of c, h')"
    unfolding h1(2) using call_detach [of "grant_of c" _ db legal acls h1]
    by (intro on_session_calls) (simp only: grant_of_update)
  ultimately show ?thesis by (rule rtranclp_trans)
qed

text \<open>
  A run of a connection: between two events the other tasks change the hub, and at each event the
  connection makes calls that its grant allows, which only this event can widen.
\<close>

inductive conn_run ::
    "('s, 'u, 'e) Context \<Rightarrow> Grant \<times> ('s, 'u, 'e) Hub \<Rightarrow> (('s, 'u, 'e) Tick \<times> ConnEvent) list \<Rightarrow>
     Grant \<times> ('s, 'u, 'e) Hub \<Rightarrow> bool" for cx where
  run_stop: "conn_run cx gh [] gh"
| run_event: "conn_calls (cx_db cx) (\<lambda>_ _ _ _. True) (event_acls cx ev) (g, tk_others tk h) gh1 \<Longrightarrow>
     conn_run cx gh1 evs gh2 \<Longrightarrow> conn_run cx (g, h) ((tk, ev) # evs) gh2"

lemma conn_loop_run:
  assumes "conn_loop cx c h evs = Some (flow, c', h', out)"
  shows "\<exists>n. conn_run cx (grant_of c, h) (take n evs) (grant_of c', h')"
  using assms
proof (induction evs arbitrary: c h out)
  case Nil
  then show ?case by (auto intro: run_stop)
next
  case (Cons e evs)
  obtain tk ev where e: "e = (tk, ev)" by fastforce
  with Cons.prems obtain flow1 c1 h1 out1 where
    ev: "conn_event cx tk c (tk_others tk h) ev = Some (flow1, c1, h1, out1)"
    by (auto simp: bind_eq_Some_conv)
  have calls: "conn_calls (cx_db cx) (\<lambda>_ _ _ _. True) (event_acls cx ev) (grant_of c, tk_others tk h) (grant_of c1, h1)"
    by (rule conn_event_calls [OF _ ev])
      (simp add: event_legal_def split: ConnEvent.split Inbound.split Packet.split)
  show ?case
  proof (cases flow1)
    case Break
    with Cons.prems e ev calls show ?thesis by (auto intro!: exI [of _ 1] run_event run_stop)
  next
    case Continue
    with Cons.prems e ev obtain out2 where "conn_loop cx c1 h1 evs = Some (flow, c', h', out2)"
      by (auto simp: bind_eq_Some_conv)
    from Cons.IH [OF this] obtain n where "conn_run cx (grant_of c1, h1) (take n evs) (grant_of c', h')" by blast
    with e calls show ?thesis by (auto intro!: exI [of _ "Suc n"] run_event)
  qed
qed

text \<open>
  C1. A connection does to the hub only what its principal may do. Whatever packets a peer sends, in
  whatever order and with whatever the other tasks do in between, the hub is changed only by calls
  that the grant of the connection allows at that moment. The grant is empty at the start; only a
  CONNECT whose token authenticates replaces its access list, and no later packet widens it. A
  session is opened only by such a CONNECT, and with a Will only on a topic its list allows. A
  message is published only on a topic the current list allows; subscriptions, retained messages and
  replays only concern filters that list lets it subscribe to; subscriptions, acknowledgements and
  the detachment only concern the session opened last. At the end only the accepted Will is published
  and the session detached. Without an authenticated CONNECT nothing but a flush of pending writes
  remains.
\<close>

theorem connection_respects_acl:
  assumes "handle cx h tk (Some (Some (Some p))) evs tk_end = Some (flow, h', out)"
  shows "\<exists>n g h1. conn_run cx (\<lparr>gr_acl = acl_default, gr_session = None, gr_generation = 0, gr_will = None\<rparr>, h)
      (take n ((tk, Incoming (InPacket p)) # evs)) (g, h1) \<and>
    (flow = Continue \<and> h' = h1 \<or>
     flow = Break \<and> conn_calls (cx_db cx) (\<lambda>_ _ _ _. True) {} (g, tk_others tk_end h1) (g, h'))"
proof -
  from assms obtain c h1 where loop: "conn_loop cx conn_init h ((tk, Incoming (InPacket p)) # evs) = Some (flow, c, h1, out)"
    and after: "flow = Continue \<and> h' = h1 \<or> flow = Break \<and> conn_close tk_end c (tk_others tk_end h1) = Some h'"
    by (auto simp: handle_def next_inbound_def bind_eq_Some_conv simp del: conn_loop.simps split: Flow.splits)
  have init: "grant_of conn_init = \<lparr>gr_acl = acl_default, gr_session = None, gr_generation = 0, gr_will = None\<rparr>"
    by (simp add: grant_of_def conn_init_def)
  from conn_loop_run [OF loop] after conn_close_calls [of tk_end c] show ?thesis unfolding init by blast
qed

text \<open>A configuration of the server and the packets of a driver that reads its own topic.\<close>

definition cx0 :: "((string \<times> bytes) list, (string \<times> u32) list, (u64 \<times> bytes) list) Context" where
  "cx0 = \<lparr>cx_db = list_db, cx_decode = toy_decode ''ann'', cx_auth = toy_config,
     cx_limits = \<lparr>connect_timeout = 5, max_subscriptions_per_client = 1\<rparr>, cx_peer = ''peer''\<rparr>"

definition tick0 :: "((string \<times> bytes) list, (string \<times> u32) list, (u64 \<times> bytes) list) Tick" where
  "tick0 = \<lparr>tk_tx = 1, tk_now = 0, tk_ts = 0, tk_sink_ok = True, tk_others = id\<rparr>"

definition connect0 :: Packet where
  "connect0 = PktConnect \<lparr>c_client_id = ''c'', c_clean_start = True, c_password = Some (str_bytes ''tok''),
     c_last_will = None, c_session_expiry_interval_secs = 60\<rparr>"

definition subscribe0 :: Packet where
  "subscribe0 = PktSubscribe 1 [(''drive/bob'', WireAtLeastOnce), (''drive/ann'', WireAtLeastOnce)]"

lemma handle0:
  "map_option (\<lambda>(flow, _, out). (flow, out))
     (handle cx0 hub0 tick0 (Some (Some (Some connect0))) [(tick0, Incoming (InPacket subscribe0))] tick0) =
   Some (Continue, [PktConnectAck False ConnSuccess, PktSubscribeAck 1 [SubNotAuthorized, GrantedQos1]])"
  by code_simp

theorem connection_respects_acl_witness:
  "\<exists>h' n g. handle cx0 hub0 tick0 (Some (Some (Some connect0))) [(tick0, Incoming (InPacket subscribe0))] tick0 =
       Some (Continue, h', [PktConnectAck False ConnSuccess, PktSubscribeAck 1 [SubNotAuthorized, GrantedQos1]]) \<and>
     conn_run cx0 (\<lparr>gr_acl = acl_default, gr_session = None, gr_generation = 0, gr_will = None\<rparr>, hub0)
       (take n [(tick0, Incoming (InPacket connect0)), (tick0, Incoming (InPacket subscribe0))]) (g, h')"
proof -
  from handle0 obtain h' where h': "handle cx0 hub0 tick0 (Some (Some (Some connect0)))
      [(tick0, Incoming (InPacket subscribe0))] tick0 =
    Some (Continue, h', [PktConnectAck False ConnSuccess, PktSubscribeAck 1 [SubNotAuthorized, GrantedQos1]])"
    by auto
  with connection_respects_acl [OF h'] show ?thesis by auto
qed

section \<open>The subscription quota\<close>

definition quota_ok :: "Limits \<Rightarrow> string list \<Rightarrow> bool" where
  "quota_ok limits active \<longleftrightarrow> distinct active \<and> length active \<le> unat (max_subscriptions_per_client limits)"

lemma subscribe_filter_quota:
  "quota_ok limits active \<Longrightarrow>
     subscribe_filter limits access cid active h flt opts = (reason, job, active', h') \<Longrightarrow> quota_ok limits active'"
  by (auto simp: subscribe_filter_def Let_def quota_ok_def List.insert_def split: if_splits option.splits)

lemma subscribe_filters_quota:
  "quota_ok limits active \<Longrightarrow>
     subscribe_filters limits access cid active h filters = (status, jobs, active', h') \<Longrightarrow> quota_ok limits active'"
proof (induction filters arbitrary: active h status jobs active' h')
  case (Cons f filters)
  obtain flt opts where f: "f = (flt, opts)" by fastforce
  obtain reason job active1 h1 where one:
    "subscribe_filter limits access cid active h flt opts = (reason, job, active1, h1)"
    by (metis prod_cases4)
  from Cons.IH [OF subscribe_filter_quota [OF Cons.prems(1) one]] Cons.prems(2) f one show ?case
    by (auto split: prod.splits)
qed simp

lemma unsubscribe_filters_quota:
  "quota_ok limits active \<Longrightarrow> unsubscribe_filters cid active h filters = (status, active', h') \<Longrightarrow>
     quota_ok limits active'"
proof (induction filters arbitrary: active h status active' h')
  case (Cons flt filters)
  have "quota_ok limits (removeAll flt active)"
    using Cons.prems(1)
    by (auto simp: quota_ok_def distinct_removeAll intro: order_trans [OF length_removeAll_less_eq])
  from Cons.IH [OF this] Cons.prems(2) show ?case by (auto simp: Let_def split: prod.splits)
qed simp

text \<open>The packets that leave the set of active filters alone.\<close>

lemma respond_filters [simp]:
  "respond tk c h p = Some (flow, c', h', out) \<Longrightarrow> cs_active_filters c' = cs_active_filters c"
  "respond_and_break tk c h p = Some (flow, c', h', out) \<Longrightarrow> cs_active_filters c' = cs_active_filters c"
  "proceed c h = Some (flow, c', h', out) \<Longrightarrow> cs_active_filters c' = cs_active_filters c"
  "break_off c h = Some (flow, c', h', out) \<Longrightarrow> cs_active_filters c' = cs_active_filters c"
  by (auto simp: respond_def respond_and_break_def proceed_def break_off_def split: if_splits)

lemma on_connect_filters:
  "on_connect cx tk c h pkt = Some (flow, c', h', out) \<Longrightarrow> cs_active_filters c' = cs_active_filters c"
  by (auto simp: on_connect_def Let_def bind_eq_Some_conv split: prod.splits if_splits sum.splits dest!: respond_filters)

lemma on_publish_filters:
  "on_publish cx tk c h p = Some (flow, c', h', out) \<Longrightarrow> cs_active_filters c' = cs_active_filters c"
  by (auto simp: on_publish_def on_replay_request_def replay_ack_def on_publish_denied_def on_publish_routed_def
      Let_def bind_eq_Some_conv case_prod_beta split: if_splits option.splits QoS.splits dest!: respond_filters)

lemma conn_event_quota:
  assumes "quota_ok (cx_limits cx) (cs_active_filters c)"
    and "conn_event cx tk c h ev = Some (flow, c', h', out)"
  shows "quota_ok (cx_limits cx) (cs_active_filters c')"
proof -
  have sub: "quota_ok (cx_limits cx) (cs_active_filters c1)"
    if "on_subscribe cx tk c h pid filters = Some (flow, c1, h1, out1)" for pid filters c1 h1 out1
    using that assms(1) subscribe_filters_quota [OF assms(1)]
    by (fastforce simp: on_subscribe_def bind_eq_Some_conv Let_def split: option.splits prod.splits if_splits
        dest!: respond_filters)
  have unsub: "quota_ok (cx_limits cx) (cs_active_filters c1)"
    if "on_unsubscribe tk c h pid filters = Some (flow, c1, h1, out1)" for pid filters c1 h1 out1
    using that assms(1) unsubscribe_filters_quota [OF assms(1)]
    by (fastforce simp: on_unsubscribe_def Let_def split: option.splits prod.splits dest!: respond_filters)
  show ?thesis
    using assms
    by (auto simp: conn_event_def handle_packet_def on_publish_release_def on_ping_request_def on_disconnect_def
        on_outgoing_def bind_eq_Some_conv on_connect_filters on_publish_filters
        split: ConnEvent.splits Inbound.splits Packet.splits option.splits if_splits
        dest: sub unsub dest!: respond_filters)
qed

text \<open>
  C33. The subscription quota is an invariant of the connection: after any events, the filters the
  connection counts as active are distinct and no more than the configured maximum, whatever
  mixture of SUBSCRIBE, UNSUBSCRIBE and repeated CONNECT packets was sent.
\<close>

theorem subscription_quota:
  assumes "conn_loop cx conn_init h evs = Some (flow, c, h', out)"
  shows "distinct (cs_active_filters c) \<and>
    length (cs_active_filters c) \<le> unat (max_subscriptions_per_client (cx_limits cx))"
proof -
  have step: "quota_ok (cx_limits cx) (cs_active_filters c0) \<Longrightarrow> conn_loop cx c0 h evs = Some (flow, c, h', out) \<Longrightarrow>
      quota_ok (cx_limits cx) (cs_active_filters c)" for c0
  proof (induction evs arbitrary: c0 h out)
    case (Cons e evs)
    then show ?case
      by (cases e) (auto simp: bind_eq_Some_conv split: Flow.splits dest: conn_event_quota)
  qed simp
  have "quota_ok (cx_limits cx) (cs_active_filters conn_init)" by (simp add: quota_ok_def conn_init_def)
  from step [OF this assms] show ?thesis by (simp add: quota_ok_def)
qed

theorem subscription_quota_witness:
  "\<exists>c h' out. conn_loop cx0 conn_init hub0 [(tick0, Incoming (InPacket connect0)),
       (tick0, Incoming (InPacket (PktSubscribe 1 [(''drive/ann'', WireAtMostOnce), (''$share/g/drive/ann'', WireAtMostOnce)])))] =
     Some (Continue, c, h', out) \<and> length (cs_active_filters c) \<le> 1 \<and>
     last out = PktSubscribeAck 1 [GrantedQos0, SubQuotaExceeded]"
proof -
  let ?r = "conn_loop cx0 conn_init hub0 [(tick0, Incoming (InPacket connect0)),
       (tick0, Incoming (InPacket (PktSubscribe 1 [(''drive/ann'', WireAtMostOnce), (''$share/g/drive/ann'', WireAtMostOnce)])))]"
  have "map_option (\<lambda>(flow, _, _, out). (flow, last out)) ?r =
      Some (Continue, PktSubscribeAck 1 [GrantedQos0, SubQuotaExceeded])"
    by code_simp
  then obtain c h' out where r: "?r = Some (Continue, c, h', out)"
      and "last out = PktSubscribeAck 1 [GrantedQos0, SubQuotaExceeded]"
    by auto
  with subscription_quota [OF r] show ?thesis by (simp add: cx0_def)
qed

section \<open>Connections that never authenticate\<close>

definition ping :: "('s, 'u, 'e) Tick \<Rightarrow> ('s, 'u, 'e) Tick \<times> ConnEvent" where
  "ping tk = (tk, Incoming (InPacket PktPingRequest))"

lemma conn_loop_pings:
  assumes "tk_sink_ok tk" "tk_others tk = id"
  shows "h_storage h = None \<Longrightarrow> \<exists>h'. conn_loop cx c h (replicate n (ping tk)) =
    Some (Continue, c, h', replicate n PktPingResponse)"
proof (induction n arbitrary: h)
  case (Suc n)
  have "conn_event cx tk c h (Incoming (InPacket PktPingRequest)) =
      Some (Continue, c, hub_flush h, [PktPingResponse])" "h_storage (hub_flush h) = None"
    using Suc.prems assms
    by (simp_all add: conn_event_def handle_packet_def on_ping_request_def flush_wait_def hub_flush_def respond_def)
  with Suc.IH [of "hub_flush h"] assms show ?case by (auto simp: ping_def)
qed simp

text \<open>
  C40. A peer that never authenticates can hold its connection, and with it one of the permits that
  limit the number of connections, for as long as it likes: the deadline for the CONNECT only
  waits for a first packet of any kind, and PINGREQ is answered without a session, so any number of
  pings keeps the connection open (shown for a broker without a database, where a flush returns at
  once).
\<close>

theorem unauthenticated_ping_holds_connection:
  assumes "h_storage h = None" "tk_sink_ok tk" "tk_others tk = id"
  shows "\<exists>h'. handle cx h tk (Some (Some (Some PktPingRequest))) (replicate n (ping tk)) tk =
    Some (Continue, h', replicate (Suc n) PktPingResponse)"
  using conn_loop_pings [OF assms(2,3,1), of cx conn_init "Suc n"]
  by (auto simp: handle_def next_inbound_def ping_def simp del: conn_loop.simps)

theorem unauthenticated_ping_holds_connection_witness:
  "\<exists>h'. handle cx0 hub0 tick0 (Some (Some (Some PktPingRequest))) (replicate 3 (ping tick0)) tick0 =
    Some (Continue, h', replicate 4 PktPingResponse)"
proof -
  have "h_storage hub0 = None" "tk_sink_ok tick0" "tk_others tick0 = id"
    by (simp_all add: hub0_def hub_new_def tick0_def)
  from unauthenticated_ping_holds_connection [OF this, of cx0 3] show ?thesis by simp
qed

section \<open>Addressing a replay\<close>

text \<open>
  A client can resume a replay where it stopped: the offset that the broker attaches to a
  replayed message, put into a replay request with any valid filter, is read back as that offset
  and that filter.
\<close>

lemma replay_offset_roundtrip:
  assumes "topic_filter_parse flt = Some tf"
    and "(''x-replay-offset'', offset) \<in> set (p_user_properties (replay_publish o1 topic payload))"
  shows "parse_replay (offset @ ''/'' @ flt) = Some (o1, tf)"
proof -
  have offset: "offset = dec_string (unat o1)" using assms(2) by (simp add: replay_publish_def)
  have "digit_of CHR ''/'' = None" by (simp add: digit_of_def)
  then have "CHR ''/'' \<notin> set offset" using dec_string_digits offset by blast
  then have "split_once CHR ''/'' (offset @ ''/'' @ flt) = Some (offset, flt)"
    by (simp add: split_once_append)
  with assms(1) offset show ?thesis by (simp add: parse_replay_def parse_u64_dec_string)
qed

end
