(* ===== verification/Dashboard.thy ===== *)
theory Dashboard
  imports Hub Utf8
begin

text \<open>
  \<open>relay-server/src/dashboard.rs\<close>: the monitoring page. The request is the bytes of one read from
  the socket, the response the bytes written.
\<close>

section \<open>Text helpers of the standard library\<close>

definition LF :: char where "LF = CHR 0x0A"
definition CR :: char where "CR = CHR 0x0D"

text \<open>\<open>str::lines().next()\<close>: the text before the first line feed, without a carriage return there.\<close>

definition first_line :: "string \<Rightarrow> string option" where
  "first_line s =
     (if s = [] then None
      else case split_once LF s of
        Some (line, _) \<Rightarrow> Some (if line \<noteq> [] \<and> last line = CR then butlast line else line)
      | None \<Rightarrow> Some s)"

text \<open>\<open>str::split_whitespace\<close>: the maximal runs of characters that are not white space.\<close>

definition at_space :: "string \<Rightarrow> bool" where
  "at_space s \<longleftrightarrow> list_ex (\<lambda>w. w \<noteq> [] \<and> starts_with w s) white_space"

fun word_length :: "string \<Rightarrow> nat" where
  "word_length [] = 0"
| "word_length (c # cs) = (if at_space (c # cs) then 0 else Suc (word_length cs))"

lemma word_length_pos: "s \<noteq> [] \<Longrightarrow> \<not> at_space s \<Longrightarrow> 0 < word_length s"
  by (cases s) auto

lemma strip_ws_stop: "\<not> at_space (strip_ws white_space s)"
proof (induction white_space s rule: strip_ws.induct)
  case (1 s)
  show ?case
  proof (cases "List.find (\<lambda>w. w \<noteq> [] \<and> starts_with w s) white_space")
    case None
    then have "strip_ws white_space s = s" by (simp add: strip_ws.simps [of _ s])
    with None show ?thesis by (simp add: find_None_iff at_space_def list_ex_iff)
  next
    case (Some w)
    with 1 show ?thesis by (simp add: strip_ws.simps [of _ s])
  qed
qed

lemma strip_ws_length: "length (strip_ws ws s) \<le> length s"
proof (induction ws s rule: strip_ws.induct)
  case (1 ws s)
  then show ?case by (simp add: strip_ws.simps [of _ s] split: option.split) (meson diff_le_self le_trans)
qed

function split_whitespace :: "string \<Rightarrow> string list" where
  "split_whitespace s =
     (let s = strip_ws white_space s; n = word_length s
      in if s = [] then [] else take n s # split_whitespace (drop n s))"
  by pat_completeness auto
termination
proof (relation "measure length")
  fix s x n assume x: "x = strip_ws white_space s" "n = word_length x" "x \<noteq> []"
  then have "0 < n" using strip_ws_stop [of s] word_length_pos [of x] by simp
  moreover have "length x \<le> length s" "0 < length x" using x strip_ws_length [of white_space s] by simp_all
  ultimately show "(drop n x, s) \<in> measure length" by (simp only: in_measure length_drop)
qed simp

declare split_whitespace.simps [simp del]

definition nth_opt :: "nat \<Rightarrow> 'a list \<Rightarrow> 'a option" where
  "nth_opt n xs = (if n < length xs then Some (xs ! n) else None)"

section \<open>The dashboard\<close>

definition quoted :: "string \<Rightarrow> string" where
  "quoted s = CHR 0x22 # s @ [CHR 0x22]"

text \<open>The counters the page shows, by their key in the statistics and with their label.\<close>

definition CARDS :: "(string \<times> string) list" where
  "CARDS = [(''clients_online'', ''Clients online''),
     (''clients_total'', ''Sessions total''),
     (''subscriptions'', ''Subscriptions''),
     (''retained'', ''Retained messages''),
     (''dead_letters'', ''Dead letters''),
     (''events'', ''Logged events''),
     (''next_offset'', ''Next offset'')]"

text \<open>The page: its lines, each ended by a line feed.\<close>

definition page_lines :: "string list" where
  \<open>page_lines = [
     ''<!doctype html>'',
     ''<html lang="en">'',
     ''<head>'',
     ''<meta charset="utf-8">'',
     ''<meta name="viewport" content="width=device-width, initial-scale=1">'',
     (''<title>Relay '' @ [CHR 0xE2, CHR 0x80, CHR 0x94] @ '' broker dashboard</title>''),
     ''<style>'',
     ''  :root { color-scheme: dark; }'',
     ''  body { margin: 0; font: 15px/1.5 system-ui, sans-serif; background: #0f1115; color: #e6e6e6; }'',
     ''  header { padding: 24px 32px; border-bottom: 1px solid #232733; display: flex; align-items: baseline; gap: 12px; }'',
     ''  h1 { margin: 0; font-size: 20px; letter-spacing: .5px; }'',
     ''  header .sub { color: #8b93a7; font-size: 13px; }'',
     ''  .grid { display: grid; grid-template-columns: repeat(auto-fill, minmax(200px, 1fr)); gap: 16px; padding: 32px; }'',
     ''  .card { background: #171a21; border: 1px solid #232733; border-radius: 10px; padding: 18px 20px; }'',
     ''  .card .label { color: #8b93a7; font-size: 12px; text-transform: uppercase; letter-spacing: .6px; }'',
     ''  .card .value { font-size: 32px; font-weight: 600; margin-top: 6px; font-variant-numeric: tabular-nums; }'',
     ''  footer { padding: 0 32px 32px; color: #6b7280; font-size: 12px; }'',
     ''  .dot { width: 8px; height: 8px; border-radius: 50%; background: #36c46b; display: inline-block; }'',
     ''</style>'',
     ''</head>'',
     ''<body>'',
     ''<header>'',
     ''  <span class="dot"></span>'',
     ''  <h1>Relay</h1>'',
     (''  <span class="sub">MQTT 5.0 broker '' @ [CHR 0xE2, CHR 0x80, CHR 0x94] @ '' live monitoring</span>''),
     ''</header>'',
     ''<div class="grid" id="grid"></div>'',
     (''<footer id="footer">connecting'' @ [CHR 0xE2, CHR 0x80, CHR 0xA6] @ ''</footer>''),
     ''<script>'',
     ''const CARDS = [''] @
   map (\<lambda>(key, label). ''  ['' @ quoted key @ '', '' @ quoted label @ ''],'') CARDS @ [
     ''];'',
     ''const grid = document.getElementById("grid");'',
     ''const footer = document.getElementById("footer");'',
     ''for (const [key, label] of CARDS) {'',
     ''  const card = document.createElement("div");'',
     ''  card.className = "card";'',
     (''  card.innerHTML = `<div class="label">${label}</div><div class="value" id="v_${key}">'' @ [CHR 0xE2, CHR 0x80, CHR 0x93] @ ''</div>`;''),
     ''  grid.appendChild(card);'',
     ''}'',
     ''async function refresh() {'',
     ''  try {'',
     ''    const r = await fetch("/stats", { cache: "no-store" });'',
     ''    const s = await r.json();'',
     ''    for (const [key] of CARDS) {'',
     ''      const el = document.getElementById("v_" + key);'',
     ''      if (el) el.textContent = s[key];'',
     ''    }'',
     ''    footer.textContent = "updated " + new Date().toLocaleTimeString();'',
     ''  } catch (e) {'',
     (''    footer.textContent = "broker unreachable '' @ [CHR 0xE2, CHR 0x80, CHR 0x94] @ '' retrying'' @ [CHR 0xE2, CHR 0x80, CHR 0xA6] @ ''";''),
     ''  }'',
     ''}'',
     ''refresh();'',
     ''setInterval(refresh, 2000);'',
     ''</script>'',
     ''</body>'',
     ''</html>'']\<close>

definition INDEX_HTML :: string where
  "INDEX_HTML = concat (map (\<lambda>line. line @ [LF]) page_lines)"

definition stats_json :: "Stats \<Rightarrow> string" where
  "stats_json s =
     ''{'' @ quoted ''clients_online'' @ '':'' @ dec_string (clients_online s) @
     '','' @ quoted ''clients_total'' @ '':'' @ dec_string (clients_total s) @
     '','' @ quoted ''subscriptions'' @ '':'' @ dec_string (st_subscription_count s) @
     '','' @ quoted ''retained'' @ '':'' @ dec_string (st_retained_count s) @
     '','' @ quoted ''dead_letters'' @ '':'' @ dec_string (unat (dead_letters s)) @
     '','' @ quoted ''events'' @ '':'' @ dec_string (unat (events s)) @
     '','' @ quoted ''next_offset'' @ '':'' @ dec_string (unat (st_next_offset s)) @ ''}''"

definition request_path :: "bytes \<Rightarrow> string" where
  "request_path buf =
     (case Option.bind (first_line (from_utf8_lossy buf)) (\<lambda>line. nth_opt 1 (split_whitespace line)) of
        Some path \<Rightarrow> path
      | None \<Rightarrow> ''/'')"

definition respond_to ::
    "('s, 'u, 'e) Redb \<Rightarrow> ('s, 'u, 'e) Hub \<Rightarrow> string \<Rightarrow> string \<times> string \<times> string" where
  "respond_to db h path =
     (if path = ''/'' \<or> path = ''/index.html'' then (''200 OK'', ''text/html; charset=utf-8'', INDEX_HTML)
      else if path = ''/stats'' \<or> path = ''/stats.json'' then (''200 OK'', ''application/json'', stats_json (stats db h))
      else (''404 Not Found'', ''text/plain; charset=utf-8'', ''not found''))"

definition http_response :: "string \<times> string \<times> string \<Rightarrow> string" where
  "http_response r = (case r of (status, content_type, body) \<Rightarrow>
     ''HTTP/1.1 '' @ status @ [CR, LF] @ ''Content-Type: '' @ content_type @ [CR, LF] @
     ''Content-Length: '' @ dec_string (length body) @ [CR, LF] @
     ''Connection: close'' @ [CR, LF] @ ''Cache-Control: no-store'' @ [CR, LF] @ [CR, LF] @ body)"

text \<open>
  What one read of at most 2048 bytes, the write and the flush return; the result, and the bytes
  handed to the socket. An empty read is a peer that has closed.
\<close>

type_synonym 'a io = "IoErrorKind + 'a"

definition dashboard_handle ::
    "('s, 'u, 'e) Redb \<Rightarrow> ('s, 'u, 'e) Hub \<Rightarrow> bytes io \<Rightarrow> unit io \<Rightarrow> unit io \<Rightarrow> unit io \<times> bytes" where
  "dashboard_handle db h received written flushed =
     (case received of
        Inl e \<Rightarrow> (Inl e, [])
      | Inr buf \<Rightarrow>
          if buf = [] then (Inr (), [])
          else
            let response = str_bytes (http_response (respond_to db h (request_path buf)))
            in (case written of Inl e \<Rightarrow> (Inl e, response) | Inr _ \<Rightarrow> (flushed, response)))"

text \<open>
  The accept loop: what each \<open>accept\<close> yields, an error or a socket whose task runs when the hub is
  in the given state. An error of one, or a task that fails, does not keep the others from being served.
\<close>

definition serve ::
    "('s, 'u, 'e) Redb \<Rightarrow> (('s, 'u, 'e) Hub \<times> bytes io \<times> unit io \<times> unit io) io list \<Rightarrow> (unit io \<times> bytes) list" where
  "serve db accepted = List.map_filter (\<lambda>res.
     case res of
       Inl e \<Rightarrow> None
     | Inr (h, received, written, flushed) \<Rightarrow> Some (dashboard_handle db h received written flushed)) accepted"

section \<open>What a browser reads\<close>

text \<open>The lines of the head, without their line ends, and the body after the empty line.\<close>

function http_read :: "string \<Rightarrow> (string list \<times> string) option" where
  "http_read s =
     (case split_once LF s of
        None \<Rightarrow> None
      | Some (line, rest) \<Rightarrow>
          if line = [CR] then Some ([], rest)
          else map_option (\<lambda>(lines, body). (butlast line # lines, body)) (http_read rest))"
  by pat_completeness auto
termination by (relation "measure length") (auto simp: split_once_Some_iff)

declare http_read.simps [simp del]

text \<open>The members of a flat JSON object, as they are written.\<close>

definition json_members :: "string \<Rightarrow> (string \<times> string) list" where
  "json_members s = List.map_filter (split_once CHR '':'') (split_on CHR '','' (butlast (tl s)))"

lemma http_read_lines:
  "list_all (\<lambda>line. line \<noteq> [] \<and> LF \<notin> set line) lines \<Longrightarrow>
     http_read (concat (map (\<lambda>line. line @ [CR, LF]) lines) @ [CR, LF] @ body) = Some (lines, body)"
proof (induction lines)
  case Nil
  show ?case by (subst http_read.simps) (simp add: LF_def CR_def)
next
  case (Cons line lines)
  let ?rest = "concat (map (\<lambda>line. line @ [CR, LF]) lines) @ [CR, LF] @ body"
  have "split_once LF ((line @ [CR]) @ LF # ?rest) = Some (line @ [CR], ?rest)"
    by (rule split_once_append) (use Cons.prems in \<open>simp add: LF_def CR_def\<close>)
  then have "http_read (line @ [CR, LF] @ ?rest) = map_option (\<lambda>(lines, body). (line # lines, body)) (http_read ?rest)"
    using Cons.prems by (subst http_read.simps) simp
  with Cons show ?case by simp
qed

lemma dec_string_free:
  "digit_of c = None \<Longrightarrow> c \<notin> set (dec_string n)"
  using dec_string_digits by blast

lemma http_read_response:
  assumes "LF \<notin> set status" "LF \<notin> set content_type"
  shows "http_read (http_response (status, content_type, body)) =
    Some ([''HTTP/1.1 '' @ status, ''Content-Type: '' @ content_type, ''Content-Length: '' @ dec_string (length body),
      ''Connection: close'', ''Cache-Control: no-store''], body)"
proof -
  have "digit_of LF = None" by code_simp
  then have "LF \<notin> set (dec_string (length body))" by (rule dec_string_free)
  with assms have "list_all (\<lambda>line. line \<noteq> [] \<and> LF \<notin> set line) [''HTTP/1.1 '' @ status,
      ''Content-Type: '' @ content_type, ''Content-Length: '' @ dec_string (length body), ''Connection: close'',
      ''Cache-Control: no-store'']"
    by (simp add: LF_def)
  from http_read_lines [OF this, of body] show ?thesis by (simp add: http_response_def)
qed

definition json_member :: "string \<times> nat \<Rightarrow> string" where
  "json_member m = quoted (fst m) @ '':'' @ dec_string (snd m)"

lemma json_members_join:
  assumes "ms \<noteq> []" "\<forall>m \<in> set ms. CHR '','' \<notin> set (fst m) \<and> CHR '':'' \<notin> set (fst m)"
    and "butlast (tl s) = join_with CHR '','' (map json_member ms)"
  shows "json_members s = map (\<lambda>(k, v). (quoted k, dec_string v)) ms"
proof -
  have free: "CHR '','' \<notin> set (dec_string n)" "CHR '':'' \<notin> set (dec_string n)" for n
    by (rule dec_string_free, code_simp)+
  have "split_on CHR '','' (butlast (tl s)) = map json_member ms"
    unfolding assms(3) by (rule split_on_join) (use assms(1,2) free in \<open>auto simp: json_member_def quoted_def\<close>)
  moreover have "split_once CHR '':'' (json_member m) = Some (quoted (fst m), dec_string (snd m))" if "m \<in> set ms" for m
    using split_once_append [of "CHR '':''" "quoted (fst m)" "dec_string (snd m)"] that assms(2)
    by (simp add: quoted_def json_member_def)
  then have "List.map_filter (split_once CHR '':'') (map json_member ms) = map (\<lambda>(k, v). (quoted k, dec_string v)) ms"
    by (induction ms) (auto simp: map_filter_simps)
  ultimately show ?thesis by (simp add: json_members_def)
qed

lemma json_members_stats:
  "json_members (stats_json s) = map (\<lambda>(k, v). (quoted k, dec_string v))
    [(''clients_online'', clients_online s), (''clients_total'', clients_total s),
     (''subscriptions'', st_subscription_count s), (''retained'', st_retained_count s),
     (''dead_letters'', unat (dead_letters s)), (''events'', unat (events s)), (''next_offset'', unat (st_next_offset s))]"
  by (rule json_members_join) (simp_all add: json_member_def stats_json_def butlast_append)

lemma stats_members:
  "map fst (json_members (stats_json s)) = map (quoted \<circ> fst) CARDS"
  "map snd (json_members (stats_json s)) = map dec_string [clients_online s, clients_total s, st_subscription_count s,
     st_retained_count s, unat (dead_letters s), unat (events s), unat (st_next_offset s)]"
  by (simp_all add: json_members_stats CARDS_def)

text \<open>
  C32. What the dashboard sends is well-formed HTTP. Every request that is read gets one response, whose
  head ends at the empty line and announces exactly the length of the body that follows; the body is
  the page for its two paths, a not-found text with status 404 for an unknown path, and for the
  statistics a JSON object with the counters of the hub, whose keys are, in order, those the page
  looks up for its cards.
\<close>

theorem dashboard_responds:
  assumes "buf \<noteq> []" and "dashboard_handle db h (Inr buf) (Inr ()) flushed = (result, out)"
  shows "\<exists>status content_type body.
    out = str_bytes (http_response (status, content_type, body)) \<and> result = flushed \<and>
    http_read (http_response (status, content_type, body)) =
      Some ([''HTTP/1.1 '' @ status, ''Content-Type: '' @ content_type, ''Content-Length: '' @ dec_string (length body),
        ''Connection: close'', ''Cache-Control: no-store''], body) \<and>
    (if request_path buf \<in> {''/'', ''/index.html''} then status = ''200 OK'' \<and> body = INDEX_HTML
     else if request_path buf \<in> {''/stats'', ''/stats.json''} then status = ''200 OK'' \<and>
       map fst (json_members body) = map (quoted \<circ> fst) CARDS \<and>
       map snd (json_members body) = map dec_string [clients_online (stats db h), clients_total (stats db h),
         st_subscription_count (stats db h), st_retained_count (stats db h), unat (dead_letters (stats db h)),
         unat (events (stats db h)), unat (st_next_offset (stats db h))]
     else status = ''404 Not Found'' \<and> body = ''not found'')"
proof -
  obtain status content_type body where r: "respond_to db h (request_path buf) = (status, content_type, body)"
    by (metis prod_cases3)
  then have "LF \<notin> set status" "LF \<notin> set content_type"
    by (auto simp: respond_to_def LF_def split: if_splits)
  from http_read_response [OF this, of body] have "http_read (http_response (status, content_type, body)) =
      Some ([''HTTP/1.1 '' @ status, ''Content-Type: '' @ content_type, ''Content-Length: '' @ dec_string (length body),
        ''Connection: close'', ''Cache-Control: no-store''], body)" .
  moreover have "out = str_bytes (http_response (status, content_type, body))" "result = flushed"
    using assms r by (simp_all add: dashboard_handle_def Let_def)
  moreover have "if request_path buf \<in> {''/'', ''/index.html''} then status = ''200 OK'' \<and> body = INDEX_HTML
    else if request_path buf \<in> {''/stats'', ''/stats.json''} then status = ''200 OK'' \<and> body = stats_json (stats db h)
    else status = ''404 Not Found'' \<and> body = ''not found''"
    using r unfolding respond_to_def insert_iff empty_iff by (simp only: prod.inject simp_thms split: if_splits)
  ultimately show ?thesis
    using stats_members [of "stats db h"] by metis
qed

lemma stats_request: "request_path (str_bytes ''GET /stats HTTP/1.1'') = ''/stats'' \<and> str_bytes ''GET /stats HTTP/1.1'' \<noteq> []"
  by code_simp

theorem dashboard_responds_witness:
  "\<exists>content_type body. dashboard_handle list_db (hub_new list_db None retry_default 0 0)
       (Inr (str_bytes ''GET /stats HTTP/1.1'')) (Inr ()) (Inr ()) =
     (Inr (), str_bytes (http_response (''200 OK'', content_type, body))) \<and>
     map fst (json_members body) = map (quoted \<circ> fst) CARDS"
proof -
  let ?h = "hub_new list_db None retry_default 0 0" and ?buf = "str_bytes ''GET /stats HTTP/1.1''"
  obtain result out where run: "dashboard_handle list_db ?h (Inr ?buf) (Inr ()) (Inr ()) = (result, out)"
    by (metis prod.exhaust)
  have "''/stats'' \<notin> {''/'', ''/index.html''}" by simp
  with dashboard_responds [OF conjunct2 [OF stats_request] run] stats_request run show ?thesis
    by (metis insertI1)
qed

end
