(* ===== verification/Ws.thy ===== *)
theory Ws
  imports Relay_Prelude
begin

text \<open>
  \<open>relay-server/src/ws.rs\<close>: MQTT over WebSocket. The WebSocket library frames the socket; here it is
  the sequence of what its polls yield. The adapter turns that sequence into a byte stream for the
  MQTT codec and back.
\<close>

section \<open>Upgrade\<close>

definition to_ascii_lowercase :: "char \<Rightarrow> char" where
  "to_ascii_lowercase c =
     (let n = of_char c in if (65::nat) \<le> n \<and> n \<le> 90 then char_of (n + 32) else c)"

definition eq_ignore_ascii_case :: "string \<Rightarrow> string \<Rightarrow> bool" where
  "eq_ignore_ascii_case a b \<longleftrightarrow> map to_ascii_lowercase a = map to_ascii_lowercase b"

definition SEC_WEBSOCKET_PROTOCOL :: string where
  "SEC_WEBSOCKET_PROTOCOL = ''sec-websocket-protocol''"

text \<open>
  The values of the request's protocol header, \<open>None\<close> for one that is not text; the headers of the
  response, by name.
\<close>

definition upgrade_callback ::
    "string option list \<Rightarrow> (string, string) hash_map \<Rightarrow> (string, string) hash_map" where
  "upgrade_callback protocols response =
     (let wants_mqtt = list_ex (\<lambda>p. eq_ignore_ascii_case (trim p) ''mqtt'')
            (concat (map (split_on CHR '','') (List.map_filter id protocols)))
      in if wants_mqtt then hm_insert SEC_WEBSOCKET_PROTOCOL ''mqtt'' response else response)"

section \<open>The byte stream\<close>

datatype WsMessage = Binary bytes | Text string | Ping bytes | Pong bytes | CloseFrame | Frame bytes

text \<open>
  What one poll of the WebSocket yields; \<open>WsPending\<close> when nothing has arrived yet. The errors of the
  library are an arbitrary type \<open>'e\<close>.
\<close>

datatype 'e WsPoll = WsItem WsMessage | WsError 'e | WsEnd | WsPending

text \<open>\<open>io::Error::other\<close> keeps the error it wraps.\<close>

datatype 'e IoError = IoOther 'e

definition io_err :: "'e \<Rightarrow> 'e IoError" where
  "io_err e = IoOther e"

text \<open>\<open>ReadBytes []\<close> for a buffer with room is the end of the stream.\<close>

datatype 'e ReadResult = ReadBytes bytes | ReadError "'e IoError" | ReadPending

text \<open>The bytes of a binary frame not yet handed to the reader, and the WebSocket.\<close>

type_synonym 'e WsByteStream = "bytes \<times> 'e WsPoll list"

definition ws_new :: "'e WsPoll list \<Rightarrow> 'e WsByteStream" where
  "ws_new ws = ([], ws)"

text \<open>\<open>poll_read\<close> into a buffer with room for \<open>remaining\<close> bytes.\<close>

fun poll_read :: "'e WsByteStream \<Rightarrow> nat \<Rightarrow> 'e ReadResult \<times> 'e WsByteStream" where
  "poll_read (read_buf, polls) remaining =
     (if read_buf \<noteq> [] then
        let n = min (length read_buf) remaining
        in (ReadBytes (take n read_buf), drop n read_buf, polls)
      else case polls of
        [] \<Rightarrow> (ReadPending, read_buf, [])
      | WsItem (Binary data) # polls \<Rightarrow> poll_read (data, polls) remaining
      | WsItem CloseFrame # polls \<Rightarrow> (ReadBytes [], read_buf, polls)
      | WsItem _ # polls \<Rightarrow> poll_read (read_buf, polls) remaining
      | WsError e # polls \<Rightarrow> (ReadError (io_err e), read_buf, polls)
      | WsEnd # polls \<Rightarrow> (ReadBytes [], read_buf, polls)
      | WsPending # polls \<Rightarrow> (ReadPending, read_buf, polls))"

declare poll_read.simps [simp del]

text \<open>A poll of the sink side of the library.\<close>

datatype ('a, 'e) Poll = Ready 'a | Failed 'e | Pending

text \<open>
  \<open>poll_write\<close>, given what \<open>poll_ready\<close> and \<open>start_send\<close> (\<open>None\<close>: no error) of the library return: the
  number of bytes taken, and the frame emitted.
\<close>

definition poll_write ::
    "(unit, 'e) Poll \<Rightarrow> 'e option \<Rightarrow> bytes \<Rightarrow> (nat, 'e IoError) Poll \<times> WsMessage list" where
  "poll_write ready sent buf =
     (case ready of
        Ready _ \<Rightarrow>
          (case sent of
             None \<Rightarrow> (Ready (length buf), [Binary buf])
           | Some e \<Rightarrow> (Failed (io_err e), []))
      | Failed e \<Rightarrow> (Failed (io_err e), [])
      | Pending \<Rightarrow> (Pending, []))"

definition map_err :: "('e \<Rightarrow> 'f) \<Rightarrow> ('a, 'e) Poll \<Rightarrow> ('a, 'f) Poll" where
  "map_err f p = (case p of Ready x \<Rightarrow> Ready x | Failed e \<Rightarrow> Failed (f e) | Pending \<Rightarrow> Pending)"

text \<open>Flushing and shutting down, given what \<open>poll_flush\<close> and \<open>poll_close\<close> of the library return.\<close>

definition poll_flush :: "(unit, 'e) Poll \<Rightarrow> (unit, 'e IoError) Poll" where
  "poll_flush flushed = map_err io_err flushed"

definition poll_shutdown :: "(unit, 'e) Poll \<Rightarrow> (unit, 'e IoError) Poll" where
  "poll_shutdown closed = map_err io_err closed"

section \<open>Reading\<close>

text \<open>The bytes a sequence of polls carries, up to the end of the stream.\<close>

fun payload :: "'e WsPoll list \<Rightarrow> bytes" where
  "payload [] = []"
| "payload (WsItem (Binary data) # polls) = data @ payload polls"
| "payload (WsItem CloseFrame # polls) = []"
| "payload (WsItem (Text s) # polls) = payload polls"
| "payload (WsItem (Ping b) # polls) = payload polls"
| "payload (WsItem (Pong b) # polls) = payload polls"
| "payload (WsItem (Frame b) # polls) = payload polls"
| "payload (WsError e # polls) = []"
| "payload (WsEnd # polls) = []"
| "payload (WsPending # polls) = payload polls"

text \<open>The error that ends the stream, if one does.\<close>

fun stream_error :: "'e WsPoll list \<Rightarrow> 'e option" where
  "stream_error [] = None"
| "stream_error (WsItem CloseFrame # polls) = None"
| "stream_error (WsError e # polls) = Some e"
| "stream_error (WsEnd # polls) = None"
| "stream_error (p # polls) = stream_error polls"

text \<open>
  A reader that polls with buffers of the given sizes until the stream ends or fails: the bytes it
  got, the error, and what is left.
\<close>

fun read_stream :: "'e WsByteStream \<Rightarrow> nat list \<Rightarrow> bytes \<times> 'e IoError option \<times> 'e WsByteStream" where
  "read_stream stream [] = ([], None, stream)"
| "read_stream stream (room # rooms) =
     (case poll_read stream room of
        (ReadBytes [], stream) \<Rightarrow> ([], None, stream)
      | (ReadBytes bs, stream) \<Rightarrow>
          (case read_stream stream rooms of (out, rest) \<Rightarrow> (bs @ out, rest))
      | (ReadPending, stream) \<Rightarrow> read_stream stream rooms
      | (ReadError e, stream) \<Rightarrow> ([], Some e, stream))"

lemma poll_read_buffered [simp]:
  "read_buf \<noteq> [] \<Longrightarrow> poll_read (read_buf, polls) room = (ReadBytes (take room read_buf), drop room read_buf, polls)"
  by (subst poll_read.simps) (simp add: Let_def min_def)

lemma poll_read_empty [simp]:
  "poll_read ([], []) room = (ReadPending, [], [])"
  "poll_read ([], (WsItem (Binary data) # polls)) room = poll_read (data, polls) room"
  "poll_read ([], (WsItem CloseFrame # polls)) room = (ReadBytes [], [], polls)"
  "poll_read ([], (WsItem (Text s) # polls)) room = poll_read ([], polls) room"
  "poll_read ([], (WsItem (Ping b) # polls)) room = poll_read ([], polls) room"
  "poll_read ([], (WsItem (Pong b) # polls)) room = poll_read ([], polls) room"
  "poll_read ([], (WsItem (Frame b) # polls)) room = poll_read ([], polls) room"
  "poll_read ([], WsError e # polls) room = (ReadError (io_err e), [], polls)"
  "poll_read ([], (WsEnd # polls)) room = (ReadBytes [], [], polls)"
  "poll_read ([], (WsPending # polls)) room = (ReadPending, [], polls)"
  by (subst poll_read.simps, simp)+

text \<open>
  What one poll does to a stream of bytes still to come in \<open>n\<close> polls and to end with \<open>err\<close>: it takes
  a non-empty prefix of the bytes, or takes none and reports that nothing is there yet, or reports
  the end or the error with no bytes left.
\<close>

definition read_spec :: "bytes \<Rightarrow> 'e option \<Rightarrow> nat \<Rightarrow> 'e ReadResult \<times> 'e WsByteStream \<Rightarrow> bool" where
  "read_spec stream err n r \<longleftrightarrow>
     (case r of
        (ReadBytes bs, read_buf, polls) \<Rightarrow>
          if bs = [] then stream = [] \<and> err = None
          else stream = bs @ read_buf @ payload polls \<and> err = stream_error polls \<and> length polls \<le> n
      | (ReadPending, read_buf, polls) \<Rightarrow>
          stream = payload polls \<and> err = stream_error polls \<and> read_buf = [] \<and> length polls \<le> n - 1
      | (ReadError e, _, _) \<Rightarrow> stream = [] \<and> map_option io_err err = Some e)"

lemma read_spec_simps [simp]:
  "read_spec stream err n (ReadBytes bs, read_buf, polls) =
     (if bs = [] then stream = [] \<and> err = None
      else stream = bs @ read_buf @ payload polls \<and> err = stream_error polls \<and> length polls \<le> n)"
  "read_spec stream err n (ReadPending, read_buf, polls) =
     (stream = payload polls \<and> err = stream_error polls \<and> read_buf = [] \<and> length polls \<le> n - 1)"
  "read_spec stream err n (ReadError e, read_buf, polls) = (stream = [] \<and> map_option io_err err = Some e)"
  by (simp_all add: read_spec_def)

lemma read_spec_Suc: "read_spec stream err n r \<Longrightarrow> read_spec stream err (Suc n) r"
  by (auto simp: read_spec_def split: prod.splits ReadResult.splits if_splits)

lemma poll_read_spec:
  assumes "0 < room"
  shows "read_spec (read_buf @ payload polls) (stream_error polls) (length polls) (poll_read (read_buf, polls) room)"
proof (cases "read_buf = []")
  case False
  with assms show ?thesis by simp
next
  case True
  have "read_spec (payload polls) (stream_error polls) (length polls) (poll_read ([], polls) room)"
  proof (induction polls rule: payload.induct)
    case (2 data polls)
    then show ?case using assms by (cases "data = []") (auto intro: read_spec_Suc)
  qed (auto intro: read_spec_Suc)
  with True show ?thesis by simp
qed

lemma read_stream_complete:
  "list_all (\<lambda>n. 0 < n) rooms \<Longrightarrow> length (read_buf @ payload polls) + length polls \<le> length rooms \<Longrightarrow>
     \<exists>rest. read_stream (read_buf, polls) rooms =
       (read_buf @ payload polls, map_option io_err (stream_error polls), rest)"
proof (induction rooms arbitrary: read_buf polls)
  case (Cons room rooms)
  let ?s = "read_buf @ payload polls"
  obtain r rb ps where poll: "poll_read (read_buf, polls) room = (r, rb, ps)" by (metis prod_cases3)
  have spec: "read_spec ?s (stream_error polls) (length polls) (r, rb, ps)"
    using poll_read_spec [of room read_buf polls] Cons.prems(1) poll by simp
  show ?case
  proof (cases r)
    case (ReadBytes bs)
    show ?thesis
    proof (cases "bs = []")
      case False
      then have ps: "?s = bs @ rb @ payload ps" "stream_error polls = stream_error ps" "length ps \<le> length polls"
        "0 < length bs" using spec ReadBytes by simp_all
      then have "length (rb @ payload ps) + length ps \<le> length rooms"
        using Cons.prems(2) unfolding ps(1) length_append list.size by linarith
      with Cons.IH [of rb ps] Cons.prems(1) obtain rest where
        "read_stream (rb, ps) rooms = (rb @ payload ps, map_option io_err (stream_error ps), rest)" by auto
      with ps ReadBytes poll False show ?thesis by (cases bs) simp_all
    qed (use ReadBytes spec poll in simp)
  next
    case ReadPending
    then have ps: "?s = payload ps" "rb = []" "stream_error polls = stream_error ps" "length ps \<le> length polls - 1"
      using spec by simp_all
    moreover from this have "length (rb @ payload ps) + length ps \<le> length rooms"
      using Cons.prems(2) by (cases polls) auto
    ultimately show ?thesis using ReadPending poll Cons.IH [of rb ps] Cons.prems(1) by simp
  next
    case (ReadError e)
    then show ?thesis using spec poll by auto
  qed
qed simp

section \<open>Writing and reading back\<close>

text \<open>The polls that carry no part of the stream: control and text frames, and waiting.\<close>

definition noise :: "'e WsPoll \<Rightarrow> bool" where
  "noise p \<longleftrightarrow> (case p of WsItem (Binary _) \<Rightarrow> False | WsItem CloseFrame \<Rightarrow> False | WsItem _ \<Rightarrow> True
     | WsPending \<Rightarrow> True | _ \<Rightarrow> False)"

text \<open>How a stream may go on after its last byte: not at all, or with its end, a close or an error.\<close>

definition stream_over :: "'e WsPoll list \<Rightarrow> bool" where
  "stream_over polls \<longleftrightarrow> (case polls of [] \<Rightarrow> True | WsEnd # _ \<Rightarrow> True | WsItem CloseFrame # _ \<Rightarrow> True
     | WsError _ # _ \<Rightarrow> True | _ \<Rightarrow> False)"

definition write_chunks :: "bytes list \<Rightarrow> WsMessage list" where
  "write_chunks chunks = concat (map (\<lambda>buf. snd (poll_write (Ready ()) (None :: unit option) buf)) chunks)"

lemma filter_noise:
  "payload (filter (\<lambda>p. \<not> noise p) polls) = payload polls"
  "stream_error (filter (\<lambda>p. \<not> noise p) polls) = stream_error polls"
  by (induction polls rule: payload.induct) (simp_all add: noise_def)

lemma stream_over_payload: "stream_over polls \<Longrightarrow> payload polls = []"
  by (auto simp: stream_over_def split: list.splits WsPoll.splits WsMessage.splits)

lemma chunks_stream:
  "payload (map WsItem (write_chunks chunks) @ polls) = concat chunks @ payload polls"
  "stream_error (map WsItem (write_chunks chunks) @ polls) = stream_error polls"
  by (induction chunks) (simp_all add: write_chunks_def poll_write_def)

text \<open>
  C31. The WebSocket adapter is a transparent byte stream: what one side writes in any pieces, the
  other side reads back as the same bytes in the same order, whatever pings, pongs, text frames and
  waits come in between and however small its read buffers are, once it has polled often enough.
  Frame boundaries, empty frames included, leave no trace, so the codec finds the packets again. A
  failure of the library is reported after the last byte and as that failure; the end of the stream
  and a close frame are not failures.
\<close>

theorem ws_roundtrip:
  assumes "filter (\<lambda>p. \<not> noise p) polls = map WsItem (write_chunks chunks) @ ending" and "stream_over ending"
    and "list_all (\<lambda>n. 0 < n) rooms"
    and "length (concat chunks) + length polls \<le> length rooms"
  shows "\<exists>rest. read_stream (ws_new polls) rooms = (concat chunks, map_option io_err (stream_error ending), rest)"
proof -
  have "payload polls = concat chunks" "stream_error polls = stream_error ending"
    using filter_noise [of polls] assms(1) by (simp_all add: chunks_stream stream_over_payload [OF assms(2)])
  then show ?thesis
    using read_stream_complete [OF assms(3), of "[]" polls] assms(4) by (simp add: ws_new_def)
qed

definition sample_polls :: "string WsPoll list" where
  "sample_polls = [WsPending, WsItem (Binary [1, 2, 3]), WsItem (Ping []), WsItem (Binary []),
     WsItem (Text ''x''), WsItem (Binary [4, 5]), WsError ''reset'']"

theorem ws_roundtrip_witness:
  "\<exists>rest. read_stream (ws_new sample_polls) (replicate 12 2) = ([1, 2, 3, 4, 5], Some (IoOther ''reset''), rest)"
  using ws_roundtrip [of sample_polls "[[1, 2, 3], [], [4, 5]]" "[WsError ''reset'']" "replicate 12 2"]
  by (simp add: sample_polls_def noise_def write_chunks_def poll_write_def list_all_iff stream_over_def io_err_def)

end
