(* ===== verification/Server.thy ===== *)
theory Server
  imports Connection Dashboard Ws
begin

text \<open>
  \<open>relay-server/src/config.rs\<close> and \<open>relay-server/src/main.rs\<close>: the configuration, what the start of
  the server derives from it, and the accept loops that share one semaphore. Reading the file and
  parsing TOML are the file system and a library: arguments of \<open>load\<close>. Environment variables are
  arguments of the defaults.
\<close>

section \<open>Configuration\<close>

datatype IpAddr = V4 u8 u8 u8 u8 | V6 "u16 list"

definition is_loopback :: "IpAddr \<Rightarrow> bool" where
  "is_loopback ip = (case ip of
     V4 a b c d \<Rightarrow> a = 127
   | V6 segments \<Rightarrow> segments = [0, 0, 0, 0, 0, 0, 0, 1])"

record SocketAddr =
  sa_ip :: IpAddr
  sa_port :: u16

record Config =
  tcp_addr :: SocketAddr
  ws_addr :: SocketAddr
  data_dir :: "string option"
  max_delivery_attempts :: u32
  retry_base_secs :: u64
  retry_max_secs :: u64
  event_log_max :: u64
  tls_addr :: "SocketAddr option"
  tls_cert :: "string option"
  tls_key :: "string option"
  http_addr :: "SocketAddr option"
  http_allow_external :: bool
  max_connections :: usize
  connect_timeout_ms :: u64
  cfg_max_subscriptions :: usize
  auth :: AuthConfig

definition default_tcp_addr :: SocketAddr where
  "default_tcp_addr = \<lparr>sa_ip = V4 127 0 0 1, sa_port = 1883\<rparr>"

definition default_ws_addr :: SocketAddr where
  "default_ws_addr = \<lparr>sa_ip = V4 0 0 0 0, sa_port = 8083\<rparr>"

definition default_max_delivery_attempts :: u32 where "default_max_delivery_attempts = 5"
definition default_retry_base_secs :: u64 where "default_retry_base_secs = 5"
definition default_retry_max_secs :: u64 where "default_retry_max_secs = 60"
definition default_event_log_max :: u64 where "default_event_log_max = 100000"

definition env_or :: "string option \<Rightarrow> (string \<Rightarrow> 'a option) \<Rightarrow> 'a \<Rightarrow> 'a" where
  "env_or var parse fallback = (case Option.bind var parse of Some x \<Rightarrow> x | None \<Rightarrow> fallback)"

definition parse_bool :: "string \<Rightarrow> bool option" where
  "parse_bool s = (if s = ''true'' then Some True else if s = ''false'' then Some False else None)"

definition default_http_allow_external :: "string option \<Rightarrow> bool" where
  "default_http_allow_external var = env_or var parse_bool False"

definition default_max_connections :: "string option \<Rightarrow> usize" where
  "default_max_connections var = env_or var parse_u64 1000"

definition default_connect_timeout_ms :: "string option \<Rightarrow> u64" where
  "default_connect_timeout_ms var = env_or var parse_u64 5000"

definition default_max_subscriptions_per_client :: "string option \<Rightarrow> usize" where
  "default_max_subscriptions_per_client var = env_or var parse_u64 50"

datatype ConfigError = Missing string | Io IoErrorKind | Parse

definition load :: "(string \<Rightarrow> IoErrorKind + string) \<Rightarrow> (string \<Rightarrow> Config option) \<Rightarrow> string \<Rightarrow> ConfigError + Config" where
  "load read_to_string from_toml path =
     (case read_to_string path of
        Inl e \<Rightarrow> Inl (if e = NotFound then Missing path else Io e)
      | Inr text \<Rightarrow> (case from_toml text of None \<Rightarrow> Inl Parse | Some config \<Rightarrow> Inr config))"

section \<open>What main derives from it\<close>

definition retry_config :: "Config \<Rightarrow> RetryConfig" where
  "retry_config config = \<lparr>max_attempts = max_delivery_attempts config,
     base = from_secs (unat (max (retry_base_secs config) 1)),
     cap = from_secs (unat (max (retry_max_secs config) 1))\<rparr>"

definition limits :: "Config \<Rightarrow> Limits" where
  "limits config = \<lparr>connect_timeout = unat (connect_timeout_ms config) * 1000000,
     max_subscriptions_per_client = cfg_max_subscriptions config\<rparr>"

text \<open>The addresses the TLS listener and the dashboard listen on, if they do.\<close>

definition tls_bind :: "Config \<Rightarrow> SocketAddr option" where
  "tls_bind config = (case (tls_cert config, tls_key config) of
     (Some cert, Some key) \<Rightarrow>
       Some (case tls_addr config of Some addr \<Rightarrow> addr | None \<Rightarrow> \<lparr>sa_ip = V4 0 0 0 0, sa_port = 8883\<rparr>)
   | _ \<Rightarrow> None)"

definition dashboard_bind :: "Config \<Rightarrow> SocketAddr option" where
  "dashboard_bind config = (case http_addr config of
     None \<Rightarrow> None
   | Some addr \<Rightarrow>
       if is_loopback (sa_ip addr) then Some addr
       else if http_allow_external config then Some addr
       else None)"

section \<open>The accept loops\<close>

datatype Listener = Tcp | WebSocket | Tls

text \<open>The semaphore, and the tasks that hold one of its permits, with the peer name they handle.\<close>

record Server =
  sv_permits :: nat
  sv_tasks :: "(nat \<times> string) list"

text \<open>\<open>Semaphore::new\<close> panics above its documented maximum.\<close>

definition MAX_PERMITS :: nat where
  "MAX_PERMITS = 2 ^ 61 - 1"

definition server_start :: "Config \<Rightarrow> Server option" where
  "server_start config =
     (if unat (max_connections config) \<le> MAX_PERMITS
      then Some \<lparr>sv_permits = unat (max_connections config), sv_tasks = []\<rparr> else None)"

definition peer_name :: "Listener \<Rightarrow> string \<Rightarrow> string" where
  "peer_name listener peer =
     (case listener of Tcp \<Rightarrow> peer | WebSocket \<Rightarrow> ''ws://'' @ peer | Tls \<Rightarrow> ''tls://'' @ peer)"

text \<open>
  One iteration of an accept loop: \<open>accept\<close> has failed, which is only logged, or has returned a peer,
  for which a task named \<open>task\<close> is spawned if a permit is left. The end of a task, by a failed handshake
  or by the return of the connection handler, drops its permit.
\<close>

definition accept :: "Server \<Rightarrow> Listener \<Rightarrow> nat \<Rightarrow> string io \<Rightarrow> bool \<times> Server" where
  "accept sv listener task res =
     (case res of
        Inl e \<Rightarrow> (False, sv)
      | Inr peer \<Rightarrow>
          if sv_permits sv = 0 then (False, sv)
          else (True, sv\<lparr>sv_permits := sv_permits sv - 1,
                         sv_tasks := sv_tasks sv @ [(task, peer_name listener peer)]\<rparr>))"

definition task_end :: "Server \<Rightarrow> nat \<Rightarrow> Server" where
  "task_end sv task =
     (if list_ex (\<lambda>(t, _). t = task) (sv_tasks sv)
      then sv\<lparr>sv_permits := sv_permits sv + 1, sv_tasks := AList.delete task (sv_tasks sv)\<rparr> else sv)"

text \<open>Any interleaving of the loops and of the ends of their tasks; a task has a fresh name.\<close>

inductive server_step :: "Server \<Rightarrow> Server \<Rightarrow> bool" where
  step_accept: "task \<notin> fst ` set (sv_tasks sv) \<Longrightarrow> server_step sv (snd (accept sv listener task res))"
| step_end: "server_step sv (task_end sv task)"

lemma server_step_inv:
  assumes "server_step sv sv'" "hm_ok (sv_tasks sv)" "sv_permits sv + length (sv_tasks sv) = n"
  shows "hm_ok (sv_tasks sv') \<and> sv_permits sv' + length (sv_tasks sv') = n"
  using assms
proof (induction rule: server_step.induct)
  case (step_accept task sv listener res)
  then show ?case by (auto simp: accept_def split: sum.split)
next
  case (step_end sv task)
  have "Suc (length (AList.delete task xs)) = length xs" if "distinct (map fst xs)" "task \<in> fst ` set xs"
    for xs :: "(nat \<times> string) list"
    using that
  proof (induction xs)
    case (Cons x xs)
    then show ?case by (cases x) (auto simp: delete_id)
  qed simp
  with step_end show ?case
    by (force simp: task_end_def list_ex_iff AList.distinct_delete)
qed

text \<open>
  C34. The limit on connections holds under every interleaving: the tasks that handle connections,
  whatever listener accepted them and including those still in a TLS or WebSocket handshake, never
  outnumber the configured maximum; a connection is refused exactly when as many tasks are running;
  and every permit comes back when its task ends, so the capacity never shrinks. The dashboard, which
  has no authentication, listens only on a loopback address unless the operator allowed otherwise.
\<close>

theorem connection_limit:
  assumes "server_start config = Some sv0" and "server_step\<^sup>*\<^sup>* sv0 sv"
  shows "length (sv_tasks sv) \<le> unat (max_connections config) \<and>
    (fst (accept sv listener task (Inr peer)) \<longleftrightarrow> length (sv_tasks sv) < unat (max_connections config)) \<and>
    sv_permits sv + length (sv_tasks sv) = unat (max_connections config) \<and>
    (dashboard_bind config = Some addr \<longrightarrow> is_loopback (sa_ip addr) \<or> http_allow_external config)"
proof -
  have sv0: "hm_ok (sv_tasks sv0)" "sv_permits sv0 + length (sv_tasks sv0) = unat (max_connections config)"
    using assms(1) by (auto simp: server_start_def split: if_splits)
  from assms(2) have "hm_ok (sv_tasks sv) \<and> sv_permits sv + length (sv_tasks sv) = unat (max_connections config)"
    by induction (use sv0 server_step_inv in auto)
  then show ?thesis
    by (auto simp: accept_def dashboard_bind_def split: option.splits if_splits)
qed

definition config0 :: Config where
  "config0 = \<lparr>tcp_addr = default_tcp_addr, ws_addr = default_ws_addr, data_dir = None,
     max_delivery_attempts = default_max_delivery_attempts, retry_base_secs = default_retry_base_secs,
     retry_max_secs = default_retry_max_secs, event_log_max = default_event_log_max, tls_addr = None,
     tls_cert = None, tls_key = None, http_addr = Some \<lparr>sa_ip = V4 127 0 0 1, sa_port = 8080\<rparr>,
     http_allow_external = default_http_allow_external (Some ''yes''), max_connections = 1,
     connect_timeout_ms = default_connect_timeout_ms None,
     cfg_max_subscriptions = default_max_subscriptions_per_client (Some ''7''), auth = toy_config\<rparr>"

theorem connection_limit_witness:
  "fst (accept (snd (accept \<lparr>sv_permits = 1, sv_tasks = []\<rparr> Tcp 0 (Inr ''a''))) WebSocket 1 (Inr ''b'')) = False \<and>
   dashboard_bind config0 = Some \<lparr>sa_ip = V4 127 0 0 1, sa_port = 8080\<rparr> \<and> is_loopback (V4 127 0 0 1)"
proof -
  let ?sv = "\<lparr>sv_permits = 1, sv_tasks = []\<rparr>"
  have start: "server_start config0 = Some ?sv" "unat (max_connections config0) = 1" by code_simp+
  have step: "server_step\<^sup>*\<^sup>* ?sv (snd (accept ?sv Tcp 0 (Inr ''a'')))"
    by (rule r_into_rtranclp, rule step_accept) simp
  have bind: "dashboard_bind config0 = Some \<lparr>sa_ip = V4 127 0 0 1, sa_port = 8080\<rparr>"
    "http_allow_external config0 = False" by code_simp+
  have "length (sv_tasks (snd (accept ?sv Tcp 0 (Inr ''a'')))) = 1" by code_simp
  with connection_limit [OF start(1) step, of WebSocket 1 "''b''" "\<lparr>sa_ip = V4 127 0 0 1, sa_port = 8080\<rparr>"] start(2) bind
  show ?thesis by auto
qed

end
