(* ===== verification/Broker.thy ===== *)
theory Broker
  imports Mirror_Ops Connection_Safety Server
begin

text \<open>
  The broker as a whole: the accept loops of \<open>main.rs\<close>, one task per accepted connection running the
  handler of \<open>connection.rs\<close>, the expiry timers, the retry timer and the persistence worker, all on
  one shared hub, taking turns in any order. Every handled event is one turn; that what is shown of
  the hub also holds between the calls that make up an event is the content of \<open>call_keeps\<close>.
\<close>

section \<open>Identifiers are never reused\<close>

lemma foldl_write_inflight_next [simp]: "h_next_id (foldl write_inflight h bs) = h_next_id h"
  by (induction bs arbitrary: h) simp_all

lemma deliver_targets_next:
  "deliver_targets h topic body qos now targets = Some (h', bs, n) \<Longrightarrow> h_next_id h' = h_next_id h"
proof (induction targets arbitrary: h bs n)
  case (Cons target targets)
  obtain cid granted where "target = (cid, granted)" by fastforce
  with Cons show ?case by (auto simp: Let_def bind_eq_Some_conv split: option.splits)
qed simp

lemma publish_next: "publish h topic body qos retain now ts = Some (n, h') \<Longrightarrow> h_next_id h' = h_next_id h"
  by (auto simp: publish_def Let_def bind_eq_Some_conv case_prod_beta split: if_splits dest!: deliver_targets_next)

lemma dead_letter_next: "dead_letter h c msg reason now ts = Some h' \<Longrightarrow> h_next_id h' = h_next_id h"
  by (auto simp: dead_letter_def Let_def split: if_splits dest!: publish_next)

lemma dead_letter_all_next: "dead_letter_all h dead reason now ts = Some h' \<Longrightarrow> h_next_id h' = h_next_id h"
proof (induction dead arbitrary: h)
  case (Cons d dead)
  then show ?case by (cases d) (auto simp: bind_eq_Some_conv dest!: dead_letter_next)
qed simp

lemma discard_next [simp]: "h_next_id (discard h cid) = h_next_id h"
  by (simp add: discard_sel)

lemma connect_next:
  assumes "hub_ok h" "h_next_id h + 1 \<noteq> 0" "connect h c clean expiry tx now = Some (cn, h')"
  shows "h_next_id h \<le> h_next_id h' \<and> cn_id cn < h_next_id h'"
proof -
  have less: "h_next_id h < h_next_id h + 1" using word_less_succ [OF order_refl assms(2)] .
  show ?thesis
    using assms(3) less hub_ok_session [OF assms(1)]
    by (auto simp: connect_def Let_def forget_persisted_def split: option.splits if_splits)
qed

lemma hub_step_next:
  assumes "hub_step db h h'" "hub_ok h" shows "h_next_id h \<le> h_next_id h'"
  using assms
proof (induction rule: hub_step.induct)
  case (step_connect h c clean expiry tx now cn h')
  then show ?case using connect_next by blast
next
  case (step_detach h cid gen)
  then show ?case by (simp add: detach_def Let_def split: option.split)
next
  case (step_purge h cid gen now ts h')
  then show ?case
    by (auto simp: purge_if_idle_def Let_def split: option.splits if_splits prod.splits dest!: dead_letter_all_next)
next
  case (step_retries h now ts h')
  then show ?case by (auto simp: run_retries_def Let_def split: prod.splits dest!: dead_letter_all_next)
next
  case (step_publish h topic body qos retain now ts n h')
  then show ?case by (auto dest: publish_next)
next
  case (step_unsubscribe h cid raw)
  then show ?case by (simp add: hub_unsubscribe_def Let_def case_prod_beta split: option.split)
next
  case (step_retained h cid flt granted now h')
  then show ?case
    by (auto simp: deliver_retained_def Let_def bind_eq_Some_conv write_snapshot_def split: option.splits if_splits)
next
  case (step_worker h h')
  then show ?case by (auto simp: worker_step_def split: option.splits list.splits)
qed (simp_all add: hub_subscribe_def hub_subscribe_shared_def persist_subscription_def replay_def Let_def
    case_prod_beta on_puback_def on_pubrec_def on_pubcomp_def locked_ack_def write_snapshot_def
    inbound_qos2_seen_def inbound_qos2_release_def hub_flush_def split: option.split)

lemma flush_wait_next: "flush_wait db h = Some h' \<Longrightarrow> h_next_id h' = h_next_id h"
  by (auto simp: flush_wait_def Let_def hub_flush_def split: option.splits)

section \<open>The tasks\<close>

text \<open>
  The semaphore with the accepted tasks, the local state of the handlers that have received their
  first packet (in the loop, or past it), and the hub.
\<close>

record ('s, 'u, 'e) Relay =
  rl_server :: Server
  rl_conns :: "(nat, Flow \<times> Conn) hash_map"
  rl_hub :: "('s, 'u, 'e) Hub"

definition relay_start :: "Config \<Rightarrow> ('s, 'u, 'e) Hub \<Rightarrow> ('s, 'u, 'e) Relay option" where
  "relay_start config h = map_option (\<lambda>sv. \<lparr>rl_server = sv, rl_conns = [], rl_hub = h\<rparr>) (server_start config)"

text \<open>A handler that has received nothing yet starts its loop with its first packet.\<close>

definition loop_state :: "('s, 'u, 'e) Relay \<Rightarrow> nat \<Rightarrow> Flow \<times> Conn" where
  "loop_state b task = (case hm_get (rl_conns b) task of None \<Rightarrow> (Continue, conn_init) | Some s \<Rightarrow> s)"

inductive relay_step ::
    "('s, 'u, 'e) Context \<Rightarrow> (('s, 'u, 'e) Hub \<Rightarrow> string \<Rightarrow> bool \<Rightarrow> u32 \<Rightarrow> bool) \<Rightarrow>
     ('s, 'u, 'e) Relay \<Rightarrow> ('s, 'u, 'e) Relay \<Rightarrow> bool" for cx legal where
  turn_accept: "task \<notin> fst ` set (sv_tasks (rl_server b)) \<Longrightarrow>
     relay_step cx legal b (b\<lparr>rl_server := snd (accept (rl_server b) listener task res)\<rparr>)"
| turn_fail: "hm_get (rl_conns b) task = None \<Longrightarrow>
     relay_step cx legal b (b\<lparr>rl_server := task_end (rl_server b) task\<rparr>)"
| turn_event: "hm_get (sv_tasks (rl_server b)) task = Some peer \<Longrightarrow> loop_state b task = (Continue, c) \<Longrightarrow>
     hm_get (rl_conns b) task \<noteq> None \<or> (\<exists>packet. ev = Incoming (InPacket packet)) \<Longrightarrow>
     event_legal legal (cx\<lparr>cx_peer := peer\<rparr>) (rl_hub b) ev \<Longrightarrow>
     conn_event (cx\<lparr>cx_peer := peer\<rparr>) tk c (rl_hub b) ev = Some (flow, c', h', out) \<Longrightarrow>
     relay_step cx legal b (b\<lparr>rl_conns := hm_insert task (flow, c') (rl_conns b), rl_hub := h'\<rparr>)"
| turn_close: "hm_get (rl_conns b) task = Some (Break, c) \<Longrightarrow> conn_close tk c (rl_hub b) = Some h' \<Longrightarrow>
     relay_step cx legal b (b\<lparr>rl_server := task_end (rl_server b) task, rl_conns := hm_remove task (rl_conns b), rl_hub := h'\<rparr>)"
| turn_purge: "(cid, gen, delay) \<in> set (h_timers (rl_hub b)) \<Longrightarrow>
     purge_if_idle ((rl_hub b)\<lparr>h_timers := remove1 (cid, gen, delay) (h_timers (rl_hub b))\<rparr>) cid gen now ts = Some h' \<Longrightarrow>
     relay_step cx legal b (b\<lparr>rl_hub := h'\<rparr>)"
| turn_retries: "run_retries (rl_hub b) now ts = Some h' \<Longrightarrow> relay_step cx legal b (b\<lparr>rl_hub := h'\<rparr>)"
| turn_worker: "worker_step (cx_db cx) (rl_hub b) = Some h' \<Longrightarrow> relay_step cx legal b (b\<lparr>rl_hub := h'\<rparr>)"

text \<open>What the local state of a handler satisfies.\<close>

definition conn_fits :: "Limits \<Rightarrow> ('s, 'u, 'e) Hub \<Rightarrow> Conn \<Rightarrow> bool" where
  "conn_fits lim h c \<longleftrightarrow> quota_ok lim (cs_active_filters c) \<and>
     pred_option (\<lambda>cid. cid < h_next_id h) (cs_session_id c)"

definition conns_fit :: "Limits \<Rightarrow> nat \<Rightarrow> ('s, 'u, 'e) Relay \<Rightarrow> bool" where
  "conns_fit lim n b \<longleftrightarrow>
     hm_ok (sv_tasks (rl_server b)) \<and> sv_permits (rl_server b) + length (sv_tasks (rl_server b)) = n \<and>
     hm_ok (rl_conns b) \<and>
     (\<forall>task flow c. hm_get (rl_conns b) task = Some (flow, c) \<longrightarrow>
        hm_get (sv_tasks (rl_server b)) task \<noteq> None \<and> conn_fits lim (rl_hub b) c)"

lemma conn_fits_init [simp]: "conn_fits lim h conn_init"
  by (simp add: conn_fits_def conn_init_def quota_ok_def)

lemma conn_fits_mono: "conn_fits lim h c \<Longrightarrow> h_next_id h \<le> h_next_id h' \<Longrightarrow> conn_fits lim h' c"
  by (auto simp: conn_fits_def pred_option_def intro: order.strict_trans2)

lemma conns_fit_start: "relay_start config h = Some b \<Longrightarrow> conns_fit lim (unat (max_connections config)) b"
  by (auto simp: relay_start_def server_start_def conns_fit_def split: if_splits)

lemma conns_fit_loop:
  "conns_fit lim n b \<Longrightarrow> loop_state b task = (flow, c) \<Longrightarrow> conn_fits lim (rl_hub b) c"
  by (auto simp: conns_fit_def loop_state_def split: option.splits)

lemma conns_fit_hub:
  "conns_fit lim n b \<Longrightarrow> h_next_id (rl_hub b) \<le> h_next_id h' \<Longrightarrow> conns_fit lim n (b\<lparr>rl_hub := h'\<rparr>)"
  using conn_fits_mono [of lim "rl_hub b" _ h'] by (fastforce simp: conns_fit_def)

lemma conns_fit_put:
  assumes "conns_fit lim n b" "hm_get (sv_tasks (rl_server b)) task \<noteq> None" "h_next_id (rl_hub b) \<le> h_next_id h'"
    "conn_fits lim h' c"
  shows "conns_fit lim n (b\<lparr>rl_conns := hm_insert task (flow, c) (rl_conns b), rl_hub := h'\<rparr>)"
  using assms conn_fits_mono [of lim "rl_hub b" _ h'] by (fastforce simp: conns_fit_def hm_ok_insert update_conv')

lemma task_end_tasks: "hm_get (sv_tasks (task_end sv task)) = (hm_get (sv_tasks sv))(task := None)"
proof (cases "list_ex (\<lambda>(t, _). t = task) (sv_tasks sv)")
  case False
  then have "hm_get (sv_tasks sv) task = None" by (force simp: list_ex_iff map_of_eq_None_iff)
  with False show ?thesis by (simp add: task_end_def fun_upd_idem)
qed (simp add: task_end_def fun_eq_iff delete_conv')

lemma conns_fit_end:
  assumes "conns_fit lim n b"
  shows "conns_fit lim n (b\<lparr>rl_server := task_end (rl_server b) task, rl_conns := hm_remove task (rl_conns b)\<rparr>)"
proof -
  have "hm_ok (sv_tasks (task_end (rl_server b) task)) \<and>
      sv_permits (task_end (rl_server b) task) + length (sv_tasks (task_end (rl_server b) task)) = n"
    by (rule server_step_inv [OF step_end]) (use assms in \<open>simp_all add: conns_fit_def\<close>)
  moreover have "hm_get (rl_conns b) t = Some (flow, c) \<longrightarrow>
      hm_get (sv_tasks (rl_server b)) t \<noteq> None \<and> conn_fits lim (rl_hub b) c" for t flow c
    using assms unfolding conns_fit_def by blast
  moreover have "hm_ok (rl_conns b)" using assms unfolding conns_fit_def by blast
  ultimately show ?thesis
    unfolding conns_fit_def by (simp add: task_end_tasks delete_conv' hm_ok_remove)
qed

section \<open>What the tasks rely on\<close>

text \<open>
  The contract of the hub with the tasks that share it: a property \<open>ok\<close> of the hub that each
  operation keeps, when a CONNECT is \<open>legal\<close> and subscriptions are made for identifiers that were
  given out.
\<close>

locale hub_service =
  fixes db :: "('s, 'u, 'e) Redb"
    and legal :: "('s, 'u, 'e) Hub \<Rightarrow> string \<Rightarrow> bool \<Rightarrow> u32 \<Rightarrow> bool"
    and ok :: "('s, 'u, 'e) Hub \<Rightarrow> bool"
  assumes ok_hub: "ok h \<Longrightarrow> hub_ok h"
    and legal_counters: "legal h c clean expiry \<Longrightarrow> h_next_id h + 1 \<noteq> 0 \<and> generation (h_sessions h) + 1 \<noteq> 0"
    and keeps_connect: "ok h \<Longrightarrow> legal h c clean expiry \<Longrightarrow> connect h c clean expiry tx now = Some (cn, h') \<Longrightarrow> ok h'"
    and keeps_publish: "ok h \<Longrightarrow> publish h topic body qos retain now ts = Some (n, h') \<Longrightarrow> ok h'"
    and keeps_subscribe: "ok h \<Longrightarrow> cid < h_next_id h \<Longrightarrow> shared_parse raw = None \<Longrightarrow> topic_filter_parse raw = Some flt \<Longrightarrow>
      ok (hub_subscribe h cid flt qos raw)"
    and keeps_subscribe_shared: "ok h \<Longrightarrow> cid < h_next_id h \<Longrightarrow> shared_parse raw = Some sh \<Longrightarrow>
      ok (hub_subscribe_shared h (ss_group sh) cid (ss_filter sh) qos raw)"
    and keeps_unsubscribe: "ok h \<Longrightarrow> ok (snd (hub_unsubscribe h cid raw))"
    and keeps_retained: "ok h \<Longrightarrow> deliver_retained h cid flt granted now = Some h' \<Longrightarrow> ok h'"
    and keeps_replay: "ok h \<Longrightarrow> ok (snd (replay db h cid since flt))"
    and keeps_acks: "ok h \<Longrightarrow> ok (on_puback h cid pid) \<and> ok (on_pubrec h cid pid) \<and> ok (on_pubcomp h cid pid)"
    and keeps_qos2: "ok h \<Longrightarrow> ok (snd (inbound_qos2_seen h cid pid)) \<and> ok (inbound_qos2_release h cid pid)"
    and keeps_detach: "ok h \<Longrightarrow> ok (detach h cid gen)"
    and keeps_flush: "ok h \<Longrightarrow> flush_wait db h = Some h' \<Longrightarrow> ok h'"
    and keeps_timers: "ok h \<Longrightarrow> ok (h\<lparr>h_timers := timers\<rparr>)"
    and keeps_purge: "ok h \<Longrightarrow> purge_if_idle h cid gen now ts = Some h' \<Longrightarrow> ok h'"
    and keeps_retries: "ok h \<Longrightarrow> run_retries h now ts = Some h' \<Longrightarrow> ok h'"
    and keeps_worker: "ok h \<Longrightarrow> worker_step db h = Some h' \<Longrightarrow> ok h'"
begin

text \<open>The session of a grant has an identifier that was given out.\<close>

lemma call_keeps:
  assumes "conn_call db legal acls (g, h) (g', h')" "ok h" "pred_option (\<lambda>cid. cid < h_next_id h) (gr_session g)"
  shows "ok h' \<and> h_next_id h \<le> h_next_id h' \<and> pred_option (\<lambda>cid. cid < h_next_id h') (gr_session g')"
proof -
  have step: "ok h' \<and> h_next_id h \<le> h_next_id h' \<and> pred_option (\<lambda>cid. cid < h_next_id h') (gr_session g)"
    if "hub_step db h h'" "ok h'" for h'
    using hub_step_next [OF that(1) ok_hub [OF assms(2)]] that(2) assms(3)
    by (auto simp: pred_option_def intro: order.strict_trans2)
  show ?thesis
    using assms
  proof (cases rule: conn_call.cases)
    case (call_connect acl will client clean expiry tx now cn)
    with assms(2) legal_counters connect_next [OF ok_hub [OF assms(2)]] keeps_connect show ?thesis
      by simp
  next
    case (call_flush)
    with assms keeps_flush flush_wait_next [of db h h'] show ?thesis by auto
  next
    case (call_publish cid topic body qos retain now ts n)
    with assms step [OF step_publish] keeps_publish show ?thesis by blast
  next
    case (call_will w now ts n)
    with assms step [OF step_publish] keeps_publish show ?thesis by blast
  next
    case (call_retained cid flt granted now)
    with assms step [OF step_retained] keeps_retained show ?thesis by blast
  qed (use assms step [OF step_subscribe] step [OF step_subscribe_shared] step [OF step_unsubscribe]
      step [OF step_replay] step [OF step_puback] step [OF step_pubrec] step [OF step_pubcomp] step [OF step_seen]
      step [OF step_release] step [OF step_detach] keeps_subscribe keeps_subscribe_shared keeps_unsubscribe
      keeps_replay keeps_acks keeps_qos2 keeps_detach in simp_all)
qed

lemma calls_keep:
  assumes "conn_calls db legal acls gh gh'" "ok (snd gh)"
    "pred_option (\<lambda>cid. cid < h_next_id (snd gh)) (gr_session (fst gh))"
  shows "ok (snd gh') \<and> h_next_id (snd gh) \<le> h_next_id (snd gh') \<and>
    pred_option (\<lambda>cid. cid < h_next_id (snd gh')) (gr_session (fst gh'))"
  using assms
proof (induction rule: rtranclp_induct)
  case (step gh1 gh2)
  with call_keeps [of acls "fst gh1" "snd gh1" "fst gh2" "snd gh2"] show ?case by auto
qed simp

lemma event_keeps:
  assumes "cx_db cx = db" "event_legal legal cx h ev" "conn_event cx tk c h ev = Some (flow, c', h', out)"
    and "ok h" "conn_fits (cx_limits cx) h c"
  shows "ok h' \<and> h_next_id h \<le> h_next_id h' \<and> conn_fits (cx_limits cx) h' c'"
  using calls_keep [OF conn_event_calls [OF assms(2,3), unfolded assms(1)]] assms(4,5)
    conn_event_quota [OF _ assms(3)] by (simp add: conn_fits_def)

lemma close_keeps:
  assumes "conn_close tk c h = Some h'" "ok h" "conn_fits lim h c"
  shows "ok h' \<and> h_next_id h \<le> h_next_id h'"
  using calls_keep [OF conn_close_calls [OF assms(1), of db legal "{}"]] assms(2,3) by (simp add: conn_fits_def)

lemma hub_turn_keeps:
  assumes "hub_step db h h'" "ok h'" "ok (rl_hub b)" "h_next_id h = h_next_id (rl_hub b)" "hub_ok h"
    and "conns_fit lim n b"
  shows "ok h' \<and> conns_fit lim n (b\<lparr>rl_hub := h'\<rparr>)"
  using conns_fit_hub [OF assms(6)] hub_step_next [OF assms(1,5)] assms(2,4) by simp

lemma relay_step_keeps:
  assumes "relay_step cx legal b b'" "cx_db cx = db" "ok (rl_hub b)" "conns_fit (cx_limits cx) n b"
  shows "ok (rl_hub b') \<and> conns_fit (cx_limits cx) n b'"
  using assms
proof (induction rule: relay_step.induct)
  case (turn_accept task b listener res)
  from server_step_inv [OF step_accept [OF turn_accept(1)]] turn_accept show ?case
    by (fastforce simp: conns_fit_def accept_def split: sum.splits)
next
  case (turn_fail b task)
  then have "hm_remove task (rl_conns b) = rl_conns b" by (simp add: delete_id map_of_eq_None_iff)
  with conns_fit_end [OF turn_fail(4), of task] turn_fail show ?case by simp
next
  case (turn_event b task peer c ev tk flow c' h' out)
  from event_keeps [OF _ turn_event(4,5)] turn_event conns_fit_loop [OF turn_event(8,2)]
  have "ok h' \<and> h_next_id (rl_hub b) \<le> h_next_id h' \<and> conn_fits (cx_limits cx) h' c'" by simp
  with turn_event conns_fit_put [OF turn_event(8)] show ?case by simp
next
  case (turn_close b task c tk h')
  then have "conn_fits (cx_limits cx) (rl_hub b) c" by (simp add: conns_fit_def)
  with close_keeps turn_close have h': "ok h'" "h_next_id (rl_hub b) \<le> h_next_id h'" by blast+
  from conns_fit_hub [OF conns_fit_end [OF turn_close(5), of task], of h'] h' show ?case by simp
next
  case (turn_purge cid gen delay b now ts h')
  let ?h = "(rl_hub b)\<lparr>h_timers := remove1 (cid, gen, delay) (h_timers (rl_hub b))\<rparr>"
  have "ok ?h" using keeps_timers turn_purge by simp
  with turn_purge hub_turn_keeps [OF step_purge [OF turn_purge(2)]] keeps_purge ok_hub show ?case by simp
next
  case (turn_retries b now ts h')
  with hub_turn_keeps [OF step_retries [OF turn_retries(1)]] keeps_retries ok_hub show ?case by simp
next
  case (turn_worker b h')
  with hub_turn_keeps [OF step_worker] keeps_worker ok_hub show ?case by simp
qed

lemma relay_run_keeps:
  assumes "(relay_step cx legal)\<^sup>*\<^sup>* b b'" "cx_db cx = db" "ok (rl_hub b)" "conns_fit (cx_limits cx) n b"
  shows "ok (rl_hub b') \<and> conns_fit (cx_limits cx) n b'"
  using assms by (induction rule: rtranclp_induct) (auto dest: relay_step_keeps)

end

text \<open>The hub keeps its invariant, with or without a database.\<close>

definition counters_left :: "('s, 'u, 'e) Hub \<Rightarrow> string \<Rightarrow> bool \<Rightarrow> u32 \<Rightarrow> bool" where
  "counters_left h c clean expiry \<longleftrightarrow> h_next_id h + 1 \<noteq> 0 \<and> generation (h_sessions h) + 1 \<noteq> 0"

lemma hub_ok_flush_wait: "hub_ok h \<Longrightarrow> flush_wait db h = Some h' \<Longrightarrow> hub_ok h'"
  by (auto simp: flush_wait_def Let_def hub_flush_def hub_ok_def split: option.splits)

interpretation plain: hub_service db counters_left hub_ok for db
proof
  fix h h' :: "('a, 'b, 'c) Hub" and c clean expiry tx now cn
  assume "hub_ok h" "counters_left h c clean expiry" "connect h c clean expiry tx now = Some (cn, h')"
  then show "hub_ok h'" using hub_step_ok [OF step_connect] by (auto simp: counters_left_def)
qed ((simp add: counters_left_def hub_ok_subscribe hub_ok_subscribe_shared hub_ok_unsubscribe hub_ok_replay
    hub_ok_acks hub_ok_qos2 hub_ok_detach; fail) | (simp add: hub_ok_def; fail) |
    (blast intro: hub_ok_flush_wait hub_ok_worker hub_step_ok [OF step_publish] hub_step_ok [OF step_retained]
      hub_step_ok [OF step_purge] hub_step_ok [OF step_retries]))+

section \<open>No turn is refused\<close>

lemma storage_ops_events:
  assumes laws: "redb_laws db r" "redb_total db r" and "\<And>blob n. op \<noteq> AppendEvent blob n"
  shows "\<exists>st'. apply_persist_op db st op = Some st' \<and> st_events st' = st_events st"
  using assms(3) redb_parts(7) [OF laws]
  by (cases op)
    (auto simp: or_keep_def put_session_def remove_session_def put_subscription_def remove_subscription_def
      put_inflight_def put_retained_def append_dead_letter_def bind_eq_Some_conv Let_def split: option.splits)

lemma apply_persist_op_room:
  assumes laws: "redb_laws db r" "redb_total db r" and "Suc (length (seq_rows r (st_events st))) < 2 ^ 64"
  shows "\<exists>st'. apply_persist_op db st op = Some st' \<and>
    length (seq_rows r (st_events st')) \<le> Suc (length (seq_rows r (st_events st)))"
proof (cases "\<exists>blob n. op = AppendEvent blob n")
  case True
  with append_event_total [OF assms] show ?thesis by (fastforce simp: or_keep_def)
next
  case False
  with storage_ops_events [OF laws, of op st] show ?thesis by auto
qed

lemma run_persist_worker_room:
  assumes laws: "redb_laws db r" "redb_total db r"
  shows "length (seq_rows r (st_events st)) + length ops < 2 ^ 64 \<Longrightarrow> \<exists>st'. run_persist_worker db st ops = Some st'"
proof (induction ops arbitrary: st)
  case (Cons op ops)
  from apply_persist_op_room [OF laws, of st op] Cons.prems obtain st1 where
    "apply_persist_op db st op = Some st1" "length (seq_rows r (st_events st1)) \<le> Suc (length (seq_rows r (st_events st)))"
    by auto
  with Cons.IH [of st1] Cons.prems show ?case by simp
qed simp

text \<open>The event log can number what is queued.\<close>

definition log_room :: "('s, 'u, 'e) Rows \<Rightarrow> ('s, 'u, 'e) Hub \<Rightarrow> bool" where
  "log_room r h \<longleftrightarrow> (case (h_storage h, h_persist h) of
     (Some st, Some ops) \<Rightarrow> length (seq_rows r (st_events st)) + length ops + 1 < 2 ^ 64
   | _ \<Rightarrow> True)"

lemma flush_wait_total:
  assumes "redb_laws db r" "redb_total db r" "log_room r h" shows "\<exists>h'. flush_wait db h = Some h'"
  using assms(3) run_persist_worker_room [OF assms(1,2)]
  by (auto simp: flush_wait_def hub_flush_def Let_def log_room_def split: option.split)

lemma worker_step_total:
  assumes "redb_laws db r" "redb_total db r" "log_room r h" shows "worker_step db h \<noteq> None"
proof (cases "\<exists>st op ops. h_storage h = Some st \<and> h_persist h = Some (op # ops)")
  case True
  then obtain st op ops where h: "h_storage h = Some st" "h_persist h = Some (op # ops)" by blast
  with assms(3) have "Suc (length (seq_rows r (st_events st))) < 2 ^ 64" by (simp add: log_room_def)
  from apply_persist_op_room [OF assms(1,2) this, of op] h show ?thesis by (auto simp: worker_step_def)
qed (auto simp: worker_step_def split: option.split list.split)

lemma outcomes_total:
  "respond tk c h p \<noteq> None" "respond_and_break tk c h p \<noteq> None" "proceed c h \<noteq> None" "break_off c h \<noteq> None"
  by (simp_all add: respond_def respond_and_break_def proceed_def break_off_def)

lemma retained_jobs_total: "hub_ok h \<Longrightarrow> \<exists>h'. retained_jobs h cid jobs now = Some h'"
proof (induction jobs arbitrary: h)
  case (Cons j jobs)
  obtain tf granted where j: "j = (tf, granted)" by fastforce
  obtain h1 where "deliver_retained h cid tf granted now = Some h1" "hub_ok h1"
    using deliver_retained_ok [OF Cons.prems] by blast
  with Cons.IH [of h1] j show ?case by simp
qed simp

lemma on_connect_total:
  assumes "hub_ok h" "h_next_id h + 1 \<noteq> 0" "generation (h_sessions h) + 1 \<noteq> 0"
  shows "on_connect cx tk c h pkt \<noteq> None"
proof -
  obtain client clean where id: "connect_identity cx pkt = (client, clean)" by fastforce
  obtain cn h' where "connect h client clean (c_session_expiry_interval_secs pkt) (tk_tx tk) (tk_now tk) = Some (cn, h')"
    using connect_ok [OF assms] by blast
  with id show ?thesis
    by (simp add: on_connect_def Let_def outcomes_total del: not_None_eq split: sum.split)
qed

lemma on_subscribe_total:
  assumes "hub_ok h" "conn_fits lim h c" shows "on_subscribe cx tk c h packet_id filters \<noteq> None"
proof (cases "cs_session_id c")
  case (Some cid)
  obtain status jobs active h1 where sub:
    "subscribe_filters (cx_limits cx) (cs_access c) cid (cs_active_filters c) h filters = (status, jobs, active, h1)"
    by (metis prod_cases4)
  have "conn_calls (cx_db cx) counters_left {} (grant_of c, h) (grant_of c, h1)"
    using subscribe_filters_calls [of "grant_of c"] Some sub by force
  from plain.calls_keep [OF this] assms have "hub_ok h1" by (simp add: conn_fits_def)
  then obtain h2 where "retained_jobs h1 cid jobs (tk_now tk) = Some h2" using retained_jobs_total by blast
  with Some sub have "on_subscribe cx tk c h packet_id filters =
      (if \<not> tk_sink_ok tk then break_off (c\<lparr>cs_active_filters := active\<rparr>) h1
       else Some (Continue, c\<lparr>cs_active_filters := active\<rparr>, h2, [PktSubscribeAck packet_id status]))"
    by (simp add: on_subscribe_def)
  then show ?thesis by (simp add: outcomes_total del: not_None_eq)
qed (simp add: on_subscribe_def outcomes_total del: not_None_eq)

lemma publish_not_None: "hub_ok h \<Longrightarrow> publish h topic body qos retain now ts \<noteq> None"
  using publish_total [of h topic body qos retain now ts] by auto

lemma on_publish_total:
  assumes ok: "hub_ok h" and flush: "\<exists>h'. flush_wait (cx_db cx) h = Some h'"
  shows "on_publish cx tk c h p \<noteq> None"
proof -
  have ack: "replay_ack tk c h p \<noteq> None" "on_publish_denied tk c h p \<noteq> None" for h :: "('a, 'b, 'c) Hub"
    by (simp_all add: replay_ack_def on_publish_denied_def outcomes_total del: not_None_eq split: QoS.split option.split)
  have replay: "on_replay_request cx tk c h cid p rest \<noteq> None" for cid rest
    using flush ack(1) by (auto simp: on_replay_request_def split: option.split)
  have "on_publish_routed tk c h cid p \<noteq> None" for cid
    using publish_not_None [OF ok] publish_not_None [OF hub_ok_qos2(1) [OF ok]]
    by (simp add: on_publish_routed_def Let_def case_prod_beta bind_eq_None_conv outcomes_total
        del: not_None_eq split: QoS.split option.split)
  with replay ack(2) show ?thesis
    by (simp add: on_publish_def outcomes_total del: not_None_eq split: option.split)
qed

lemma conn_event_total:
  assumes "hub_ok h" "conn_fits lim h c" "event_legal counters_left cx h ev"
    and "\<exists>h'. flush_wait (cx_db cx) h = Some h'"
  shows "conn_event cx tk c h ev \<noteq> None"
proof -
  have flush: "flush_wait (cx_db cx) h \<noteq> None" using assms(4) by auto
  have "handle_packet cx tk c h packet \<noteq> None" if "ev = Incoming (InPacket packet)" for packet
  proof (cases packet)
    case (PktConnect pkt)
    with that assms(3) have "h_next_id h + 1 \<noteq> 0" "generation (h_sessions h) + 1 \<noteq> 0"
      by (simp_all add: event_legal_def counters_left_def case_prod_beta)
    with PktConnect on_connect_total [OF assms(1)] show ?thesis by (simp add: handle_packet_def)
  next
    case (PktUnsubscribe packet_id filters)
    then show ?thesis
      by (cases "cs_session_id c")
        (simp_all add: handle_packet_def on_unsubscribe_def case_prod_beta outcomes_total del: not_None_eq)
  qed (simp_all add: handle_packet_def on_publish_release_def on_ping_request_def on_disconnect_def
      bind_eq_None_conv flush outcomes_total on_subscribe_total [OF assms(1,2)] on_publish_total [OF assms(1,4)]
      del: not_None_eq)
  then show ?thesis
    by (simp add: conn_event_def on_outgoing_def outcomes_total
        del: not_None_eq split: ConnEvent.split Inbound.split option.split)
qed

lemma conn_close_total: "hub_ok h \<Longrightarrow> conn_close tk c h \<noteq> None"
  by (simp add: conn_close_def bind_eq_None_conv publish_not_None del: not_None_eq split: option.split)

section \<open>The broker keeps serving\<close>

lemma conns_fit_length:
  assumes "conns_fit lim n b" shows "length (rl_conns b) \<le> n"
proof -
  have "fst ` set (rl_conns b) \<subseteq> fst ` set (sv_tasks (rl_server b))"
    using assms by (force simp: conns_fit_def)
  then have "card (fst ` set (rl_conns b)) \<le> card (fst ` set (sv_tasks (rl_server b)))"
    by (intro card_mono) simp_all
  moreover have "length (rl_conns b) = card (fst ` set (rl_conns b))"
    "length (sv_tasks (rl_server b)) = card (fst ` set (sv_tasks (rl_server b)))"
    using assms distinct_card [of "map fst (rl_conns b)"] distinct_card [of "map fst (sv_tasks (rl_server b))"]
    by (simp_all add: conns_fit_def)
  ultimately show ?thesis using assms by (simp add: conns_fit_def)
qed


text \<open>One connection is accepted and sends a CONNECT.\<close>

definition relay0 :: "((string \<times> bytes) list, (string \<times> u32) list, (u64 \<times> bytes) list) Relay" where
  "relay0 = \<lparr>rl_server = \<lparr>sv_permits = 0, sv_tasks = [(0, ''a'')]\<rparr>, rl_conns = [], rl_hub = hub0\<rparr>"

lemma relay0_reached:
  "relay_step cx counters_left \<lparr>rl_server = \<lparr>sv_permits = 1, sv_tasks = []\<rparr>, rl_conns = [], rl_hub = hub0\<rparr> relay0"
    (is "relay_step cx counters_left ?b relay0")
proof -
  have "?b\<lparr>rl_server := snd (accept (rl_server ?b) Tcp 0 (Inr ''a''))\<rparr> = relay0"
    by (simp add: relay0_def accept_def peer_name_def)
  then show ?thesis using turn_accept [of 0 ?b cx counters_left Tcp "Inr ''a''"] by simp
qed

lemma event0:
  "map_option (\<lambda>(flow, c, h, out). (flow, h_storage h = None \<and> counters_left h [] True 0, out))
     (conn_event (cx0\<lparr>cx_peer := ''a''\<rparr>) tick0 conn_init hub0 (Incoming (InPacket connect0))) =
   Some (Continue, True, [PktConnectAck False ConnSuccess])"
  by code_simp


end
