(* ===== verification/Broker_Restart.thy ===== *)
theory Broker_Restart
  imports Broker
begin

text \<open>
  The broker across restarts: a run that starts from a new database keeps the disk in step with the
  memory, so that the hub which starts from what a run has flushed resumes where that run was.
\<close>

section \<open>The disk is in step\<close>

definition mirrored :: "('s, 'u, 'e) Rows \<Rightarrow> ('s, 'u, 'e) Hub \<Rightarrow> bool" where
  "mirrored r h \<longleftrightarrow> (\<exists>st ops. h_storage h = Some st \<and> h_persist h = Some ops \<and> list_all op_ok ops \<and>
     mirrors (foldl durable_apply (durable r st) ops) h)"

definition on_disk :: "('s, 'u, 'e) Redb \<Rightarrow> ('s, 'u, 'e) Rows \<Rightarrow> ('s, 'u, 'e) Hub \<Rightarrow> bool" where
  "on_disk db r h \<longleftrightarrow> redb_laws db r \<and> redb_total db r \<and> mirrored r h"

lemma on_disk_tracks: "tracks h h' \<Longrightarrow> on_disk db r h \<Longrightarrow> on_disk db r h'"
  unfolding on_disk_def mirrored_def tracks_def by fastforce

lemma mirrors_store:
  "h_storage h \<noteq> None \<Longrightarrow> h_persist h \<noteq> None \<Longrightarrow>
     mirrors d (h\<lparr>h_storage := Some st, h_persist := Some ops\<rparr>) = mirrors d h"
  by (auto simp: mirrors_def hub_ok_def names_ok_def stored_view_def [abs_def] session_of_def [abs_def])

lemma on_disk_worker:
  assumes "worker_step db h = Some h'" "on_disk db r h" shows "on_disk db r h'"
proof -
  from assms(2) obtain st ops where h: "h_storage h = Some st" "h_persist h = Some ops" "list_all op_ok ops"
    "mirrors (foldl durable_apply (durable r st) ops) h" and laws: "redb_laws db r" "redb_total db r"
    unfolding on_disk_def mirrored_def by blast
  show ?thesis
  proof (cases ops)
    case Nil
    with h(1,2) assms show ?thesis by (simp add: worker_step_def)
  next
    case (Cons op rest)
    with assms(1) h(1,2) obtain st' where st': "apply_persist_op db st op = Some st'"
      "h' = h\<lparr>h_storage := Some st', h_persist := Some rest\<rparr>"
      by (auto simp: worker_step_def)
    from apply_persist_op_durable [OF laws _ st'(1)] h Cons show ?thesis
      unfolding on_disk_def mirrored_def by (simp add: laws st'(2) mirrors_store)
  qed
qed

lemma on_disk_flush_wait:
  assumes "flush_wait db h = Some h'" "on_disk db r h" shows "on_disk db r h' \<and> h_persist h' = Some []"
proof -
  from assms(2) obtain st ops where h: "h_storage h = Some st" "h_persist h = Some ops" "list_all op_ok ops"
    "mirrors (foldl durable_apply (durable r st) ops) h" and laws: "redb_laws db r" "redb_total db r"
    unfolding on_disk_def mirrored_def by blast
  from assms(1) h(1,2) obtain st' where st': "run_persist_worker db st (ops @ [Flush]) = Some st'"
    "h' = h\<lparr>h_storage := Some st', h_persist := Some []\<rparr>"
    by (auto simp: flush_wait_def hub_flush_def Let_def)
  from run_persist_worker_durable [OF laws _ st'(1)] h show ?thesis
    unfolding on_disk_def mirrored_def by (simp add: laws st'(2) mirrors_store)
qed

interpretation disk: hub_service db connect_legal "on_disk db r" for db r
proof
  show "on_disk db r h \<Longrightarrow> hub_ok h" for h by (auto simp: on_disk_def mirrored_def mirrors_def)
  show "on_disk db r h \<Longrightarrow> on_disk db r (on_puback h cid pid) \<and> on_disk db r (on_pubrec h cid pid) \<and>
      on_disk db r (on_pubcomp h cid pid)" for h cid pid
    using tracks_puback tracks_pubrec tracks_pubcomp on_disk_tracks by blast
  show "on_disk db r h \<Longrightarrow> on_disk db r (snd (inbound_qos2_seen h cid pid)) \<and>
      on_disk db r (inbound_qos2_release h cid pid)" for h cid pid
    using tracks_qos2 on_disk_tracks by blast
qed ((simp add: connect_legal_def; fail) |
    (blast intro: on_disk_tracks on_disk_worker on_disk_flush_wait [THEN conjunct1] tracks_connect tracks_publish
      tracks_subscribe tracks_subscribe_shared tracks_unsubscribe tracks_deliver_retained tracks_replay tracks_detach
      tracks_timers tracks_purge tracks_run_retries))+

section \<open>Restarting from the disk\<close>

text \<open>The queue of each durable session can be read back: topics are UTF-8 and fit their length fields.\<close>

definition queues_fit :: "('s, 'u, 'e) Hub \<Rightarrow> bool" where
  "queues_fit h \<longleftrightarrow> (\<forall>(cid, s) \<in> set (by_id (h_sessions h)). 0 < s_expiry_secs s \<longrightarrow>
     list_all (\<lambda>e. state_fits (e_state e)) (s_inflight s))"

text \<open>
  The hub \<open>h'\<close>, started at \<open>now\<close>, resumes where \<open>h\<close> was: it has the same retained messages and the
  durable sessions and no others; each is offline and continues with its expiry, its packet-id counter,
  its queue with the attempts counted so far, and its subscriptions.
\<close>

definition resumes :: "Instant \<Rightarrow> RetryConfig \<Rightarrow> ('s, 'u, 'e) Hub \<Rightarrow> ('s, 'u, 'e) Hub \<Rightarrow> bool" where
  "resumes now retry h h' \<longleftrightarrow>
     retained_look (h_retained h') = retained_look (h_retained h) \<and>
     (\<forall>c. session_of h' c \<noteq> None \<longleftrightarrow> (\<exists>cid s. session_of h c = Some (cid, s) \<and> 0 < s_expiry_secs s)) \<and>
     (\<forall>c cid s. session_of h c = Some (cid, s) \<and> 0 < s_expiry_secs s \<longrightarrow>
        (\<exists>cid' s'. session_of h' c = Some (cid', s') \<and> s_tx s' = None \<and> s_expiry_secs s' = s_expiry_secs s \<and>
           s_next_id s' = s_next_id s \<and> s_inflight s' = map (rearm now retry) (s_inflight s) \<and>
           (\<forall>grp f. subs_at (h_router h') (grp, cid', f) = subs_at (h_router h) (grp, cid, f))))"

lemma resumes_session:
  assumes "resumes now retry h h'" "session_of h c = Some (cid, s)" "0 < s_expiry_secs s"
  obtains cid' s' where "session_of h' c = Some (cid', s')" "s_tx s' = None" "s_expiry_secs s' = s_expiry_secs s"
    "s_next_id s' = s_next_id s" "s_inflight s' = map (rearm now retry) (s_inflight s)"
    "\<And>grp f. subs_at (h_router h') (grp, cid', f) = subs_at (h_router h) (grp, cid, f)"
  using assms unfolding resumes_def by blast

lemma mirrors_stored:
  assumes "mirrors d h"
  shows "du_sessions d c = Some e \<longleftrightarrow> (\<exists>cid s. session_of h c = Some (cid, s) \<and> s_expiry_secs s = e \<and> 0 < e)"
    and "session_of h c = Some (cid, s) \<Longrightarrow> 0 < s_expiry_secs s \<Longrightarrow>
      du_blob d c = encode_inflight s \<and> du_subs d c = subs_text (h_router h) cid"
    and "du_inflight d c = Some b \<Longrightarrow>
      \<exists>cid s. session_of h c = Some (cid, s) \<and> 0 < s_expiry_secs s \<and> b = encode_inflight s"
  using mirrors_client [OF assms, of c]
  by (auto simp: client_stored_def stored_view_def du_blob_def split: option.splits if_splits)

lemma queues_fit_entries:
  assumes "queues_fit h" "hub_ok h" "session_of h c = Some (cid, s)" "0 < s_expiry_secs s"
  shows "\<forall>e \<in> set (s_inflight s). entry_ok e" and "s_next_id s \<noteq> 0"
proof -
  have get: "hm_get (by_id (h_sessions h)) cid = Some s" using assms(3) by (simp add: session_of_iff [OF assms(2)])
  then have "session_ok s" using hub_ok_session [OF assms(2)] by blast
  moreover have "list_all (\<lambda>e. state_fits (e_state e)) (s_inflight s)"
    using assms(1,4) map_of_SomeD [OF get] unfolding queues_fit_def by blast
  ultimately show "\<forall>e \<in> set (s_inflight s). entry_ok e" "s_next_id s \<noteq> 0"
    by (auto simp: session_ok_def entry_ok_def list_all_iff)
qed

lemma restored_queue_eq:
  assumes d: "mirrors d h" and fit: "queues_fit h" and s: "session_of h c = Some (cid, s)" "0 < s_expiry_secs s"
  shows "(case Option.bind (du_inflight d c) (\<lambda>b. decode_inflight b now retry) of Some q \<Rightarrow> q | None \<Rightarrow> (1, [])) =
    (s_next_id s, map (rearm now retry) (s_inflight s))"
proof -
  have ok: "hub_ok h" using d by (simp add: mirrors_def)
  have dec: "decode_inflight (encode_inflight s) now retry = Some (s_next_id s, map (rearm now retry) (s_inflight s))"
    unfolding encode_inflight_def by (rule decode_encode_queue [OF queues_fit_entries(1) [OF fit ok s]])
  have blob: "du_blob d c = encode_inflight s" using mirrors_stored(2) [OF d s] by simp
  show ?thesis
  proof (cases "du_inflight d c")
    case None
    with blob dec have "decode_inflight (encode_queue 1 []) now retry = Some (s_next_id s, map (rearm now retry) (s_inflight s))"
      by (simp add: du_blob_def)
    moreover have "decode_inflight (encode_queue 1 []) now retry = Some (1, map (rearm now retry) [])"
      by (rule decode_encode_queue) simp
    ultimately show ?thesis using None by simp
  next
    case (Some b)
    with blob dec show ?thesis by (simp add: du_blob_def)
  qed
qed

lemma stored_counters_ok:
  assumes "mirrors d h" "queues_fit h" shows "counters_ok (du_inflight d) now retry"
  unfolding counters_ok_def
proof (intro allI impI)
  fix c b n q
  assume "du_inflight d c = Some b" and dec: "decode_inflight b now retry = Some (n, q)"
  then obtain cid s where s: "session_of h c = Some (cid, s)" "0 < s_expiry_secs s" "b = encode_inflight s"
    using mirrors_stored(3) [OF assms(1)] by blast
  have ok: "hub_ok h" using assms(1) by (simp add: mirrors_def)
  have "n = s_next_id s"
    using dec decode_encode_queue [OF queues_fit_entries(1) [OF assms(2) ok s(1,2)]] s(3) by (simp add: encode_inflight_def)
  then show "n \<noteq> 0" using queues_fit_entries(2) [OF assms(2) ok s(1,2)] by simp
qed

lemma restored_subs_eq:
  assumes "slots_ok r n" "\<And>grp f q. subs_at r' (grp, cid', f) = Some q \<longleftrightarrow>
      (\<exists>raw. slot_of raw = Some (grp, f) \<and> subs_text r cid raw = Some q)"
  shows "subs_at r' (grp, cid', f) = subs_at r (grp, cid, f)"
proof -
  have texts: "subs_text r cid raw = subs_at r (grp, cid, f)" if "slot_of raw = Some (grp, f)" for raw
    using that by (simp add: subs_text_def)
  have raw: "\<exists>raw. slot_of raw = Some (grp, f)" if "subs_at r (grp, cid, f) = Some q" for q
    using assms(1) that unfolding slots_ok_def by blast
  have "subs_at r' (grp, cid', f) = Some q \<longleftrightarrow> subs_at r (grp, cid, f) = Some q" for q
    unfolding assms(2) using texts raw by metis
  then show ?thesis by (metis option.exhaust)
qed

lemma hub_new_resumes:
  assumes laws: "redb_laws db r" "redb_total db r" and d: "mirrors (durable r st) h" and fit: "queues_fit h"
    and room: "length (u32_rows r (st_sessions st)) + 1 < 2 ^ 64" and h': "h' = hub_new db (Some st) retry mx now"
  shows "resumes now retry h h'"
proof -
  from hub_new_restores [OF laws stored_counters_ok [OF d fit] room h']
  have ok: "hub_ok h'" and ret: "retained_look (h_retained h') = du_retained (durable r st)"
    and dom: "\<And>c. hm_get (id_of (h_sessions h')) c \<noteq> None \<longleftrightarrow> du_sessions (durable r st) c \<noteq> None"
    and stored: "\<And>c e. du_sessions (durable r st) c = Some e \<Longrightarrow>
      \<exists>cid s. session_back (durable r st) now retry h' c e cid s"
    by blast+
  have "session_of h' c \<noteq> None \<longleftrightarrow> (\<exists>cid s. session_of h c = Some (cid, s) \<and> 0 < s_expiry_secs s)" for c
  proof -
    have "du_sessions (durable r st) c \<noteq> None \<longleftrightarrow> (\<exists>e. du_sessions (durable r st) c = Some e)" by simp
    also have "\<dots> \<longleftrightarrow> (\<exists>cid s. session_of h c = Some (cid, s) \<and> 0 < s_expiry_secs s)"
      unfolding mirrors_stored(1) [OF d] by blast
    finally show ?thesis using dom [of c] session_of_known [OF ok, of c] by simp
  qed
  moreover have "\<exists>cid' s'. session_of h' c = Some (cid', s') \<and> s_tx s' = None \<and> s_expiry_secs s' = s_expiry_secs s \<and>
      s_next_id s' = s_next_id s \<and> s_inflight s' = map (rearm now retry) (s_inflight s) \<and>
      (\<forall>grp f. subs_at (h_router h') (grp, cid', f) = subs_at (h_router h) (grp, cid, f))"
    if s: "session_of h c = Some (cid, s)" "0 < s_expiry_secs s" for c cid s
  proof -
    from s mirrors_stored(1) [OF d, of c] have "du_sessions (durable r st) c = Some (s_expiry_secs s)" by auto
    from stored [OF this] obtain cid' s' where b: "session_back (durable r st) now retry h' c (s_expiry_secs s) cid' s'"
      by blast
    have "slots_ok (h_router h) (h_next_id h)" using d by (simp add: mirrors_def)
    from restored_subs_eq [OF this, of "h_router h'" cid' cid] b mirrors_stored(2) [OF d s]
    have "subs_at (h_router h') (grp, cid', f) = subs_at (h_router h) (grp, cid, f)" for grp f
      by (simp add: session_back_def)
    with b restored_queue_eq [OF d fit s, of now retry] show ?thesis
      by (auto simp: session_back_def session_of_def)
  qed
  moreover have "retained_look (h_retained h') = retained_look (h_retained h)" using ret d by (simp add: mirrors_def)
  ultimately show ?thesis unfolding resumes_def by blast
qed

text \<open>So the disk is in step with the new hub as well.\<close>

lemma hub_new_mirrors:
  fixes h h' :: "('s, 'u, 'e) Hub"
  assumes laws: "redb_laws db r" "redb_total db r" and d: "mirrors (durable r st) h" and fit: "queues_fit h"
    and room: "length (u32_rows r (st_sessions st)) + 1 < 2 ^ 64" and h': "h' = hub_new db (Some st) retry mx now"
  shows "mirrors (durable r st) h'"
proof -
  have res: "resumes now retry h h'" by (rule hub_new_resumes [OF assms])
  from hub_new_restores [OF laws stored_counters_ok [OF d fit] room h'] have ok: "hub_ok h'"
    and slots: "slots_ok (h_router h') (h_next_id h')" and ret: "retained_look (h_retained h') = du_retained (durable r st)"
    by blast+
  have old: "\<exists>cid s. session_of h c = Some (cid, s) \<and> 0 < s_expiry_secs s" if "session_of h' c \<noteq> None" for c
    using res that unfolding resumes_def by blast
  have "client_stored (durable r st) (h_router h') (stored_view h' c) c" for c
  proof (cases "session_of h' c")
    case None
    with res have "\<not> (\<exists>cid s. session_of h c = Some (cid, s) \<and> 0 < s_expiry_secs s)" unfolding resumes_def by metis
    then have "stored_view h c = None" by (auto simp: stored_view_def split: option.split)
    with mirrors_client [OF d, of c] None show ?thesis by (simp add: stored_view_def [of h'] client_stored_def)
  next
    case (Some p)
    then obtain cid s where s: "session_of h c = Some (cid, s)" "0 < s_expiry_secs s" using old [of c] by auto
    obtain cid' s' where s': "session_of h' c = Some (cid', s')" "s_expiry_secs s' = s_expiry_secs s"
      "s_next_id s' = s_next_id s" "s_inflight s' = map (rearm now retry) (s_inflight s)"
      "\<And>grp f. subs_at (h_router h') (grp, cid', f) = subs_at (h_router h) (grp, cid, f)"
      using resumes_session [OF res s] by metis
    have "subs_text (h_router h') cid' = subs_text (h_router h) cid" by (intro ext) (simp only: subs_text_def s'(5))
    with mirrors_client [OF d, of c] s s'(1,2) encode_inflight_rearm [OF s'(3,4)] show ?thesis
      by (simp add: client_stored_def stored_view_def)
  qed
  moreover have "names_ok h'"
  proof -
    have "SEP \<notin> set c" if "session_of h c = Some (cid, s)" for c cid s
      using d that by (auto simp: mirrors_def names_ok_iff)
    with old show ?thesis unfolding names_ok_iff [OF ok] by blast
  qed
  ultimately show ?thesis
    using ok slots ret h' by (simp add: mirrors_def hub_new_def Let_def)
qed

section \<open>Runs and restarts\<close>

definition durable_empty :: Durable where
  "durable_empty = \<lparr>du_retained = Map.empty, du_sessions = Map.empty, du_subs = (\<lambda>_. Map.empty),
     du_inflight = Map.empty\<rparr>"

text \<open>
  The states of the broker over any number of runs: the first starts from an empty database, each
  further one from what the previous one had on disk after a flush.
\<close>

inductive broker_life ::
    "Config \<Rightarrow> ('s, 'u, 'e) Context \<Rightarrow> ('s, 'u, 'e) Rows \<Rightarrow> ('s, 'u, 'e) Relay \<Rightarrow> bool" for config cx r where
  life_first: "durable r st = durable_empty \<Longrightarrow> length (u32_rows r (st_sessions st)) + 1 < 2 ^ 64 \<Longrightarrow>
     relay_start config (hub_new (cx_db cx) (Some st) retry mx now) = Some b \<Longrightarrow> broker_life config cx r b"
| life_turn: "broker_life config cx r b \<Longrightarrow> relay_step cx connect_legal b b' \<Longrightarrow> broker_life config cx r b'"
| life_restart: "broker_life config cx r b \<Longrightarrow> queues_fit (rl_hub b) \<Longrightarrow>
     flush_wait (cx_db cx) (rl_hub b) = Some h \<Longrightarrow> h_storage h = Some st \<Longrightarrow>
     length (u32_rows r (st_sessions st)) + 1 < 2 ^ 64 \<Longrightarrow>
     relay_start config (hub_new (cx_db cx) (Some st) retry mx now) = Some b' \<Longrightarrow> broker_life config cx r b'"

lemma mirrors_first:
  assumes laws: "redb_laws db r" "redb_total db r" and empty: "durable r st = durable_empty"
    and room: "length (u32_rows r (st_sessions st)) + 1 < 2 ^ 64" and h: "h = hub_new db (Some st) retry mx now"
  shows "mirrors (durable r st) h"
proof -
  have counters: "counters_ok (du_inflight (durable r st)) now retry"
    by (simp add: counters_ok_def empty durable_empty_def)
  from hub_new_restores [OF laws counters room h] have ok: "hub_ok h" "slots_ok (h_router h) (h_next_id h)"
      "retained_look (h_retained h) = du_retained (durable r st)"
    and "\<And>c. hm_get (id_of (h_sessions h)) c \<noteq> None \<longleftrightarrow> du_sessions (durable r st) c \<noteq> None"
    by blast+
  then have "hm_get (id_of (h_sessions h)) c = None" for c by (simp add: empty durable_empty_def)
  with ok show ?thesis
    by (simp add: mirrors_def names_ok_def stored_view_def session_of_def client_stored_def empty durable_empty_def
        h hub_new_def Let_def)
qed

lemma mirrors_on_disk:
  "redb_laws db r \<Longrightarrow> redb_total db r \<Longrightarrow> mirrors (durable r st) (hub_new db (Some st) retry mx now) \<Longrightarrow>
     on_disk db r (hub_new db (Some st) retry mx now)"
  unfolding on_disk_def mirrored_def by (intro conjI exI [of _ st] exI [of _ "[]"]) (simp_all add: hub_new_def Let_def)

lemma flushed_mirrors:
  assumes "on_disk db r h" "flush_wait db h = Some h'" "h_storage h' = Some st" shows "mirrors (durable r st) h"
proof -
  from on_disk_flush_wait [OF assms(2,1)] assms(3) have "mirrors (durable r st) h'"
    by (auto simp: on_disk_def mirrored_def)
  moreover have "h_storage h \<noteq> None" "h_persist h \<noteq> None" using assms(1) by (auto simp: on_disk_def mirrored_def)
  moreover from this assms(2) obtain st' where "h' = h\<lparr>h_storage := Some st', h_persist := Some []\<rparr>"
    by (auto simp: flush_wait_def hub_flush_def Let_def)
  ultimately show ?thesis by (simp add: mirrors_store)
qed

lemma broker_life_on_disk:
  assumes "broker_life config cx r b" "redb_laws (cx_db cx) r" "redb_total (cx_db cx) r"
  shows "on_disk (cx_db cx) r (rl_hub b) \<and> conns_fit (cx_limits cx) (unat (max_connections config)) b"
  using assms(1)
proof (induction rule: broker_life.induct)
  case (life_first st retry mx now b)
  then have "rl_hub b = hub_new (cx_db cx) (Some st) retry mx now" by (auto simp: relay_start_def)
  with mirrors_on_disk [OF assms(2,3) mirrors_first [OF assms(2,3) life_first(1,2) refl]] conns_fit_start [OF life_first(3)]
  show ?case by simp
next
  case (life_turn b b')
  then show ?case using disk.relay_step_keeps [OF life_turn(2) refl] by blast
next
  case (life_restart b h st retry mx now b')
  then have "rl_hub b' = hub_new (cx_db cx) (Some st) retry mx now" by (auto simp: relay_start_def)
  moreover have "mirrors (durable r st) (rl_hub b)" using flushed_mirrors life_restart by blast
  from mirrors_on_disk [OF assms(2,3) hub_new_mirrors [OF assms(2,3) this life_restart(2,5) refl]]
  have "on_disk (cx_db cx) r (hub_new (cx_db cx) (Some st) retry mx now)" .
  ultimately show ?case using conns_fit_start [OF life_restart(6)] by simp
qed


text \<open>A client connects with a durable session and subscribes; then the broker restarts.\<close>

definition disk_hub0 :: "((string \<times> bytes) list, (string \<times> u32) list, (u64 \<times> bytes) list) Hub" where
  "disk_hub0 = hub_new list_db (Some empty_storage) small_retry 0 0"

definition disk_relay0 :: "((string \<times> bytes) list, (string \<times> u32) list, (u64 \<times> bytes) list) Relay" where
  "disk_relay0 = \<lparr>rl_server = \<lparr>sv_permits = 0, sv_tasks = [(0, ''a'')]\<rparr>, rl_conns = [], rl_hub = disk_hub0\<rparr>"

lemma disk_events:
  "map_option (\<lambda>(flow1, (flow, c, h, out), h'). (flow1, flow, queues_fit h, map_option (map_prod id s_expiry_secs) (session_of h ''c''),
       subs_at (h_router h) (None, 1, ''drive/ann''), map_option (\<lambda>st. length (u32_rows list_view (st_sessions st))) (h_storage h')))
     (do { (flow, c, h, out) \<leftarrow> conn_event (cx0\<lparr>cx_peer := ''a''\<rparr>) tick0 conn_init disk_hub0 (Incoming (InPacket connect0));
           r \<leftarrow> conn_event (cx0\<lparr>cx_peer := ''a''\<rparr>) tick0 c h (Incoming (InPacket subscribe0));
           h' \<leftarrow> flush_wait list_db (fst (snd (snd r)));
           Some (flow, r, h') }) =
   Some (Continue, Continue, True, Some (1, 60), Some AtLeastOnce, Some 1)"
  by code_simp

lemma disk_relay0_life: "broker_life config0 cx0 list_view disk_relay0"
proof -
  let ?b = "\<lparr>rl_server = \<lparr>sv_permits = 1, sv_tasks = []\<rparr>, rl_conns = [], rl_hub = disk_hub0\<rparr>"
  have start: "relay_start config0 disk_hub0 = Some ?b"
  proof -
    have "server_start config0 = Some \<lparr>sv_permits = 1, sv_tasks = []\<rparr>" by code_simp
    then show ?thesis by (simp add: relay_start_def)
  qed
  have "durable list_view empty_storage = durable_empty"
    by (simp add: durable_def durable_empty_def list_view_def empty_storage_def fun_eq_iff)
  moreover have "length (u32_rows list_view (st_sessions empty_storage)) + 1 < 2 ^ 64" by code_simp
  ultimately have "broker_life config0 cx0 list_view ?b"
    by (rule life_first [where retry = small_retry and mx = 0 and now = 0])
      (use start in \<open>simp add: disk_hub0_def cx0_def\<close>)
  moreover have "?b\<lparr>rl_server := snd (accept (rl_server ?b) Tcp 0 (Inr ''a''))\<rparr> = disk_relay0"
    by (simp add: disk_relay0_def accept_def peer_name_def)
  then have "relay_step cx0 connect_legal ?b disk_relay0" using turn_accept [of 0 ?b cx0 connect_legal Tcp "Inr ''a''"] by simp
  ultimately show ?thesis by (rule life_turn)
qed


text \<open>
  The condition on \<open>connect\<close> is needed. A client that subscribes in a session that is not to outlive its
  connection, and takes it over with an expiry interval, has a durable session and a subscription that
  was never written: after a restart the session is there and the subscription is gone.
\<close>

lemma raised_expiry_loses_subscription:
  "map_option (\<lambda>(h, h'). (subs_at (h_router h) (None, 1, ''t''), map_option fst (session_of h' ''c''),
       subs_at (h_router h') (None, 1, ''t'')))
     (do { (_, h) \<leftarrow> connect disk_hub0 ''c'' True 0 1 0;
           let h = hub_subscribe h 1 (TopicFilter ''t'') AtLeastOnce ''t'';
           (_, h) \<leftarrow> connect h ''c'' False 60 2 0;
           h \<leftarrow> flush_wait list_db h;
           Some (h, hub_new list_db (h_storage h) small_retry 0 0) }) =
   Some (Some AtLeastOnce, Some 1, None)"
  by code_simp

end
