(* ===== verification/Open_Store.thy ===== *)
theory Open_Store
  imports Storage
begin

text \<open>
  \<open>relay-server/src/storage.rs\<close>: the table definitions and \<open>Storage::open\<close>, which creates the tables
  a new file does not have yet. The file is the library \<open>redb\<close>: a record of the calls the source
  makes, over arbitrary types of database handles and write transactions. What the library documents
  of them (a transaction starts from the committed tables, \<open>open_table\<close> creates a missing table and
  fails on one of another type, a commit makes the tables of the transaction those of the database)
  is the predicate \<open>file_laws\<close>; \<open>list_file\<close> is an instance.
\<close>

section \<open>Opening the store\<close>

datatype TableKind = StrBytes | StrU32 | U64Bytes

record TableDefinition =
  td_name :: string
  td_kind :: TableKind

definition RETAINED :: TableDefinition where "RETAINED = \<lparr>td_name = ''retained'', td_kind = StrBytes\<rparr>"
definition SESSIONS :: TableDefinition where "SESSIONS = \<lparr>td_name = ''sessions'', td_kind = StrU32\<rparr>"
definition SUBSCRIPTIONS :: TableDefinition where "SUBSCRIPTIONS = \<lparr>td_name = ''subscriptions'', td_kind = StrBytes\<rparr>"
definition INFLIGHT :: TableDefinition where "INFLIGHT = \<lparr>td_name = ''inflight'', td_kind = StrBytes\<rparr>"
definition DEAD_LETTERS :: TableDefinition where "DEAD_LETTERS = \<lparr>td_name = ''dead_letters'', td_kind = U64Bytes\<rparr>"
definition EVENTS :: TableDefinition where "EVENTS = \<lparr>td_name = ''events'', td_kind = U64Bytes\<rparr>"

lemmas table_defs = RETAINED_def SESSIONS_def SUBSCRIPTIONS_def INFLIGHT_def DEAD_LETTERS_def EVENTS_def

datatype ('s, 'u, 'e) AnyTable = StrTable 's | U32Table 'u | SeqTable 'e

fun kind_of :: "('s, 'u, 'e) AnyTable \<Rightarrow> TableKind" where
  "kind_of (StrTable _) = StrBytes"
| "kind_of (U32Table _) = StrU32"
| "kind_of (SeqTable _) = U64Bytes"

text \<open>\<open>db_tables\<close> is what a read transaction finds under a name.\<close>

record ('d, 't, 's, 'u, 'e) RedbFile =
  db_create :: "string \<Rightarrow> 'd option"
  db_begin_write :: "'d \<Rightarrow> 't option"
  txn_open_table :: "TableDefinition \<Rightarrow> 't \<Rightarrow> 't option"
  txn_commit :: "'t \<Rightarrow> 'd option"
  db_tables :: "'d \<Rightarrow> string \<Rightarrow> ('s, 'u, 'e) AnyTable option"

definition storage_open :: "('d, 't, 's, 'u, 'e) RedbFile \<Rightarrow> string \<Rightarrow> 'd option" where
  "storage_open f path = do {
     db \<leftarrow> db_create f path;
     txn \<leftarrow> db_begin_write f db;
     txn \<leftarrow> txn_open_table f RETAINED txn;
     txn \<leftarrow> txn_open_table f SESSIONS txn;
     txn \<leftarrow> txn_open_table f SUBSCRIPTIONS txn;
     txn \<leftarrow> txn_open_table f INFLIGHT txn;
     txn \<leftarrow> txn_open_table f DEAD_LETTERS txn;
     txn \<leftarrow> txn_open_table f EVENTS txn;
     txn_commit f txn }"

text \<open>
  The tables the operations of the store read and write; \<open>None\<close> is a database that lacks one of
  them, on which a read would fail.
\<close>

definition storage_tables :: "('d, 't, 's, 'u, 'e) RedbFile \<Rightarrow> 'd \<Rightarrow> ('s, 'u, 'e) Storage option" where
  "storage_tables f db =
     (case map (\<lambda>def. db_tables f db (td_name def)) [RETAINED, SESSIONS, SUBSCRIPTIONS, INFLIGHT, DEAD_LETTERS, EVENTS] of
        [Some (StrTable r), Some (U32Table s), Some (StrTable u), Some (StrTable i), Some (SeqTable d), Some (SeqTable e)] \<Rightarrow>
          Some \<lparr>st_retained = r, st_sessions = s, st_subscriptions = u, st_inflight = i, st_dead_letters = d, st_events = e\<rparr>
      | _ \<Rightarrow> None)"

section \<open>What the library documents\<close>

type_synonym ('s, 'u, 'e) tables = "string \<Rightarrow> ('s, 'u, 'e) AnyTable option"

definition fits :: "('s, 'u, 'e) tables \<Rightarrow> TableDefinition \<Rightarrow> bool" where
  "fits tables def \<longleftrightarrow> (case tables (td_name def) of None \<Rightarrow> True | Some c \<Rightarrow> kind_of c = td_kind def)"

definition with_table ::
    "(TableKind \<Rightarrow> ('s, 'u, 'e) AnyTable) \<Rightarrow> TableDefinition \<Rightarrow> ('s, 'u, 'e) tables \<Rightarrow> ('s, 'u, 'e) tables" where
  "with_table fresh def tables =
     (if tables (td_name def) = None then tables(td_name def \<mapsto> fresh (td_kind def)) else tables)"

text \<open>\<open>fresh\<close> is a new table, \<open>seen\<close> what a write transaction sees.\<close>

definition file_laws ::
    "('d, 't, 's, 'u, 'e) RedbFile \<Rightarrow> (TableKind \<Rightarrow> ('s, 'u, 'e) AnyTable) \<Rightarrow> ('t \<Rightarrow> ('s, 'u, 'e) tables) \<Rightarrow> bool" where
  "file_laws f fresh seen \<longleftrightarrow>
     (\<forall>k. kind_of (fresh k) = k) \<and>
     (\<forall>db t. db_begin_write f db = Some t \<longrightarrow> seen t = db_tables f db) \<and>
     (\<forall>def t t'. txn_open_table f def t = Some t' \<longrightarrow> fits (seen t) def \<and> seen t' = with_table fresh def (seen t)) \<and>
     (\<forall>t db. txn_commit f t = Some db \<longrightarrow> db_tables f db = seen t)"

text \<open>The library reports no error but that of a table of another type.\<close>

definition file_total :: "('d, 't, 's, 'u, 'e) RedbFile \<Rightarrow> ('t \<Rightarrow> ('s, 'u, 'e) tables) \<Rightarrow> bool" where
  "file_total f seen \<longleftrightarrow>
     (\<forall>db. db_begin_write f db \<noteq> None) \<and> (\<forall>t. txn_commit f t \<noteq> None) \<and>
     (\<forall>def t. fits (seen t) def \<longrightarrow> txn_open_table f def t \<noteq> None)"

definition table_list :: "TableDefinition list" where
  "table_list = [RETAINED, SESSIONS, SUBSCRIPTIONS, INFLIGHT, DEAD_LETTERS, EVENTS]"

fun open_tables :: "('d, 't, 's, 'u, 'e) RedbFile \<Rightarrow> TableDefinition list \<Rightarrow> 't \<Rightarrow> 't option" where
  "open_tables f [] t = Some t"
| "open_tables f (def # defs) t = Option.bind (txn_open_table f def t) (open_tables f defs)"

lemma storage_open_tables:
  "storage_open f path = do { db \<leftarrow> db_create f path; t \<leftarrow> db_begin_write f db;
     t \<leftarrow> open_tables f table_list t; txn_commit f t }"
  unfolding storage_open_def table_list_def by simp

lemma table_names_distinct: "distinct (map td_name table_list)"
  by (simp add: table_list_def table_defs)

lemma open_tables_seen:
  assumes "file_laws f fresh seen" "open_tables f defs t = Some t'" "distinct (map td_name defs)"
  shows "list_all (fits (seen t)) defs \<and>
    (\<forall>name. seen t' name = (case seen t name of Some c \<Rightarrow> Some c
       | None \<Rightarrow> map_option (fresh \<circ> td_kind) (List.find (\<lambda>def. td_name def = name) defs)))"
  using assms(2,3)
proof (induction defs arbitrary: t)
  case (Cons def defs)
  then obtain t1 where t1: "txn_open_table f def t = Some t1" "open_tables f defs t1 = Some t'"
    by (auto simp: Option.bind_eq_Some_conv)
  with assms(1) have "fits (seen t) def" "seen t1 = with_table fresh def (seen t)" by (auto simp: file_laws_def)
  with Cons.IH [OF t1(2)] Cons.prems(2) show ?case
    by (auto simp: with_table_def fits_def list_all_iff find_None_iff comp_def split: option.splits if_splits)
qed (auto split: option.splits)

lemma open_tables_total:
  assumes "file_laws f fresh seen" "file_total f seen" "list_all (fits (seen t)) defs" "distinct (map td_name defs)"
  shows "open_tables f defs t \<noteq> None"
  using assms(3,4)
proof (induction defs arbitrary: t)
  case (Cons def defs)
  then have "txn_open_table f def t \<noteq> None" using assms(2) unfolding file_total_def by simp
  then obtain t1 where t1: "txn_open_table f def t = Some t1" by blast
  with assms(1) have "seen t1 = with_table fresh def (seen t)" by (auto simp: file_laws_def)
  with Cons.prems have "list_all (fits (seen t1)) defs"
    by (auto simp: with_table_def fits_def list_all_iff image_iff split: option.splits)
  with Cons t1 show ?case by simp
qed simp

lemma storage_tables_iff:
  "storage_tables f db = Some st \<longleftrightarrow>
     db_tables f db (td_name RETAINED) = Some (StrTable (st_retained st)) \<and>
     db_tables f db (td_name SESSIONS) = Some (U32Table (st_sessions st)) \<and>
     db_tables f db (td_name SUBSCRIPTIONS) = Some (StrTable (st_subscriptions st)) \<and>
     db_tables f db (td_name INFLIGHT) = Some (StrTable (st_inflight st)) \<and>
     db_tables f db (td_name DEAD_LETTERS) = Some (SeqTable (st_dead_letters st)) \<and>
     db_tables f db (td_name EVENTS) = Some (SeqTable (st_events st))"
  by (cases st) (auto simp: storage_tables_def split: option.splits AnyTable.splits)

lemma kind_of_exhaust:
  "kind_of c = StrBytes \<Longrightarrow> \<exists>x. c = StrTable x"
  "kind_of c = StrU32 \<Longrightarrow> \<exists>y. c = U32Table y"
  "kind_of c = U64Bytes \<Longrightarrow> \<exists>z. c = SeqTable z"
  by (cases c; simp)+

lemma storage_tables_total:
  assumes "\<And>def. def \<in> set table_list \<Longrightarrow> \<exists>c. db_tables f db (td_name def) = Some c \<and> kind_of c = td_kind def"
  shows "storage_tables f db \<noteq> None"
proof -
  have str: "\<exists>x. db_tables f db (td_name def) = Some (StrTable x)"
    if "def \<in> set table_list" "td_kind def = StrBytes" for def using assms [OF that(1)] that(2) kind_of_exhaust(1) by force
  have u32: "\<exists>x. db_tables f db (td_name SESSIONS) = Some (U32Table x)"
    using assms [of SESSIONS] kind_of_exhaust(2) by (force simp: table_list_def SESSIONS_def)
  have seq: "\<exists>x. db_tables f db (td_name def) = Some (SeqTable x)"
    if "def \<in> set table_list" "td_kind def = U64Bytes" for def using assms [OF that(1)] that(2) kind_of_exhaust(3) by force
  from u32 str [of RETAINED] str [of SUBSCRIPTIONS] str [of INFLIGHT] seq [of DEAD_LETTERS] seq [of EVENTS]
  obtain r s u i d e where "db_tables f db (td_name RETAINED) = Some (StrTable r)"
    "db_tables f db (td_name SESSIONS) = Some (U32Table s)" "db_tables f db (td_name SUBSCRIPTIONS) = Some (StrTable u)"
    "db_tables f db (td_name INFLIGHT) = Some (StrTable i)" "db_tables f db (td_name DEAD_LETTERS) = Some (SeqTable d)"
    "db_tables f db (td_name EVENTS) = Some (SeqTable e)"
    by (auto simp: table_list_def table_defs)
  then show ?thesis by (simp add: storage_tables_def)
qed

lemma find_table: "def \<in> set table_list \<Longrightarrow> List.find (\<lambda>d. td_name d = td_name def) table_list = Some def"
  by (auto simp: table_list_def table_defs)

lemma storage_open_result:
  assumes "file_laws f fresh seen" "storage_open f path = Some db'"
  obtains db where "db_create f path = Some db"
    "\<And>name. db_tables f db' name = (case db_tables f db name of Some c \<Rightarrow> Some c
       | None \<Rightarrow> map_option (fresh \<circ> td_kind) (List.find (\<lambda>def. td_name def = name) table_list))"
    "storage_tables f db' \<noteq> None"
proof -
  from assms(2) obtain db t t' where run: "db_create f path = Some db" "db_begin_write f db = Some t"
      "open_tables f table_list t = Some t'" "txn_commit f t' = Some db'"
    by (auto simp: storage_open_tables Option.bind_eq_Some_conv)
  have views: "seen t = db_tables f db" "db_tables f db' = seen t'" "\<And>k. kind_of (fresh k) = k"
    using assms run by (auto simp: file_laws_def)
  note opened = open_tables_seen [OF assms(1) run(3) table_names_distinct, unfolded views(1) views(2) [symmetric]]
  have "storage_tables f db' \<noteq> None"
  proof (rule storage_tables_total)
    fix def assume "def \<in> set table_list"
    with opened show "\<exists>c. db_tables f db' (td_name def) = Some c \<and> kind_of c = td_kind def"
      by (auto simp: find_table views list_all_iff fits_def split: option.splits)
  qed
  with run(1) opened that show ?thesis by blast
qed

lemma storage_open_succeeds:
  assumes "file_laws f fresh seen" "file_total f seen" "db_create f path = Some db"
  shows "storage_open f path \<noteq> None \<longleftrightarrow> list_all (fits (db_tables f db)) table_list"
proof -
  have "db_begin_write f db \<noteq> None" using assms(2) unfolding file_total_def by blast
  then obtain t where t: "db_begin_write f db = Some t" by blast
  then have "seen t = db_tables f db" using assms by (auto simp: file_laws_def)
  with t assms open_tables_total [OF assms(1,2) _ table_names_distinct, of t]
    open_tables_seen [OF assms(1) _ table_names_distinct, of t]
  show ?thesis by (auto simp: storage_open_tables file_total_def Option.bind_eq_Some_conv)
qed

text \<open>
  C25. Opening the store makes every later read possible and loses nothing. When \<open>Storage::open\<close>
  succeeds, all six tables can be read with their types; a table the file had is unchanged, one it
  did not have is new, and a file that had all six, which is what a restart finds, is read back as it
  was left. Opening fails only if the file cannot be opened, the library reports an error, or the
  file holds a table of one of the six names with another type.
\<close>

theorem store_opens:
  assumes "file_laws f fresh seen"
  shows "(storage_open f path = Some db' \<longrightarrow> (\<exists>db. db_create f path = Some db \<and>
      (\<forall>name. db_tables f db' name = (case db_tables f db name of Some c \<Rightarrow> Some c
         | None \<Rightarrow> map_option (fresh \<circ> td_kind) (List.find (\<lambda>def. td_name def = name) table_list))) \<and>
      storage_tables f db' \<noteq> None \<and> (\<forall>st. storage_tables f db = Some st \<longrightarrow> storage_tables f db' = Some st))) \<and>
    (file_total f seen \<and> db_create f path = Some db0 \<longrightarrow>
      (storage_open f path \<noteq> None \<longleftrightarrow> list_all (fits (db_tables f db0)) table_list))"
proof (rule conjI; rule impI)
  assume run: "storage_open f path = Some db'"
  obtain db where db: "db_create f path = Some db"
    "\<And>name. db_tables f db' name = (case db_tables f db name of Some c \<Rightarrow> Some c
         | None \<Rightarrow> map_option (fresh \<circ> td_kind) (List.find (\<lambda>def. td_name def = name) table_list))"
    "storage_tables f db' \<noteq> None"
    using storage_open_result [OF assms run] by blast
  then have "storage_tables f db = Some st \<longrightarrow> storage_tables f db' = Some st" for st
    by (simp add: storage_tables_iff)
  with db show "\<exists>db. db_create f path = Some db \<and>
      (\<forall>name. db_tables f db' name = (case db_tables f db name of Some c \<Rightarrow> Some c
         | None \<Rightarrow> map_option (fresh \<circ> td_kind) (List.find (\<lambda>def. td_name def = name) table_list))) \<and>
      storage_tables f db' \<noteq> None \<and> (\<forall>st. storage_tables f db = Some st \<longrightarrow> storage_tables f db' = Some st)"
    by blast
qed (elim conjE, rule storage_open_succeeds [OF assms])

section \<open>An instance\<close>

definition list_fresh :: "TableKind \<Rightarrow> ((string \<times> bytes) list, (string \<times> u32) list, (u64 \<times> bytes) list) AnyTable" where
  "list_fresh k = (case k of StrBytes \<Rightarrow> StrTable [] | StrU32 \<Rightarrow> U32Table [] | U64Bytes \<Rightarrow> SeqTable [])"

type_synonym list_tables = "(string, ((string \<times> bytes) list, (string \<times> u32) list, (u64 \<times> bytes) list) AnyTable) hash_map"

definition list_open_table :: "TableDefinition \<Rightarrow> list_tables \<Rightarrow> list_tables option" where
  "list_open_table def t = (case hm_get t (td_name def) of
     None \<Rightarrow> Some (hm_insert (td_name def) (list_fresh (td_kind def)) t)
   | Some c \<Rightarrow> if kind_of c = td_kind def then Some t else None)"

text \<open>The file system holds one file, with the given tables.\<close>

definition list_file :: "string \<Rightarrow> list_tables \<Rightarrow> (list_tables, list_tables, (string \<times> bytes) list,
    (string \<times> u32) list, (u64 \<times> bytes) list) RedbFile" where
  "list_file file tables = \<lparr>db_create = (\<lambda>path. if path = file then Some tables else Some []), db_begin_write = Some,
     txn_open_table = list_open_table, txn_commit = Some, db_tables = hm_get\<rparr>"

lemma list_file_laws: "file_laws (list_file file tables) list_fresh hm_get" "file_total (list_file file tables) hm_get"
  by (auto simp: file_laws_def file_total_def list_file_def list_open_table_def list_fresh_def fits_def with_table_def
      update_conv' split: option.splits if_splits TableKind.splits)

theorem store_opens_witness:
  "storage_tables (list_file ''relay.redb'' [(''sessions'', U32Table [(''c'', 7)])])
     (the (storage_open (list_file ''relay.redb'' [(''sessions'', U32Table [(''c'', 7)])]) ''relay.redb'')) \<noteq> None \<and>
   storage_open (list_file ''relay.redb'' [(''sessions'', StrTable [])]) ''relay.redb'' = None"
proof -
  let ?f = "list_file ''relay.redb'' [(''sessions'', U32Table [(''c'', 7)])]"
  let ?g = "list_file ''relay.redb'' [(''sessions'', StrTable [])]"
  have fit: "list_all (fits (db_tables ?f [(''sessions'', U32Table [(''c'', 7)])])) table_list"
    "\<not> list_all (fits (db_tables ?g [(''sessions'', StrTable [])])) table_list" by code_simp+
  have create: "db_create ?f ''relay.redb'' = Some [(''sessions'', U32Table [(''c'', 7)])]"
    "db_create ?g ''relay.redb'' = Some [(''sessions'', StrTable [])]" by (simp_all add: list_file_def)
  have "storage_open ?f ''relay.redb'' \<noteq> None"
    using store_opens [OF list_file_laws(1)] list_file_laws(2) create(1) fit(1) by blast
  then obtain db where db: "storage_open ?f ''relay.redb'' = Some db" by blast
  have "storage_tables ?f db \<noteq> None"
    using store_opens [OF list_file_laws(1), of "''relay.redb''" _ "''relay.redb''" db] db by blast
  moreover have "storage_open ?g ''relay.redb'' = None"
    using store_opens [OF list_file_laws(1)] list_file_laws(2) create(2) fit(2) by blast
  ultimately show ?thesis using db by simp
qed

end
