(* ===== verification/Tls_Acceptor.thy ===== *)
theory Tls_Acceptor
  imports Relay_Prelude
begin

text \<open>
  \<open>relay-server/src/tls.rs\<close>: the acceptor of the TLS listener, built from two PEM files. The PEM
  parser and \<open>rustls\<close> are libraries: a record of the calls the source makes, over arbitrary types of
  certificates, keys, configurations and errors of \<open>rustls\<close>. Reading a file is an argument.
\<close>

datatype 'x TlsError = TlsIo IoErrorKind | NoKey | NoCert | Rustls 'x

text \<open>
  The PEM parser yields one result per certificate and the first private key, if any;
  \<open>default_versions\<close> is whether the \<open>ring\<close> provider supports the default protocol versions.
\<close>

record ('c, 'k, 'x, 'cfg) Rustls =
  pem_certs :: "bytes \<Rightarrow> (IoErrorKind + 'c) list"
  pem_private_key :: "bytes \<Rightarrow> IoErrorKind + 'k option"
  default_versions :: bool
  with_single_cert :: "'c list \<Rightarrow> 'k \<Rightarrow> 'x + 'cfg"

text \<open>\<open>collect\<close> of an iterator of results: the first error, or all the values.\<close>

fun collect_results :: "('e + 'a) list \<Rightarrow> 'e + 'a list" where
  "collect_results [] = Inr []"
| "collect_results (r # rs) = (case r of
     Inl e \<Rightarrow> Inl e
   | Inr x \<Rightarrow> (case collect_results rs of Inl e \<Rightarrow> Inl e | Inr xs \<Rightarrow> Inr (x # xs)))"

text \<open>\<open>None\<close> is the panic of \<open>expect\<close>.\<close>

definition acceptor ::
    "(string \<Rightarrow> IoErrorKind + bytes) \<Rightarrow> ('c, 'k, 'x, 'cfg) Rustls \<Rightarrow> string \<Rightarrow> string \<Rightarrow> ('x TlsError + 'cfg) option" where
  "acceptor read_file lib cert_path key_path =
     (case read_file cert_path of
        Inl e \<Rightarrow> Some (Inl (TlsIo e))
      | Inr cert_pem \<Rightarrow> (case read_file key_path of
          Inl e \<Rightarrow> Some (Inl (TlsIo e))
        | Inr key_pem \<Rightarrow> (case collect_results (pem_certs lib cert_pem) of
            Inl e \<Rightarrow> Some (Inl (TlsIo e))
          | Inr certs \<Rightarrow>
              if certs = [] then Some (Inl NoCert)
              else (case pem_private_key lib key_pem of
                  Inl e \<Rightarrow> Some (Inl (TlsIo e))
                | Inr None \<Rightarrow> Some (Inl NoKey)
                | Inr (Some key) \<Rightarrow>
                    if \<not> default_versions lib then None
                    else (case with_single_cert lib certs key of
                        Inl e \<Rightarrow> Some (Inl (Rustls e))
                      | Inr config \<Rightarrow> Some (Inr config))))))"

lemma collect_results_map [simp]: "collect_results (map Inr xs) = Inr xs"
  by (induction xs) auto

lemma collect_results_Inr: "collect_results rs = Inr xs \<longleftrightarrow> rs = map Inr xs"
proof
  show "collect_results rs = Inr xs \<Longrightarrow> rs = map Inr xs"
    by (induction rs arbitrary: xs) (auto split: sum.splits)
qed simp

text \<open>
  What an acceptor stands for: both files could be read, every certificate of the chain parsed, there is at
  least one, there is a private key, and \<open>rustls\<close> accepted the pair.
\<close>

definition tls_ready ::
    "(string \<Rightarrow> IoErrorKind + bytes) \<Rightarrow> ('c, 'k, 'x, 'cfg) Rustls \<Rightarrow> string \<Rightarrow> string \<Rightarrow> 'cfg \<Rightarrow> bool" where
  "tls_ready read_file lib cert_path key_path config \<longleftrightarrow>
     (\<exists>cert_pem key_pem certs key. read_file cert_path = Inr cert_pem \<and> read_file key_path = Inr key_pem \<and>
        certs \<noteq> [] \<and> pem_certs lib cert_pem = map Inr certs \<and> pem_private_key lib key_pem = Inr (Some key) \<and>
        default_versions lib \<and> with_single_cert lib certs key = Inr config)"

lemma acceptor_ready:
  "acceptor read_file lib cert_path key_path = Some (Inr config) \<longleftrightarrow> tls_ready read_file lib cert_path key_path config"
  by (auto simp: acceptor_def tls_ready_def collect_results_Inr split: sum.splits option.splits)

lemma acceptor_panics: "acceptor read_file lib cert_path key_path = None \<Longrightarrow> \<not> default_versions lib"
  by (auto simp: acceptor_def split: sum.splits option.splits if_splits)

end
