(* ===== verification/Startup.thy ===== *)
theory Startup
  imports Broker Open_Store Tls_Acceptor
begin

text \<open>
  \<open>relay-server/src/main.rs\<close>: \<open>main\<close> from its first line to the accept loops. The operating system
  (environment, files, sockets) is a record of the calls the source makes; the TOML parser, the
  database and the TLS library are arguments, as where they are used. An error that \<open>main\<close> returns
  with \<open>?\<close> is a value; \<open>None\<close> is a panic. Installing the log subscriber is not modelled.
\<close>

section \<open>The program's start\<close>

text \<open>\<open>os_bind bound addr\<close>: binding \<open>addr\<close> once the addresses \<open>bound\<close> are taken by this process.\<close>

record Os =
  os_env :: "string \<Rightarrow> string option"
  os_read_to_string :: "string \<Rightarrow> IoErrorKind + string"
  os_read :: "string \<Rightarrow> IoErrorKind + bytes"
  os_create_dir_all :: "string \<Rightarrow> IoErrorKind + unit"
  os_bind :: "SocketAddr list \<Rightarrow> SocketAddr \<Rightarrow> IoErrorKind + unit"

datatype 'x MainError = ConfigFailed ConfigError | IoFailed IoErrorKind | StoreFailed | TlsFailed "'x TlsError"

text \<open>
  What the accept loops start with: the configuration, the bound addresses, the store, the TLS
  acceptor, the address of the dashboard, and the relay with its semaphore and hub.
\<close>

record ('d, 's, 'u, 'e, 'cfg) Started =
  sd_config :: Config
  sd_bound :: "SocketAddr list"
  sd_store :: "'d option"
  sd_acceptor :: "'cfg option"
  sd_dashboard :: "SocketAddr option"
  sd_relay :: "('s, 'u, 'e) Relay"
  sd_auth :: AuthConfig
  sd_limits :: Limits

text \<open>The operator \<open>?\<close>.\<close>

fun and_then :: "('e + 'a) option \<Rightarrow> ('a \<Rightarrow> ('e + 'b) option) \<Rightarrow> ('e + 'b) option" where
  "and_then None k = None"
| "and_then (Some (Inl e)) k = Some (Inl e)"
| "and_then (Some (Inr x)) k = k x"

definition config_path :: "Os \<Rightarrow> string" where
  "config_path os = (case os_env os ''RELAY_CONFIG'' of Some path \<Rightarrow> path | None \<Rightarrow> ''config.toml'')"

text \<open>\<open>Path::join\<close> with a relative path.\<close>

definition path_join :: "string \<Rightarrow> string \<Rightarrow> string" where
  "path_join dir file = (if dir = [] \<or> last dir = CHR ''/'' then dir @ file else dir @ ''/'' @ file)"

definition open_storage ::
    "Os \<Rightarrow> ('d, 't, 's, 'u, 'e) RedbFile \<Rightarrow> Config \<Rightarrow> 'x MainError + 'd option" where
  "open_storage os f config = (case data_dir config of
     None \<Rightarrow> Inr None
   | Some dir \<Rightarrow> (case os_create_dir_all os dir of
       Inl e \<Rightarrow> Inl (IoFailed e)
     | Inr _ \<Rightarrow> (case storage_open f (path_join dir ''relay.redb'') of
         None \<Rightarrow> Inl StoreFailed
       | Some db \<Rightarrow> Inr (Some db))))"

definition bind_listener :: "Os \<Rightarrow> SocketAddr list \<Rightarrow> SocketAddr \<Rightarrow> 'x MainError + SocketAddr list" where
  "bind_listener os bound addr = (case os_bind os bound addr of
     Inl e \<Rightarrow> Inl (IoFailed e)
   | Inr _ \<Rightarrow> Inr (bound @ [addr]))"

definition start_tls ::
    "Os \<Rightarrow> ('c, 'k, 'x, 'cfg) Rustls \<Rightarrow> Config \<Rightarrow> SocketAddr list \<Rightarrow>
     ('x MainError + 'cfg option \<times> SocketAddr list) option" where
  "start_tls os lib config bound = (case (tls_cert config, tls_key config) of
     (Some cert, Some key) \<Rightarrow>
       (case acceptor (os_read os) lib cert key of
          None \<Rightarrow> None
        | Some (Inl e) \<Rightarrow> Some (Inl (TlsFailed e))
        | Some (Inr acc) \<Rightarrow>
            let addr = (case tls_addr config of Some addr \<Rightarrow> addr | None \<Rightarrow> \<lparr>sa_ip = V4 0 0 0 0, sa_port = 8883\<rparr>)
            in and_then (Some (bind_listener os bound addr)) (\<lambda>bound. Some (Inr (Some acc, bound))))
   | _ \<Rightarrow> Some (Inr (None, bound)))"

definition start_dashboard ::
    "Os \<Rightarrow> Config \<Rightarrow> SocketAddr list \<Rightarrow> ('x MainError + SocketAddr option \<times> SocketAddr list) option" where
  "start_dashboard os config bound = (case http_addr config of
     None \<Rightarrow> Some (Inr (None, bound))
   | Some addr \<Rightarrow>
       if is_loopback (sa_ip addr)
       then and_then (Some (bind_listener os bound addr)) (\<lambda>bound. Some (Inr (Some addr, bound)))
       else if http_allow_external config
       then and_then (Some (bind_listener os bound addr)) (\<lambda>bound. Some (Inr (Some addr, bound)))
       else Some (Inr (None, bound)))"

text \<open>
  The hub works on the tables of the store. That a store that has been opened has them all is part of
  what is shown below; \<open>now\<close> is the instant at which \<open>Hub::new\<close> reads the clock.
\<close>

definition main_start ::
    "Os \<Rightarrow> (string \<Rightarrow> Config option) \<Rightarrow> ('d, 't, 's, 'u, 'e) RedbFile \<Rightarrow> ('s, 'u, 'e) Redb \<Rightarrow>
     ('c, 'k, 'x, 'cfg) Rustls \<Rightarrow> Instant \<Rightarrow> ('x MainError + ('d, 's, 'u, 'e, 'cfg) Started) option" where
  "main_start os from_toml f db lib now =
     (case load (os_read_to_string os) from_toml (config_path os) of
        Inl e \<Rightarrow> Some (Inl (ConfigFailed e))
      | Inr config \<Rightarrow>
          and_then (Some (open_storage os f config)) (\<lambda>storage.
          and_then (Some (bind_listener os [] (tcp_addr config))) (\<lambda>bound.
          and_then (Some (bind_listener os bound (ws_addr config))) (\<lambda>bound.
            let hub = hub_new db (Option.bind storage (storage_tables f)) (retry_config config) (event_log_max config) now
            in (case relay_start config hub of
                  None \<Rightarrow> None
                | Some relay \<Rightarrow>
                    and_then (start_tls os lib config bound) (\<lambda>(acc, bound).
                    and_then (start_dashboard os config bound) (\<lambda>(dashboard, bound).
                      Some (Inr \<lparr>sd_config = config, sd_bound = bound, sd_store = storage, sd_acceptor = acc,
                        sd_dashboard = dashboard, sd_relay = relay, sd_auth = auth config, sd_limits = limits config\<rparr>))))))))"

section \<open>What a start that succeeds gives\<close>

definition option_list :: "'a option \<Rightarrow> 'a list" where
  "option_list x = (case x of None \<Rightarrow> [] | Some y \<Rightarrow> [y])"

definition addresses :: "Config \<Rightarrow> SocketAddr list" where
  "addresses config = [tcp_addr config, ws_addr config] @ option_list (tls_bind config) @ option_list (dashboard_bind config)"

fun can_bind :: "Os \<Rightarrow> SocketAddr list \<Rightarrow> SocketAddr list \<Rightarrow> bool" where
  "can_bind os bound [] = True"
| "can_bind os bound (addr # addrs) = (os_bind os bound addr = Inr () \<and> can_bind os (bound @ [addr]) addrs)"

definition store_ready :: "Os \<Rightarrow> ('d, 't, 's, 'u, 'e) RedbFile \<Rightarrow> Config \<Rightarrow> 'd option \<Rightarrow> ('s, 'u, 'e) Storage option \<Rightarrow> bool" where
  "store_ready os f config store tables \<longleftrightarrow> (case data_dir config of
     None \<Rightarrow> store = None \<and> tables = None
   | Some dir \<Rightarrow> os_create_dir_all os dir = Inr () \<and> (\<exists>d st. storage_open f (path_join dir ''relay.redb'') = Some d \<and>
       storage_tables f d = Some st \<and> store = Some d \<and> tables = Some st))"

definition tls_configured :: "Os \<Rightarrow> ('c, 'k, 'x, 'cfg) Rustls \<Rightarrow> Config \<Rightarrow> 'cfg option \<Rightarrow> bool" where
  "tls_configured os lib config acc \<longleftrightarrow> (case (tls_cert config, tls_key config) of
     (Some cert, Some key) \<Rightarrow> (\<exists>cfg. tls_ready (os_read os) lib cert key cfg \<and> acc = Some cfg)
   | _ \<Rightarrow> acc = None)"

lemma and_then_Inr [simp]: "and_then r k = Some (Inr y) \<longleftrightarrow> (\<exists>x. r = Some (Inr x) \<and> k x = Some (Inr y))"
  by (cases "(r, k)" rule: and_then.cases) auto

lemma and_then_None: "and_then r k = None \<longleftrightarrow> r = None \<or> (\<exists>x. r = Some (Inr x) \<and> k x = None)"
  by (cases "(r, k)" rule: and_then.cases) auto

lemma bind_listener_Inr: "bind_listener os bound addr = Inr bound' \<longleftrightarrow> os_bind os bound addr = Inr () \<and> bound' = bound @ [addr]"
  by (auto simp: bind_listener_def split: sum.splits)

lemma can_bind_append: "can_bind os bound (xs @ ys) \<longleftrightarrow> can_bind os bound xs \<and> can_bind os (bound @ xs) ys"
  by (induction xs arbitrary: bound) auto

lemma start_tls_Inr:
  "start_tls os lib config bound = Some (Inr (acc, bound')) \<longleftrightarrow>
     tls_configured os lib config acc \<and> can_bind os bound (option_list (tls_bind config)) \<and>
     bound' = bound @ option_list (tls_bind config)"
proof (cases "(tls_cert config, tls_key config)")
  case (Pair cert key)
  then show ?thesis
    by (auto simp: start_tls_def tls_configured_def tls_bind_def option_list_def bind_listener_Inr acceptor_ready [symmetric]
        Let_def split: option.split sum.split)
qed

lemma start_dashboard_Inr:
  "start_dashboard os config bound = Some (Inr (dash, bound')) \<longleftrightarrow>
     dash = dashboard_bind config \<and> can_bind os bound (option_list (dashboard_bind config)) \<and>
     bound' = bound @ option_list (dashboard_bind config)"
  by (auto simp: start_dashboard_def dashboard_bind_def option_list_def bind_listener_Inr split: option.split)

lemma open_storage_Inr:
  assumes "file_laws f fresh seen"
  shows "open_storage os f config = (Inr store :: 'x MainError + 'd option) \<and> tables = Option.bind store (storage_tables f) \<longleftrightarrow>
    store_ready os f config store tables"
proof -
  have "storage_tables f d \<noteq> None" if "storage_open f path = Some d" for path d
    using storage_open_result [OF assms that] by blast
  then show ?thesis
    by (auto simp: open_storage_def store_ready_def split: option.splits sum.splits)
qed

lemma start_dashboard_total: "start_dashboard os config bound \<noteq> None"
  by (simp add: start_dashboard_def and_then_None del: not_None_eq split: option.split)

lemma start_tls_panics: "start_tls os lib config bound = None \<Longrightarrow> \<not> default_versions lib"
  by (auto simp: start_tls_def and_then_None Let_def acceptor_panics split: option.splits sum.splits)

lemma case_option_bind: "(case x of None \<Rightarrow> None | Some y \<Rightarrow> k y) = Option.bind x k"
  by (cases x) simp_all

lemma main_start_Inr:
  assumes "load (os_read_to_string os) from_toml (config_path os) = Inr config"
  shows "main_start os from_toml f db lib now = Some (Inr s) \<longleftrightarrow>
    (\<exists>store relay acc. open_storage os f config = (Inr store :: 'x MainError + 'd option) \<and> can_bind os [] (addresses config) \<and>
       tls_configured os (lib :: ('c, 'k, 'x, 'cfg) Rustls) config acc \<and>
       relay_start config (hub_new db (Option.bind store (storage_tables f)) (retry_config config) (event_log_max config) now) =
         Some relay \<and>
       s = \<lparr>sd_config = config, sd_bound = addresses config, sd_store = store, sd_acceptor = acc,
            sd_dashboard = dashboard_bind config, sd_relay = relay, sd_auth = auth config, sd_limits = limits config\<rparr>)"
  by (auto simp: main_start_def assms bind_listener_Inr start_tls_Inr start_dashboard_Inr addresses_def can_bind_append Let_def
      case_option_bind Option.bind_eq_Some_conv)

lemma main_start_panics:
  assumes "load (os_read_to_string os) from_toml (config_path os) = Inr config" "main_start os from_toml f db lib now = None"
  shows "MAX_PERMITS < unat (max_connections config) \<or> \<not> default_versions lib"
  using assms start_tls_panics [of os lib config]
  by (auto simp: main_start_def and_then_None start_dashboard_total relay_start_def server_start_def Let_def
      split: option.splits if_splits)


definition os0 :: Os where
  "os0 = \<lparr>os_env = (\<lambda>_. None), os_read_to_string = (\<lambda>path. if path = ''config.toml'' then Inr [] else Inl NotFound),
     os_read = (\<lambda>path. if path = ''cert.pem'' \<or> path = ''key.pem'' then Inr [1] else Inl NotFound),
     os_create_dir_all = (\<lambda>_. Inr ()),
     os_bind = (\<lambda>bound addr. if addr \<in> set bound then Inl OtherIoError else Inr ())\<rparr>"

definition config1 :: Config where
  "config1 = config0\<lparr>data_dir := Some ''data'', tls_cert := Some ''cert.pem'', tls_key := Some ''key.pem''\<rparr>"

definition bytes_tls :: "(u8, u8, unit, u8 list \<times> u8) Rustls" where
  "bytes_tls = \<lparr>pem_certs = map Inr, pem_private_key = (\<lambda>pem. Inr (case pem of [] \<Rightarrow> None | b # _ \<Rightarrow> Some b)),
     default_versions = True, with_single_cert = (\<lambda>certs key. Inr (certs, key))\<rparr>"


end
