(* ===== verification/Hub_Delivery.thy ===== *)
theory Hub_Delivery
  imports Hub_Invariant
begin

text \<open>
  What the operations of the hub achieve: who receives a published message, what a CONNECT does to
  the session it takes over, and what becomes of the messages of a session that expires.
\<close>

section \<open>Publishing\<close>

definition msg_view :: "Publish \<Rightarrow> string \<times> bytes \<times> QoS" where
  "msg_view p = (p_topic p, p_payload p, to_core_qos (p_qos p))"

definition entry_view :: "InflightEntry \<Rightarrow> (string \<times> bytes \<times> QoS) option" where
  "entry_view e = map_option msg_view (undelivered (e_state e))"

definition send_view :: "chan \<times> Packet \<Rightarrow> (chan \<times> string \<times> bytes \<times> QoS) option" where
  "send_view cp = (case cp of (ch, PktPublish p) \<Rightarrow> Some (ch, msg_view p) | _ \<Rightarrow> None)"

text \<open>The delivery channel of a session that is online.\<close>

definition online :: "('s, 'u, 'e) Hub \<Rightarrow> ClientId \<Rightarrow> chan option" where
  "online h cid = Option.bind (hm_get (by_id (h_sessions h)) cid) s_tx"

definition live :: "('s, 'u, 'e) Hub \<Rightarrow> ClientId \<Rightarrow> bool" where
  "live h cid \<longleftrightarrow> hm_get (by_id (h_sessions h)) cid \<noteq> None"

text \<open>One PUBLISH for each target that is online, at the lower of the two QoS levels.\<close>

definition expected_sends ::
    "('s, 'u, 'e) Hub \<Rightarrow> string \<Rightarrow> bytes \<Rightarrow> QoS \<Rightarrow> (ClientId \<times> QoS) list \<Rightarrow> (chan \<times> string \<times> bytes \<times> QoS) list" where
  "expected_sends h topic payload qos targets = List.map_filter (\<lambda>(cid, granted).
     map_option (\<lambda>ch. (ch, topic, payload, min qos granted)) (online h cid)) targets"

text \<open>One queued message for each target that is granted an acknowledged delivery.\<close>

definition expected_queue ::
    "string \<Rightarrow> bytes \<Rightarrow> QoS \<Rightarrow> (ClientId \<times> QoS) list \<Rightarrow> ClientId \<Rightarrow> (string \<times> bytes \<times> QoS) list" where
  "expected_queue topic payload qos targets cid =
     map (\<lambda>(_, granted). (topic, payload, min qos granted))
       (filter (\<lambda>(c, granted). c = cid \<and> min qos granted \<noteq> AtMostOnce) targets)"

text \<open>A session keeps what it had and gains these messages at the end of its queue.\<close>

definition gained ::
    "('s, 'u, 'e) Hub \<Rightarrow> ('s, 'u, 'e) Hub \<Rightarrow> ClientId \<Rightarrow> (string \<times> bytes \<times> QoS) list \<Rightarrow> bool" where
  "gained h h' cid msgs \<longleftrightarrow>
     (case hm_get (by_id (h_sessions h)) cid of
        None \<Rightarrow> \<not> live h' cid
      | Some s \<Rightarrow> \<exists>s' news. hm_get (by_id (h_sessions h')) cid = Some s' \<and>
          s_inflight s' = s_inflight s @ news \<and> map entry_view news = map Some msgs \<and>
          s_client_id s' = s_client_id s \<and> s_tx s' = s_tx s \<and> s_generation s' = s_generation s \<and>
          s_expiry_secs s' = s_expiry_secs s)"

lemma gained_dead: "hm_get (by_id (h_sessions h)) cid = None \<Longrightarrow> gained h h' cid a = gained h h' cid b"
  by (simp add: gained_def)

lemma gained_refl: "by_id (h_sessions h') = by_id (h_sessions h) \<Longrightarrow> gained h h' cid []"
  by (simp add: gained_def live_def split: option.split)

lemma gained_trans: "gained h h1 cid a \<Longrightarrow> gained h1 h2 cid b \<Longrightarrow> gained h h2 cid (a @ b)"
  by (force simp: gained_def live_def split: option.splits)

lemma gained_same: "gained h h1 cid a \<Longrightarrow> online h1 cid = online h cid \<and> (live h1 cid \<longleftrightarrow> live h cid)"
  by (auto simp: gained_def live_def online_def split: option.splits)

lemma deliver_view:
  assumes "session_ok s" "deliver s topic payload qos False now cfg = Some so"
  shows "map send_view (snd so) =
      (case s_tx s of None \<Rightarrow> [] | Some ch \<Rightarrow> [Some (ch, topic, payload, qos)])"
    and "\<exists>news. s_inflight (fst so) = s_inflight s @ news \<and>
      map entry_view news = (if qos = AtMostOnce then [] else [Some (topic, payload, qos)])"
    and "s_client_id (fst so) = s_client_id s \<and> s_tx (fst so) = s_tx s \<and> s_generation (fst so) = s_generation s \<and>
      s_expiry_secs (fst so) = s_expiry_secs s"
proof -
  obtain p where so: "snd so = send s (PktPublish p)" "msg_view p = (topic, payload, qos)"
    and q: "s_inflight (fst so) = s_inflight s @
        (if qos = AtMostOnce then [] else [fresh_entry topic payload qos False (s_next_id s) now cfg])"
    and sel: "s_client_id (fst so) = s_client_id s" "s_tx (fst so) = s_tx s"
      "s_generation (fst so) = s_generation s" "s_expiry_secs (fst so) = s_expiry_secs s"
  proof (cases "qos = AtMostOnce")
    case True
    with assms(2) show ?thesis
      by (intro that [of "make_publish topic payload WireAtMostOnce None False False"])
        (auto simp: deliver_qos0 msg_view_def)
  next
    case False
    have "s_next_id s \<noteq> 0" using assms(1) by (simp add: session_ok_def)
    moreover have "msg_view (fresh_publish topic payload qos False (s_next_id s)) = (topic, payload, qos)"
      using False by (cases qos) (simp_all add: msg_view_def fresh_publish_def)
    ultimately show ?thesis
      using False assms(2)
      by (intro that [of "fresh_publish topic payload qos False (s_next_id s)"]) (auto simp: deliver_qos12)
  qed
  show "map send_view (snd so) = (case s_tx s of None \<Rightarrow> [] | Some ch \<Rightarrow> [Some (ch, topic, payload, qos)])"
    using so by (simp add: send_def send_view_def split: option.split)
  have "qos \<noteq> AtMostOnce \<Longrightarrow>
      entry_view (fresh_entry topic payload qos False (s_next_id s) now cfg) = Some (topic, payload, qos)"
    by (cases qos) (simp_all add: entry_view_def fresh_entry_def fresh_publish_def msg_view_def)
  with q show "\<exists>news. s_inflight (fst so) = s_inflight s @ news \<and>
      map entry_view news = (if qos = AtMostOnce then [] else [Some (topic, payload, qos)])"
    by auto
  show "s_client_id (fst so) = s_client_id s \<and> s_tx (fst so) = s_tx s \<and> s_generation (fst so) = s_generation s \<and>
      s_expiry_secs (fst so) = s_expiry_secs s"
    using sel by simp
qed

lemma gained_put:
  assumes ok: "hub_ok h" and get: "hm_get (by_id (h_sessions h)) cid = Some s"
    and d: "deliver s topic payload (min qos granted) False now (h_retry h) = Some so"
  shows "gained h (put_session_at h cid so) c (expected_queue topic payload qos [(cid, granted)] c)"
    and "map send_view (snd so) = map Some (expected_sends h topic payload qos [(cid, granted)])"
proof -
  note view = deliver_view [OF conjunct1 [OF hub_ok_session [OF ok get]] d]
  show "gained h (put_session_at h cid so) c (expected_queue topic payload qos [(cid, granted)] c)"
    using get view(2,3) by (auto simp: gained_def live_def expected_queue_def update_conv' split: option.split)
  show "map send_view (snd so) = map Some (expected_sends h topic payload qos [(cid, granted)])"
    using get view(1) by (simp add: expected_sends_def online_def split: option.split)
qed

lemma expected_cong:
  "(\<And>cid. online h1 cid = online h cid) \<Longrightarrow> expected_sends h1 topic payload qos targets = expected_sends h topic payload qos targets"
  by (simp add: expected_sends_def)

lemma expected_Cons:
  "expected_sends h topic payload qos (t # targets) =
     expected_sends h topic payload qos [t] @ expected_sends h topic payload qos targets"
  "expected_queue topic payload qos (t # targets) cid =
     expected_queue topic payload qos [t] cid @ expected_queue topic payload qos targets cid"
  by (simp_all add: expected_sends_def expected_queue_def map_filter_simps split: prod.split option.split)

lemma deliver_targets_view:
  assumes "hub_ok h" "deliver_targets h topic payload qos now targets = Some (h', bs, n)"
  shows "n = length (filter (\<lambda>(cid, _). live h cid) targets) \<and>
    (\<exists>new. h_outbox h' = h_outbox h @ new \<and> map send_view new = map Some (expected_sends h topic payload qos targets)) \<and>
    (\<forall>cid. gained h h' cid (expected_queue topic payload qos targets cid)) \<and>
    h_router h' = h_router h \<and> h_retained h' = h_retained h \<and> h_persist h' = h_persist h \<and>
    id_of (h_sessions h') = id_of (h_sessions h)"
  using assms
proof (induction targets arbitrary: h n bs)
  case Nil
  then show ?case by (simp add: expected_sends_def expected_queue_def map_filter_simps gained_refl)
next
  case (Cons t targets)
  obtain cid granted where t: "t = (cid, granted)" by fastforce
  show ?case
  proof (cases "hm_get (by_id (h_sessions h)) cid")
    case None
    then have none: "expected_sends h topic payload qos [t] = []" "\<not> live h cid"
      by (simp_all add: t expected_sends_def map_filter_simps online_def live_def)
    have rest: "deliver_targets h topic payload qos now targets = Some (h', bs, n)"
      using Cons.prems(2) None t by simp
    note IH = Cons.IH [OF Cons.prems(1) rest]
    have "gained h h' c (expected_queue topic payload qos (t # targets) c)" for c
      using IH None gained_dead [of h c h'] by (cases "c = cid") (auto simp: expected_queue_def t)
    moreover have "expected_sends h topic payload qos (t # targets) = expected_sends h topic payload qos targets"
      using none(1) expected_Cons(1) [of h topic payload qos t targets] by simp
    ultimately show ?thesis using IH none(2) by (simp add: t)
  next
    case (Some s)
    obtain so where so: "deliver s topic payload (min qos granted) False now (h_retry h) = Some so"
      "hub_ok (put_session_at h cid so)"
      by (rule hub_ok_deliver [OF Cons.prems(1) Some])
    let ?h = "put_session_at h cid so"
    obtain bs1 n1 where rest: "deliver_targets ?h topic payload qos now targets = Some (h', bs1, n1)" "n = n1 + 1"
      using Cons.prems(2) Some so t by (auto simp: Let_def bind_eq_Some_conv)
    note put = gained_put [OF Cons.prems(1) Some so(1)]
    have same: "online ?h c = online h c" "live ?h c = live h c" for c using gained_same [OF put(1)] by blast+
    note IH = Cons.IH [OF so(2) rest(1)]
    have "gained h h' c (expected_queue topic payload qos (t # targets) c)" for c
      using gained_trans [OF put(1) [of c]] IH expected_Cons(2) [of topic payload qos t targets c] t by metis
    moreover have "expected_sends h topic payload qos (t # targets) =
        expected_sends h topic payload qos [t] @ expected_sends ?h topic payload qos targets"
      using expected_Cons(1) [of h topic payload qos t targets] expected_cong [OF same(1)] by metis
    moreover have "live h cid" using Some by (simp add: live_def)
    ultimately show ?thesis using IH put(2) rest(2) by (force simp: t same(2))
  qed
qed

text \<open>The hub after the bookkeeping that \<open>publish\<close> does before it routes.\<close>

definition publish_logged ::
    "('s, 'u, 'e) Hub \<Rightarrow> string \<Rightarrow> bytes \<Rightarrow> QoS \<Rightarrow> bool \<Rightarrow> u64 \<Rightarrow> ('s, 'u, 'e) Hub" where
  "publish_logged h topic payload qos retain ts =
     (let h = (if retain then
                 enqueue (h\<lparr>h_retained := retained_apply (h_retained h)
                     \<lparr>m_topic = topic, m_payload = payload, m_qos = qos, m_retain = True\<rparr>\<rparr>)
                   (PutRetained topic payload qos)
               else h)
      in if 0 < h_event_log_max h \<and> \<not> starts_with ''$'' topic then
           enqueue h (AppendEvent (encode_event ts topic (qos_as_u8 qos) payload) (h_event_log_max h))
         else h)"

lemma publish_eq:
  "publish h topic payload qos retain now ts =
     (let h0 = publish_logged h topic payload qos retain ts; (targets, router) = route (h_router h) topic
      in map_option (\<lambda>(h', bs, n). (n, foldl write_inflight h' bs))
           (deliver_targets (h0\<lparr>h_router := router\<rparr>) topic payload qos now targets))"
proof -
  have "h_router (publish_logged h topic payload qos retain ts) = h_router h"
    by (simp add: publish_logged_def Let_def)
  then show ?thesis
    by (auto simp: publish_def publish_logged_def Let_def Option.bind_def map_option_case
        split: prod.split option.split)
qed

lemma publish_logged_sel [simp]:
  "h_sessions (publish_logged h topic payload qos retain ts) = h_sessions h"
  "h_router (publish_logged h topic payload qos retain ts) = h_router h"
  "h_outbox (publish_logged h topic payload qos retain ts) = h_outbox h"
  "h_retained (publish_logged h topic payload qos retain ts) =
     (if retain then retained_apply (h_retained h)
        \<lparr>m_topic = topic, m_payload = payload, m_qos = qos, m_retain = True\<rparr> else h_retained h)"
  by (simp_all add: publish_logged_def Let_def)

lemma hub_ok_logged: "hub_ok h \<Longrightarrow> hub_ok (publish_logged h topic payload qos retain ts)"
  by (auto simp: publish_logged_def Let_def) (auto simp: hub_ok_def)

lemma write_inflights_sel [simp]:
  "h_sessions (foldl write_inflight h bs) = h_sessions h" "h_router (foldl write_inflight h bs) = h_router h"
  "h_retained (foldl write_inflight h bs) = h_retained h" "h_outbox (foldl write_inflight h bs) = h_outbox h"
  by (induction bs arbitrary: h) simp_all

lemma views_cong:
  "h_sessions h1 = h_sessions h \<Longrightarrow> live h1 = live h" "h_sessions h1 = h_sessions h \<Longrightarrow> online h1 = online h"
  "h_sessions h1 = h_sessions h \<Longrightarrow> gained h1 = gained h"
  "h_sessions h1 = h_sessions h \<Longrightarrow> gained h0 h1 = gained h0 h"
  by (simp_all add: fun_eq_iff live_def online_def gained_def cong: option.case_cong)

lemma publish_view:
  assumes ok: "hub_ok h" and route: "route (h_router h) topic = (targets, router)"
    and pub: "publish h topic payload qos retain now ts = Some (n, h')"
  shows "n = length (filter (\<lambda>(cid, _). live h cid) targets) \<and>
    (\<exists>new. h_outbox h' = h_outbox h @ new \<and> map send_view new = map Some (expected_sends h topic payload qos targets)) \<and>
    (\<forall>cid. gained h h' cid (expected_queue topic payload qos targets cid)) \<and>
    h_router h' = router \<and> id_of (h_sessions h') = id_of (h_sessions h) \<and>
    h_retained h' = h_retained (publish_logged h topic payload qos retain ts)"
proof -
  let ?h = "(publish_logged h topic payload qos retain ts)\<lparr>h_router := router\<rparr>"
  have ok': "hub_ok ?h"
    using hub_ok_router [OF hub_ok_logged [OF ok]] router_ok_route [of "h_router h" topic] ok route
    by (simp add: hub_ok_def)
  obtain h1 bs where d: "deliver_targets ?h topic payload qos now targets = Some (h1, bs, n)"
    and h': "h' = foldl write_inflight h1 bs"
    using pub route by (auto simp: publish_eq Let_def)
  have s: "h_sessions ?h = h_sessions h" by simp
  have "expected_sends ?h topic payload qos targets = expected_sends h topic payload qos targets"
    by (simp add: expected_sends_def views_cong(2) [OF s])
  with deliver_targets_view [OF ok' d] show ?thesis
    by (simp add: h' views_cong(1,3) [OF s] views_cong(4) [of "foldl write_inflight h1 bs" h1])
qed

text \<open>
  C2. Publishing reaches exactly the routed targets. It always returns, reports the number of
  targets that have a session, and puts exactly one PUBLISH of the message into the channel of each
  target that is online, in routing order and at the lower of the published and the granted QoS.
  Each target granted an acknowledged delivery, online or not, gains exactly that message at the end
  of its in-flight queue; no other session changes, and no message already queued is touched. The
  retained store changes only for a retained message.
\<close>

theorem publish_correct:
  assumes "hub_ok h" and "route (h_router h) topic = (targets, router)"
  shows "\<exists>n h' new. publish h topic payload qos retain now ts = Some (n, h') \<and>
    n = length (filter (\<lambda>(cid, _). live h cid) targets) \<and>
    h_outbox h' = h_outbox h @ new \<and> map send_view new = map Some (expected_sends h topic payload qos targets) \<and>
    (\<forall>cid. gained h h' cid (expected_queue topic payload qos targets cid)) \<and>
    h_router h' = router \<and>
    h_retained h' = (if retain then retained_apply (h_retained h)
      \<lparr>m_topic = topic, m_payload = payload, m_qos = qos, m_retain = True\<rparr> else h_retained h)"
proof -
  obtain n h' where pub: "publish h topic payload qos retain now ts = Some (n, h')"
    using publish_total [OF assms(1)] by blast
  from publish_view [OF assms pub] pub show ?thesis by (simp cong: if_cong)
qed

lemma hub1_ok: "hub_ok hub1"
proof -
  have "connect hub0 ''c'' False 60 7 0 = Some (fst (the (connect hub0 ''c'' False 60 7 0)), hub1)"
    "h_next_id hub0 + 1 \<noteq> 0" "generation (h_sessions hub0) + 1 \<noteq> 0"
    by code_simp+
  with connect_ok [OF hub_ok_in_memory, of list_db small_retry 0 0 "''c''" False 60 7 0] show ?thesis
    by (auto simp: hub0_def)
qed

theorem publish_correct_witness:
  "\<exists>n h'. publish (hub_subscribe hub1 1 (TopicFilter ''a/#'') AtLeastOnce ''a/#'') ''a/b'' [9] ExactlyOnce False 0 0 =
     Some (n, h') \<and> n = 1 \<and>
     gained (hub_subscribe hub1 1 (TopicFilter ''a/#'') AtLeastOnce ''a/#'') h' 1 [(''a/b'', [9], AtLeastOnce)]"
proof -
  let ?h = "hub_subscribe hub1 1 (TopicFilter ''a/#'') AtLeastOnce ''a/#''"
  have ok: "hub_ok ?h" by (rule hub_ok_subscribe [OF hub1_ok])
  have targets: "fst (route (h_router ?h) ''a/b'') = [(1, AtLeastOnce)]" "live ?h 1 = True" by code_simp+
  then obtain router where route: "route (h_router ?h) ''a/b'' = ([(1, AtLeastOnce)], router)"
    by (cases "route (h_router ?h) ''a/b''") simp
  have "expected_queue ''a/b'' [9] ExactlyOnce [(1, AtLeastOnce)] 1 = [(''a/b'', [9], AtLeastOnce)]" by code_simp
  with publish_correct [OF ok route, of "[9]" ExactlyOnce False 0 0] targets(2) show ?thesis
    by (elim exE conjE) (intro exI conjI, assumption, simp, metis)
qed

section \<open>Expiry\<close>

text \<open>The dead letters queued for the disk, oldest first.\<close>

definition dead_rows :: "('s, 'u, 'e) Hub \<Rightarrow> bytes list" where
  "dead_rows h = (case h_persist h of
     None \<Rightarrow> []
   | Some ops \<Rightarrow> List.map_filter (\<lambda>op. case op of AppendDeadLetter blob \<Rightarrow> Some blob | _ \<Rightarrow> None) ops)"

definition dead_row :: "u64 \<Rightarrow> string \<Rightarrow> string \<Rightarrow> DeadMsg \<Rightarrow> bytes" where
  "dead_row ts client_id reason msg = encode_dead_letter ts client_id (p_topic (d_publish msg)) reason
     (d_attempts msg) (qos_as_u8 (to_core_qos (p_qos (d_publish msg)))) (p_payload (d_publish msg))"

lemma dead_rows_enqueue:
  "dead_rows (enqueue h op) = dead_rows h @
     (case op of AppendDeadLetter blob \<Rightarrow> if h_persist h = None then [] else [blob] | _ \<Rightarrow> [])"
  by (cases op; cases "h_persist h") (simp_all add: dead_rows_def map_filter_def)

lemma dead_rows_cong: "h_persist h1 = h_persist h \<Longrightarrow> dead_rows h1 = dead_rows h"
  by (simp add: dead_rows_def)

lemma dead_rows_publish:
  assumes "hub_ok h" "publish h topic payload qos retain now ts = Some (n, h')"
  shows "dead_rows h' = dead_rows h" and "(h_persist h' = None) = (h_persist h = None)"
proof -
  obtain targets router where route: "route (h_router h) topic = (targets, router)" by fastforce
  let ?h = "(publish_logged h topic payload qos retain ts)\<lparr>h_router := router\<rparr>"
  have ok: "hub_ok ?h"
    using hub_ok_router [OF hub_ok_logged [OF assms(1)]] router_ok_route [of "h_router h" topic] assms(1) route
    by (simp add: hub_ok_def)
  obtain h1 bs where d: "deliver_targets ?h topic payload qos now targets = Some (h1, bs, n)"
    and h': "h' = foldl write_inflight h1 bs"
    using assms(2) route by (auto simp: publish_eq Let_def)
  have h1: "h_persist h1 = h_persist (publish_logged h topic payload qos retain ts)"
    using deliver_targets_view [OF ok d] by simp
  have "dead_rows (foldl write_inflight h0 bs) = dead_rows h0 \<and>
      (h_persist (foldl write_inflight h0 bs) = None) = (h_persist h0 = None)" for h0 :: "('a, 'b, 'c) Hub"
    by (induction bs arbitrary: h0) (simp_all add: write_inflight_def dead_rows_enqueue)
  moreover have "dead_rows (publish_logged h topic payload qos retain ts) = dead_rows h"
    "(h_persist (publish_logged h topic payload qos retain ts) = None) = (h_persist h = None)"
    by (simp_all add: publish_logged_def Let_def dead_rows_enqueue dead_rows_cong [of "h\<lparr>h_retained := _\<rparr>" h])
  ultimately show "dead_rows h' = dead_rows h" "(h_persist h' = None) = (h_persist h = None)"
    using h1 dead_rows_cong [OF h1] by (simp_all add: h')
qed

text \<open>The same sessions exist, under the same client ids and with the same subscriptions.\<close>

definition same_table :: "('s, 'u, 'e) Hub \<Rightarrow> ('s, 'u, 'e) Hub \<Rightarrow> bool" where
  "same_table h h' \<longleftrightarrow> live h' = live h \<and> id_of (h_sessions h') = id_of (h_sessions h) \<and>
     normal_subs (h_router h') = normal_subs (h_router h) \<and> shared_subs (h_router h') = shared_subs (h_router h)"

lemma same_table_publish:
  assumes "hub_ok h" "publish h topic payload qos retain now ts = Some (n, h')"
  shows "same_table h h'"
proof -
  obtain targets router where route: "route (h_router h) topic = (targets, router)" by fastforce
  have "router = snd (route (h_router h) topic)" by (simp add: route)
  then show ?thesis
    using publish_view [OF assms(1) route assms(2)] gained_same by (fastforce simp: same_table_def fun_eq_iff)
qed

lemma dead_letter_view:
  assumes ok: "hub_ok h" and live: "\<not> is_dlq_topic (p_topic (d_publish msg))" and p: "h_persist h \<noteq> None"
    and dl: "dead_letter h c msg reason now ts = Some h'"
  shows "dead_rows h' = dead_rows h @ [dead_row ts c reason msg] \<and> h_persist h' \<noteq> None \<and> same_table h h' \<and> hub_ok h'"
proof -
  let ?h = "enqueue h (AppendDeadLetter (dead_row ts c reason msg))"
  obtain n where pub: "publish ?h (dlq_topic c (p_topic (d_publish msg))) (p_payload (d_publish msg))
      (to_core_qos (p_qos (d_publish msg))) False now ts = Some (n, h')"
    using dl live p by (auto simp: dead_letter_def Let_def dead_row_def)
  have "hub_ok ?h" using ok by simp
  note facts = dead_rows_publish [OF this pub] same_table_publish [OF this pub]
  have "hub_ok h'" using publish_total [OF \<open>hub_ok ?h\<close>] pub by (metis option.inject prod.inject)
  with facts p show ?thesis by (simp add: dead_rows_enqueue same_table_def views_cong(1) [of ?h h])
qed

lemma dead_letter_all_view:
  "hub_ok h \<Longrightarrow> list_all (\<lambda>m. \<not> is_dlq_topic (p_topic (d_publish m))) dead \<Longrightarrow> h_persist h \<noteq> None \<Longrightarrow>
     dead_letter_all h (map (Pair c) dead) reason now ts = Some h' \<Longrightarrow>
     dead_rows h' = dead_rows h @ map (dead_row ts c reason) dead \<and> same_table h h'"
proof (induction dead arbitrary: h)
  case Nil
  then show ?case by (simp add: same_table_def)
next
  case (Cons m dead)
  then obtain h1 where h1: "dead_letter h c m reason now ts = Some h1"
    "dead_letter_all h1 (map (Pair c) dead) reason now ts = Some h'"
    by (auto simp: bind_eq_Some_conv)
  from dead_letter_view [OF Cons.prems(1) _ Cons.prems(3) h1(1)] Cons.prems(2) Cons.IH [OF _ _ _ h1(2)]
  show ?case by (auto simp: same_table_def)
qed

lemma discard_view:
  assumes "hub_ok h" "hm_get (by_id (h_sessions h)) cid = Some s"
  shows "\<not> live (discard h cid) cid \<and> hm_get (id_of (h_sessions (discard h cid))) (s_client_id s) = None \<and>
    (\<forall>f. normal_subs (h_router (discard h cid)) (cid, f) = None) \<and>
    (\<forall>g f. shared_subs (h_router (discard h cid)) (g, cid, f) = None) \<and>
    dead_rows (discard h cid) = dead_rows h \<and> (h_persist (discard h cid) = None) = (h_persist h = None)"
proof -
  have id: "hm_get (id_of (h_sessions h)) (s_client_id s) = Some cid"
    and hm: "hm_ok (id_of (h_sessions h))" and router: "router_ok (h_router h)"
    using assms table_ok_index by (auto simp: hub_ok_def table_ok_def)
  have "hm_get (filter (\<lambda>(_, v). v \<noteq> cid) (id_of (h_sessions h))) (s_client_id s) = None"
    using hm_get_filter [OF hm] id by (simp add: case_prod_beta)
  with assms router show ?thesis
    by (simp add: discard_def Let_def live_def delete_conv' dead_rows_enqueue
        dead_rows_cong [of "h\<lparr>h_sessions := _, h_router := _\<rparr>" h])
qed

text \<open>
  C12. When a session expires, none of its messages is lost silently: the purge always returns, the
  session, its client id and all its subscriptions are gone, and exactly its undelivered messages
  (those not acknowledged by PUBACK or PUBREC, dead letters themselves apart) are appended to the
  dead letters, once each, in the order they were queued and with the number of their attempts.
\<close>

theorem expired_session_dead_letters:
  assumes "hub_ok h" and "hm_get (by_id (h_sessions h)) cid = Some s"
    and "s_tx s = None" and "h_persist h \<noteq> None"
  shows "\<exists>h'. purge_if_idle h cid (s_generation s) now ts = Some h' \<and> hub_ok h' \<and>
    \<not> live h' cid \<and> hm_get (id_of (h_sessions h')) (s_client_id s) = None \<and>
    (\<forall>f. normal_subs (h_router h') (cid, f) = None) \<and> (\<forall>g f. shared_subs (h_router h') (g, cid, f) = None) \<and>
    dead_rows h' = dead_rows h @ map (dead_row ts (s_client_id s) ''session_expired'') (List.map_filter dead_of (s_inflight s))"
proof -
  let ?h = "put_session_at h cid (snd (drain_undelivered s), [])"
  have dead: "fst (drain_undelivered s) = List.map_filter dead_of (s_inflight s)"
    by (simp add: drain_undelivered_def dead_of_def [abs_def])
  have ok: "hub_ok ?h"
    by (rule hub_ok_put_session_at [OF assms(1,2)])
      (use hub_ok_session [OF assms(1,2)] session_ok_drain [of s] in \<open>simp_all add: drain_undelivered_def\<close>)
  have get: "hm_get (by_id (h_sessions ?h)) cid = Some (snd (drain_undelivered s))"
    "s_client_id (snd (drain_undelivered s)) = s_client_id s"
    by (simp_all add: update_conv' drain_undelivered_def)
  obtain h' where h': "purge_if_idle h cid (s_generation s) now ts = Some h'" "hub_ok h'"
    using purge_ok [OF assms(1)] by blast
  then have all: "dead_letter_all (discard ?h cid) (map (Pair (s_client_id s)) (List.map_filter dead_of (s_inflight s)))
      ''session_expired'' now ts = Some h'"
    using assms(2,3) by (simp add: purge_if_idle_def Let_def dead case_prod_beta)
  have "list_all (\<lambda>m. \<not> is_dlq_topic (p_topic (d_publish m))) (List.map_filter dead_of (s_inflight s))"
    by (auto simp: list_all_iff set_map_filter dead_of_def drainable_def split: option.splits if_splits)
  note dl = dead_letter_all_view [OF hub_ok_discard [OF ok] this _ all]
  have "dead_rows ?h = dead_rows h" by (rule dead_rows_cong) simp
  with dl discard_view [OF ok get(1)] get(2) h' assms(4) show ?thesis by (auto simp: same_table_def)
qed

text \<open>A persistent hub whose only session went offline with one message in flight.\<close>

definition hub2 :: "((string \<times> bytes) list, (string \<times> u32) list, (u64 \<times> bytes) list) Hub" where
  "hub2 = hub_subscribe (hub1\<lparr>h_storage := Some empty_storage, h_persist := Some []\<rparr>) 1 (TopicFilter ''a'') AtLeastOnce ''a''"

definition hub3 :: "((string \<times> bytes) list, (string \<times> u32) list, (u64 \<times> bytes) list) Hub" where
  "hub3 = detach (snd (the (publish hub2 ''a'' [9] AtLeastOnce False 0 0))) 1 1"

lemma hub3_ok: "hub_ok hub3"
proof -
  have "hub_ok hub2" unfolding hub2_def
    by (rule hub_ok_subscribe) (use hub1_ok in \<open>simp add: hub_ok_def\<close>)
  then obtain n h where "publish hub2 ''a'' [9] AtLeastOnce False 0 0 = Some (n, h)" "hub_ok h"
    using publish_total by blast
  then show ?thesis by (simp add: hub3_def hub_ok_detach)
qed

theorem expired_session_dead_letters_witness:
  "\<exists>h'. purge_if_idle hub3 1 1 9 0 = Some h' \<and> \<not> live h' 1 \<and>
     dead_rows h' = [encode_dead_letter 0 ''c'' ''a'' ''session_expired'' 1 1 [9]]"
proof -
  define s where "s = the (hm_get (by_id (h_sessions hub3)) 1)"
  have get: "hm_get (by_id (h_sessions hub3)) 1 = Some s" unfolding s_def by code_simp
  have off: "s_tx s = None" "h_persist hub3 \<noteq> None" "s_generation s = 1" "s_client_id s = ''c''"
    unfolding s_def by code_simp+
  have rows: "dead_rows hub3 @ map (dead_row 0 (s_client_id s) ''session_expired'') (List.map_filter dead_of (s_inflight s)) =
      [encode_dead_letter 0 ''c'' ''a'' ''session_expired'' 1 1 [9]]"
    unfolding s_def by code_simp
  from expired_session_dead_letters [OF hub3_ok get off(1,2), of 9 0] off(3) rows show ?thesis by auto
qed

section \<open>Connecting\<close>

text \<open>The three ways a CONNECT goes.\<close>

lemma connect_none:
  assumes "hm_get (id_of (h_sessions h)) c = None"
  obtains h' where "connect h c clean expiry tx now =
      Some (\<lparr>cn_id = h_next_id h, cn_generation = generation (h_sessions h) + 1, cn_session_present = False\<rparr>, h')"
    "by_id (h_sessions h') = hm_insert (h_next_id h)
       (session_new c (Some tx) expiry (generation (h_sessions h) + 1)) (by_id (h_sessions h))"
    "id_of (h_sessions h') = hm_insert c (h_next_id h) (id_of (h_sessions h))"
    "h_router h' = h_router h" "h_outbox h' = h_outbox h"
  using assms by (simp add: connect_def Let_def)

lemma connect_clean:
  assumes "hm_get (id_of (h_sessions h)) c = Some old"
  obtains h' where "connect h c True expiry tx now =
      Some (\<lparr>cn_id = h_next_id h, cn_generation = generation (h_sessions h) + 1, cn_session_present = False\<rparr>, h')"
    "by_id (h_sessions h') = hm_insert (h_next_id h)
       (session_new c (Some tx) expiry (generation (h_sessions h) + 1)) (hm_remove old (by_id (h_sessions h)))"
    "id_of (h_sessions h') = hm_insert c (h_next_id h) (id_of (h_sessions h))"
    "h_router h' = remove_client (h_router h) old" "h_outbox h' = h_outbox h"
  using assms by (simp add: connect_def Let_def forget_persisted_def)

lemma connect_resume:
  assumes "hm_get (id_of (h_sessions h)) c = Some old" "hm_get (by_id (h_sessions h)) old = Some s"
  obtains h' where "connect h c False expiry tx now =
      Some (\<lparr>cn_id = old, cn_generation = generation (h_sessions h) + 1, cn_session_present = True\<rparr>, h')"
    "by_id (h_sessions h') = hm_insert old
       (fst (session_attach s tx expiry (generation (h_sessions h) + 1) now (h_retry h))) (by_id (h_sessions h))"
    "id_of (h_sessions h') = id_of (h_sessions h)"
    "h_router h' = h_router h"
    "h_outbox h' = h_outbox h @ snd (session_attach s tx expiry (generation (h_sessions h) + 1) now (h_retry h))"
  using assms by (simp add: connect_def Let_def)

lemma session_attach_view:
  "snd (session_attach s tx expiry gen now cfg) = map (\<lambda>e. (tx, resend_packet (e_state e))) (s_inflight s)"
  "map e_state (s_inflight (fst (session_attach s tx expiry gen now cfg))) = map e_state (s_inflight s)"
  "s_next_id (fst (session_attach s tx expiry gen now cfg)) = s_next_id s"
  "s_incoming_qos2 (fst (session_attach s tx expiry gen now cfg)) = s_incoming_qos2 s"
  by (simp_all add: session_attach_def Let_def retransmit_eq comp_def send_def concat_map_singleton)

text \<open>What became of the session that \<open>c\<close> had before.\<close>

definition taken_over ::
    "('s, 'u, 'e) Hub \<Rightarrow> ('s, 'u, 'e) Hub \<Rightarrow> string \<Rightarrow> bool \<Rightarrow> chan \<Rightarrow> ClientId \<Rightarrow> Session \<Rightarrow> bool" where
  "taken_over h h' c clean tx cid s' \<longleftrightarrow>
     (case hm_get (id_of (h_sessions h)) c of
        None \<Rightarrow> s_inflight s' = [] \<and> h_outbox h' = h_outbox h
      | Some old \<Rightarrow>
          if clean then
            s_inflight s' = [] \<and> h_outbox h' = h_outbox h \<and> \<not> live h' old \<and>
            (\<forall>f. normal_subs (h_router h') (old, f) = None) \<and> (\<forall>g f. shared_subs (h_router h') (g, old, f) = None)
          else
            \<exists>s. hm_get (by_id (h_sessions h)) old = Some s \<and> cid = old \<and> h_router h' = h_router h \<and>
              s_next_id s' = s_next_id s \<and> s_incoming_qos2 s' = s_incoming_qos2 s \<and>
              map e_state (s_inflight s') = map e_state (s_inflight s) \<and>
              h_outbox h' = h_outbox h @ map (\<lambda>e. (tx, resend_packet (e_state e))) (s_inflight s))"

text \<open>
  The client id belongs to the session \<open>s'\<close>, online on the new channel under the next generation; the
  flag tells whether it was resumed, and only the sessions of this client id changed.
\<close>

definition attached ::
    "('s, 'u, 'e) Hub \<Rightarrow> ('s, 'u, 'e) Hub \<Rightarrow> string \<Rightarrow> bool \<Rightarrow> u32 \<Rightarrow> chan \<Rightarrow> Connected \<Rightarrow> Session \<Rightarrow> bool" where
  "attached h h' c clean expiry tx cn s' \<longleftrightarrow>
     (cn_session_present cn \<longleftrightarrow> \<not> clean \<and> hm_get (id_of (h_sessions h)) c \<noteq> None) \<and>
     hm_get (id_of (h_sessions h')) c = Some (cn_id cn) \<and> hm_get (by_id (h_sessions h')) (cn_id cn) = Some s' \<and>
     s_tx s' = Some tx \<and> s_expiry_secs s' = expiry \<and>
     s_generation s' = generation (h_sessions h) + 1 \<and> cn_generation cn = generation (h_sessions h) + 1 \<and>
     (\<forall>cid. cid \<noteq> cn_id cn \<and> hm_get (id_of (h_sessions h)) c \<noteq> Some cid \<longrightarrow>
        hm_get (by_id (h_sessions h')) cid = hm_get (by_id (h_sessions h)) cid)"

lemma attached_new:
  assumes "hub_ok h" "hm_get (id_of (h_sessions h)) c = None \<or> clean"
  shows "\<exists>cn h' s'. connect h c clean expiry tx now = Some (cn, h') \<and>
    attached h h' c clean expiry tx cn s' \<and> taken_over h h' c clean tx (cn_id cn) s'"
proof (cases "hm_get (id_of (h_sessions h)) c")
  case None
  show ?thesis
    by (rule connect_none [OF None, of clean expiry tx now], rule exI, rule exI,
        rule exI [of _ "session_new c (Some tx) expiry (generation (h_sessions h) + 1)"], intro conjI, assumption)
      (simp_all add: None update_conv' session_new_def taken_over_def attached_def)
next
  case (Some old)
  have t: "table_ok (h_sessions h) (h_next_id h)" and r: "router_ok (h_router h)"
    using assms(1) by (simp_all add: hub_ok_def)
  then obtain s where s: "hm_get (by_id (h_sessions h)) old = Some s" using Some unfolding table_ok_def by metis
  have old: "old \<noteq> h_next_id h" using table_ok_fresh [OF t] s by auto
  have clean: "clean = True" using assms(2) Some by simp
  show ?thesis unfolding clean
    by (rule connect_clean [OF Some, of expiry tx now], rule exI, rule exI,
        rule exI [of _ "session_new c (Some tx) expiry (generation (h_sessions h) + 1)"], intro conjI, assumption)
      (use old r in \<open>simp_all add: Some update_conv' delete_conv' session_new_def taken_over_def live_def attached_def\<close>)
qed

lemma attached_resumed:
  assumes "hub_ok h" "hm_get (id_of (h_sessions h)) c = Some old"
  shows "\<exists>cn h' s'. connect h c False expiry tx now = Some (cn, h') \<and>
    attached h h' c False expiry tx cn s' \<and> taken_over h h' c False tx (cn_id cn) s'"
proof -
  obtain s where s: "hm_get (by_id (h_sessions h)) old = Some s"
    using assms unfolding hub_ok_def table_ok_def by metis
  show ?thesis
    by (rule connect_resume [OF assms(2) s, of expiry tx now], rule exI, rule exI,
        rule exI [of _ "fst (session_attach s tx expiry (generation (h_sessions h) + 1) now (h_retry h))"],
        intro conjI, assumption)
      (simp_all add: assms(2) s update_conv' session_attach_sel session_attach_view taken_over_def attached_def)
qed

text \<open>
  A session that is online under a generation cannot be detached by a connection of another
  generation, nor purged by any timer.
\<close>

lemma stale_no_effect:
  assumes "hm_get (by_id (h_sessions h)) cid = Some s" "s_tx s = Some tx"
  shows "gen \<noteq> s_generation s \<Longrightarrow> detach h cid gen = h" and "purge_if_idle h cid gen now ts = Some h"
  using assms by (simp_all add: detach_def purge_if_idle_def)



section \<open>The order of snapshots\<close>

text \<open>
  A snapshot of a queue is taken under the lock of the sessions and queued for the disk after the
  lock is released. When a publication runs in between, the older snapshot is written last: the
  session holds a message that the disk does not, and a restart loses it.
\<close>

lemma late_snapshot_drops_message:
  "(let h = snd (the (publish hub2 ''a'' [1] AtLeastOnce False 0 0));
        (h, snapshot) = locked_ack h 1 (\<lambda>s. (session_on_puback s 1, []));
        h = snd (the (publish h ''a'' [2] AtLeastOnce False 0 0));
        h = write_snapshot h snapshot
    in (map_option (\<lambda>s. map entry_view (s_inflight s)) (hm_get (by_id (h_sessions h)) 1),
        map_option (\<lambda>ops. (case last ops of
            PutInflight c blob \<Rightarrow> (c, decode_inflight blob 0 small_retry) | _ \<Rightarrow> ([], None))) (h_persist h))) =
   (Some [Some (''a'', [2], AtLeastOnce)], Some (''c'', Some (2, [])))"
  by code_simp

end
