(* ===== verification/Inbound_Qos2.thy ===== *)
theory Inbound_Qos2
  imports Connection_Safety Hub_Delivery
begin

text \<open>
  What the receiving side of QoS 2 promises, across \<open>connection.rs\<close> and \<open>hub.rs\<close>: a message that a
  client sends again before it has released its packet id is acknowledged again and not routed again,
  whatever else happens in the hub in between.
\<close>

section \<open>The identifiers a session waits to have released\<close>

definition awaiting :: "('s, 'u, 'e) Hub \<Rightarrow> ClientId \<Rightarrow> u16 set option" where
  "awaiting h cid = map_option s_incoming_qos2 (hm_get (by_id (h_sessions h)) cid)"

lemma awaiting_cong: "h_sessions h' = h_sessions h \<Longrightarrow> awaiting h' = awaiting h"
  by (simp add: awaiting_def [abs_def])

lemma awaiting_put: "awaiting (put_session_at h cid so) = (awaiting h)(cid \<mapsto> s_incoming_qos2 (fst so))"
  by (auto simp: awaiting_def [abs_def] fun_eq_iff update_conv')

lemma awaiting_put_same:
  "hm_get (by_id (h_sessions h)) cid = Some s \<Longrightarrow> s_incoming_qos2 (fst so) = s_incoming_qos2 s \<Longrightarrow>
     awaiting (put_session_at h cid so) = awaiting h"
  by (auto simp: awaiting_put awaiting_def fun_eq_iff)

lemma sessions_write_inflights [simp]: "h_sessions (foldl write_inflight h bs) = h_sessions h"
  by (induction bs arbitrary: h) auto

lemma sessions_write_snapshot [simp]: "h_sessions (write_snapshot h b) = h_sessions h"
  by (simp add: write_snapshot_def split: option.split)

lemma awaiting_sel [simp]:
  "awaiting (h\<lparr>h_timers := t\<rparr>) = awaiting h" "awaiting (h\<lparr>h_outbox := out\<rparr>) = awaiting h"
  "awaiting (write_snapshot h b) = awaiting h" "awaiting (foldl write_inflight h bs) = awaiting h"
  by (rule awaiting_cong, simp)+

lemma deliver_ids: "deliver s topic payload qos retain now cfg = Some so \<Longrightarrow> s_incoming_qos2 (fst so) = s_incoming_qos2 s"
  by (cases "qos = AtMostOnce"; cases "s_next_id s = 0") (auto simp: deliver_qos0 deliver_qos12 deliver_panics_iff [THEN iffD2])

lemma awaiting_deliver_targets:
  "deliver_targets h topic payload qos now targets = Some (h', p, n) \<Longrightarrow> awaiting h' = awaiting h"
proof (induction h topic payload qos now targets arbitrary: h' p n rule: deliver_targets.induct)
  case (2 h topic payload qos now cid granted targets)
  show ?case
  proof (cases "hm_get (by_id (h_sessions h)) cid")
    case None
    with 2 show ?thesis by simp
  next
    case (Some s)
    with 2(3) obtain so p' n' where so: "deliver s topic payload (min qos granted) False now (h_retry h) = Some so"
        "deliver_targets (put_session_at h cid so) topic payload qos now targets = Some (h', p', n')"
      by (auto simp: Let_def Option.bind_eq_Some_conv split: option.splits)
    with 2(2) [OF Some refl so(1) refl] Some deliver_ids [OF so(1)] show ?thesis
      by (simp add: awaiting_put_same)
  qed
qed simp

lemma awaiting_publish: "publish h topic payload qos retain now ts = Some (n, h') \<Longrightarrow> awaiting h' = awaiting h"
proof -
  assume pub: "publish h topic payload qos retain now ts = Some (n, h')"
  let ?h1 = "if retain then enqueue (h\<lparr>h_retained := retained_apply (h_retained h)
      \<lparr>m_topic = topic, m_payload = payload, m_qos = qos, m_retain = True\<rparr>\<rparr>) (PutRetained topic payload qos) else h"
  define h2 where "h2 = (if 0 < h_event_log_max ?h1 \<and> \<not> starts_with ''$'' topic then
      enqueue ?h1 (AppendEvent (encode_event ts topic (qos_as_u8 qos) payload) (h_event_log_max ?h1)) else ?h1)"
  define h3 where "h3 = h2\<lparr>h_router := snd (route (h_router h2) topic)\<rparr>"
  have "h_sessions h3 = h_sessions h" by (simp add: h3_def h2_def)
  then have h3: "awaiting h3 = awaiting h" by (rule awaiting_cong)
  from pub have "h' = h3 \<or> (\<exists>h4 p. deliver_targets h3 topic payload qos now (fst (route (h_router h2) topic)) = Some (h4, p, n) \<and>
      h' = foldl write_inflight h4 p)"
    unfolding publish_def Let_def h2_def [symmetric] h3_def
    by (simp add: case_prod_beta Option.bind_eq_Some_conv split: if_splits) metis
  then show ?thesis
    using h3 awaiting_deliver_targets [of h3] by (metis awaiting_sel(4))
qed

lemma awaiting_dead_letter: "dead_letter h c m reason now ts = Some h' \<Longrightarrow> awaiting h' = awaiting h"
proof -
  assume dead: "dead_letter h c m reason now ts = Some h'"
  show ?thesis
  proof (cases "is_dlq_topic (p_topic (d_publish m))")
    case False
    let ?q = "to_core_qos (p_qos (d_publish m))"
    let ?h = "if h_persist h \<noteq> None then enqueue h (AppendDeadLetter (encode_dead_letter ts c (p_topic (d_publish m)) reason
        (d_attempts m) (qos_as_u8 ?q) (p_payload (d_publish m)))) else h"
    from dead False have "\<exists>n. publish ?h (dlq_topic c (p_topic (d_publish m))) (p_payload (d_publish m)) ?q False now ts = Some (n, h')"
      unfolding dead_letter_def Let_def by auto
    moreover have "awaiting ?h = awaiting h" by (rule awaiting_cong) simp
    ultimately show ?thesis using awaiting_publish by metis
  qed (use dead in \<open>simp add: dead_letter_def\<close>)
qed

lemma awaiting_dead_letters: "dead_letter_all h dead reason now ts = Some h' \<Longrightarrow> awaiting h' = awaiting h"
proof (induction dead arbitrary: h)
  case (Cons d dead)
  then show ?case by (cases d) (auto simp: Option.bind_eq_Some_conv dest: awaiting_dead_letter)
qed simp

lemma awaiting_discard: "awaiting (discard h cid) = (awaiting h)(cid := None)"
  by (auto simp: discard_def Let_def awaiting_def [abs_def] fun_eq_iff delete_conv' split: option.split)

lemma awaiting_detach: "awaiting (detach h c gen) cid = awaiting h cid \<or> awaiting (detach h c gen) cid = None"
proof (cases "hm_get (by_id (h_sessions h)) c")
  case (Some s)
  then have "awaiting (put_session_at h c (session_detach s, [])) = awaiting h"
    by (simp add: awaiting_put_same session_detach_def)
  then show ?thesis using Some
    by (auto simp: detach_def Let_def awaiting_discard)
qed (simp add: detach_def)

lemma awaiting_purge:
  assumes "purge_if_idle h c gen now ts = Some h'"
  shows "awaiting h' cid = awaiting h cid \<or> awaiting h' cid = None"
proof (cases "hm_get (by_id (h_sessions h)) c")
  case None
  with assms show ?thesis by (simp add: purge_if_idle_def)
next
  case (Some s)
  have "awaiting (put_session_at h c (snd (drain_undelivered s), [])) = awaiting h"
    using Some by (simp add: awaiting_put_same drain_undelivered_def)
  then show ?thesis using Some assms
    by (auto simp: purge_if_idle_def awaiting_discard Let_def case_prod_beta dest!: awaiting_dead_letters split: if_splits)
qed

lemma awaiting_retries: "run_retries h now ts = Some h' \<Longrightarrow> awaiting h' = awaiting h"
proof -
  assume run: "run_retries h now ts = Some h'"
  obtain table dead bs out where loop: "retries_loop h now (by_id (h_sessions h)) = (table, dead, bs, out)"
    by (metis prod_cases4)
  then have table: "table = map (\<lambda>(cid, s). (cid, ticked now (h_retry h) s)) (by_id (h_sessions h))"
    using retries_loop_table [of h now "by_id (h_sessions h)"] by simp
  have "s_incoming_qos2 (ticked now (h_retry h) s) = s_incoming_qos2 s" for s
    by (simp add: ticked_def tick_retries_def Let_def split: prod.split)
  then have "map_option s_incoming_qos2 (hm_get table cid) = awaiting h cid" for cid
    by (simp add: table hm_get_map_snd awaiting_def option.map_comp comp_def)
  with run loop show ?thesis
    by (auto simp: run_retries_def Let_def awaiting_def [abs_def] dest!: awaiting_dead_letters)
qed

lemma awaiting_connect:
  assumes "hub_ok h" "connect h c clean expiry tx now = Some (cn, h')" "awaiting h cid \<noteq> None"
  shows "awaiting h' cid = awaiting h cid \<or> awaiting h' cid = None"
proof -
  have "cid \<noteq> h_next_id h" using assms(1,3) table_ok_fresh by (auto simp: hub_ok_def awaiting_def)
  moreover have "s_incoming_qos2 (fst (session_attach s tx expiry gen now cfg)) = s_incoming_qos2 s" for s gen cfg
    by (rule session_attach_view)
  ultimately show ?thesis using assms(2)
    by (auto simp: connect_def Let_def forget_persisted_def awaiting_def update_conv' delete_conv' split: option.splits if_splits)
qed

lemma retained_loop_ids:
  "retained_loop s msgs granted now cfg = Some (s', out, any) \<Longrightarrow> s_incoming_qos2 s' = s_incoming_qos2 s"
proof (induction msgs arbitrary: s out any)
  case (Cons m msgs)
  then show ?case by (auto simp: Let_def Option.bind_eq_Some_conv dest!: deliver_ids)
qed simp

lemma awaiting_retained: "deliver_retained h c flt granted now = Some h' \<Longrightarrow> awaiting h' = awaiting h"
  by (auto simp: deliver_retained_def Let_def Option.bind_eq_Some_conv awaiting_put_same
      dest!: retained_loop_ids split: if_splits option.splits)

lemma awaiting_ack:
  assumes "\<And>s. s_incoming_qos2 (fst (f s)) = s_incoming_qos2 s"
  shows "awaiting (fst (locked_ack h c f)) = awaiting h"
  using assms by (auto simp: locked_ack_def Let_def awaiting_put_same split: option.split)

lemma pubrec_ids: "s_incoming_qos2 (fst (session_on_pubrec s pid)) = s_incoming_qos2 s"
  by (simp add: session_on_pubrec_def Let_def split: option.split prod.split)

lemma awaiting_acks:
  "awaiting (on_puback h c pid) = awaiting h" "awaiting (on_pubrec h c pid) = awaiting h"
  "awaiting (on_pubcomp h c pid) = awaiting h"
  using awaiting_ack [of "\<lambda>s. (session_on_puback s pid, [])" h c] awaiting_ack [of "\<lambda>s. session_on_pubrec s pid" h c]
    awaiting_ack [of "\<lambda>s. (session_on_pubcomp s pid, [])" h c]
  by (simp_all add: on_puback_def on_pubrec_def on_pubcomp_def case_prod_beta session_on_puback_def
      session_on_pubcomp_def pubrec_ids)

lemma awaiting_subs:
  "awaiting (hub_subscribe h c flt qos raw) = awaiting h" "awaiting (hub_subscribe_shared h grp c flt qos raw) = awaiting h"
  "awaiting (snd (hub_unsubscribe h c raw)) = awaiting h" "awaiting (snd (replay db h c since flt)) = awaiting h"
  "awaiting (hub_flush h) = awaiting h"
  by (auto simp: hub_subscribe_def hub_subscribe_shared_def hub_unsubscribe_def persist_subscription_def replay_def
      hub_flush_def Let_def intro!: awaiting_cong split: option.split prod.split)

lemma awaiting_worker: "worker_step db h = Some h' \<Longrightarrow> awaiting h' = awaiting h"
  by (auto simp: worker_step_def intro!: awaiting_cong split: option.splits list.splits)

lemma awaiting_seen:
  "awaiting (snd (inbound_qos2_seen h c pid)) =
     (\<lambda>cid. if cid = c then map_option (insert pid) (awaiting h c) else awaiting h cid)"
  by (auto simp: inbound_qos2_seen_def qos2_seen_def awaiting_def fun_eq_iff update_conv' split: option.split)

lemma awaiting_release:
  "awaiting (inbound_qos2_release h c pid) =
     (\<lambda>cid. if cid = c then map_option (\<lambda>ids. ids - {pid}) (awaiting h c) else awaiting h cid)"
  by (auto simp: inbound_qos2_release_def qos2_release_def awaiting_def fun_eq_iff update_conv' split: option.split)

section \<open>Exactly once\<close>

definition is_awaiting :: "('s, 'u, 'e) Hub \<Rightarrow> ClientId \<Rightarrow> u16 \<Rightarrow> bool" where
  "is_awaiting h cid pid \<longleftrightarrow> (case awaiting h cid of Some ids \<Rightarrow> pid \<in> ids | None \<Rightarrow> False)"

lemma live_iff_awaiting: "live h cid \<longleftrightarrow> awaiting h cid \<noteq> None"
  by (simp add: live_def awaiting_def)

lemma is_awaiting_step:
  assumes "hub_step db h h'" "hub_ok h" "is_awaiting h cid pid" "h' \<noteq> inbound_qos2_release h cid pid" "live h' cid"
  shows "is_awaiting h' cid pid"
proof -
  have same: ?thesis if "awaiting h' cid = awaiting h cid \<or> awaiting h' cid = None"
    using that assms(3,5) by (auto simp: is_awaiting_def live_iff_awaiting)
  have set: "awaiting h cid \<noteq> None" using assms(3) by (auto simp: is_awaiting_def split: option.splits)
  from assms(1) show ?thesis
  proof cases
    case (step_connect c clean expiry tx now cn)
    then show ?thesis by (intro same awaiting_connect [OF assms(2) _ set])
  next
    case (step_purge c gen now ts)
    then show ?thesis by (intro same awaiting_purge)
  next
    case (step_seen c p)
    then show ?thesis using assms(3) by (auto simp: is_awaiting_def awaiting_seen split: option.splits)
  next
    case (step_release c p)
    then have "c \<noteq> cid \<or> p \<noteq> pid" using assms(4) by blast
    then show ?thesis using step_release assms(3) by (auto simp: is_awaiting_def awaiting_release split: option.splits)
  qed (use same in \<open>auto simp: awaiting_detach awaiting_subs awaiting_acks
      dest: awaiting_retries awaiting_publish awaiting_retained awaiting_worker\<close>)
qed

text \<open>
  Any operations of the hub, on behalf of any connection or timer, as long as the session lives and
  its client does not release the identifier.
\<close>

definition unreleased_step ::
    "('s, 'u, 'e) Redb \<Rightarrow> ClientId \<Rightarrow> u16 \<Rightarrow> ('s, 'u, 'e) Hub \<Rightarrow> ('s, 'u, 'e) Hub \<Rightarrow> bool" where
  "unreleased_step db cid pid h h' \<longleftrightarrow> hub_step db h h' \<and> live h' cid \<and> h' \<noteq> inbound_qos2_release h cid pid"

lemma is_awaiting_steps:
  "(unreleased_step db cid pid)\<^sup>*\<^sup>* h h' \<Longrightarrow> hub_ok h \<Longrightarrow> is_awaiting h cid pid \<Longrightarrow> hub_ok h' \<and> is_awaiting h' cid pid"
  by (induction rule: rtranclp_induct) (auto simp: unreleased_step_def intro: hub_step_ok is_awaiting_step)

lemma update_same: "map_of xs k = Some v \<Longrightarrow> AList.update k v xs = xs"
  by (induction xs) (auto split: if_splits)

lemma seen_again: "is_awaiting h cid pid \<Longrightarrow> inbound_qos2_seen h cid pid = (False, h)"
  by (auto simp: is_awaiting_def awaiting_def inbound_qos2_seen_def qos2_seen_def put_session_at_def insert_absorb update_same
      split: option.splits)

lemma seen_first: "\<not> is_awaiting h cid pid \<Longrightarrow> fst (inbound_qos2_seen h cid pid)"
  by (auto simp: is_awaiting_def awaiting_def inbound_qos2_seen_def qos2_seen_def split: option.splits)

text \<open>
  A QoS 2 PUBLISH of the session \<open>cid\<close> with packet id \<open>pid\<close>, which is neither a request for a replay
  nor denied.
\<close>

definition qos2_publish :: "Conn \<Rightarrow> ClientId \<Rightarrow> u16 \<Rightarrow> Publish \<Rightarrow> bool" where
  "qos2_publish c cid pid p \<longleftrightarrow> cs_session_id c = Some cid \<and> p_qos p = WireExactlyOnce \<and> p_packet_id p = Some pid \<and>
     strip_prefix ''$replay/'' (p_topic p) = None \<and> can_publish (cs_access c) (p_topic p)"

lemma handle_qos2_publish:
  "qos2_publish c cid pid p \<Longrightarrow> handle_packet cx tk c h (PktPublish p) =
     (let (first, h) = inbound_qos2_seen h cid pid
      in if first then do {
             (n, h) \<leftarrow> publish h (p_topic p) (p_payload p) ExactlyOnce (p_retain p) (tk_now tk) (tk_ts tk);
             respond tk c h (pubrec pid) }
         else respond tk c h (pubrec pid))"
  by (simp add: qos2_publish_def handle_packet_def on_publish_def on_publish_routed_def Let_def to_core_qos_def)

text \<open>
  C8. An inbound QoS 2 message is routed once. The first PUBLISH with a packet id is routed, once, and
  answered with PUBREC. Whatever the hub does for others and for this session afterwards, taking the
  session over by a new connection included, a PUBLISH with the same packet id is answered with
  PUBREC and leaves the hub exactly as it is, until the client releases the id: PUBREL is answered
  with PUBCOMP, and from then on the id stands for a new message.
\<close>

theorem inbound_qos2_once:
  assumes "hub_ok h" "live h cid" "\<not> is_awaiting h cid pid" "qos2_publish c cid pid p" "qos2_publish c2 cid pid p2"
  shows "\<exists>n h1. publish (snd (inbound_qos2_seen h cid pid)) (p_topic p) (p_payload p) ExactlyOnce (p_retain p)
        (tk_now tk) (tk_ts tk) = Some (n, h1) \<and>
      handle_packet cx tk c h (PktPublish p) = respond tk c h1 (pubrec pid) \<and>
      (\<forall>h2. (unreleased_step db cid pid)\<^sup>*\<^sup>* h1 h2 \<longrightarrow>
         handle_packet cx2 tk2 c2 h2 (PktPublish p2) = respond tk2 c2 h2 (pubrec pid) \<and>
         handle_packet cx2 tk2 c2 h2 (PktPublishRelease pid) =
           respond tk2 c2 (inbound_qos2_release h2 cid pid) (pubcomp pid) \<and>
         \<not> is_awaiting (inbound_qos2_release h2 cid pid) cid pid)"
proof -
  have seen: "inbound_qos2_seen h cid pid = (True, snd (inbound_qos2_seen h cid pid))"
    using seen_first [OF assms(3)] by (metis prod.collapse)
  let ?h = "snd (inbound_qos2_seen h cid pid)"
  obtain n h1 where pub: "publish ?h (p_topic p) (p_payload p) ExactlyOnce (p_retain p) (tk_now tk) (tk_ts tk) = Some (n, h1)"
      and ok: "hub_ok h1"
    using publish_total [OF hub_ok_qos2(1) [OF assms(1)]] by blast
  have "is_awaiting h1 cid pid"
    using assms(2) awaiting_publish [OF pub] by (auto simp: is_awaiting_def awaiting_seen live_iff_awaiting)
  then have again: "is_awaiting h2 cid pid" if "(unreleased_step db cid pid)\<^sup>*\<^sup>* h1 h2" for h2
    using is_awaiting_steps [OF that ok] by blast
  have "\<not> is_awaiting (inbound_qos2_release h2 cid pid) cid pid" for h2 :: "('a, 'b, 'c) Hub"
    by (auto simp: is_awaiting_def awaiting_release split: option.split)
  moreover have "handle_packet cx tk c h (PktPublish p) = respond tk c h1 (pubrec pid)"
    unfolding handle_qos2_publish [OF assms(4)] by (subst seen) (simp add: pub)
  moreover have "handle_packet cx2 tk2 c2 h2 (PktPublish p2) = respond tk2 c2 h2 (pubrec pid)"
    if "(unreleased_step db cid pid)\<^sup>*\<^sup>* h1 h2" for h2
    unfolding handle_qos2_publish [OF assms(5)] by (simp add: seen_again [OF again [OF that]])
  moreover have "handle_packet cx2 tk2 c2 h2 (PktPublishRelease pid) =
      respond tk2 c2 (inbound_qos2_release h2 cid pid) (pubcomp pid)" for h2
    using assms(5) by (simp add: qos2_publish_def handle_packet_def on_publish_release_def on_session_def)
  ultimately show ?thesis using pub by blast
qed

definition conn5 :: Conn where
  "conn5 = conn_init\<lparr>cs_session_id := Some 1, cs_access := acl_default\<lparr>acl_publish := [''#'']\<rparr>\<rparr>"

definition publish5 :: Publish where
  "publish5 = \<lparr>p_dup = False, p_retain = False, p_qos = WireExactlyOnce, p_topic = ''t'', p_packet_id = Some 5,
     p_payload = [7], p_user_properties = []\<rparr>"

theorem inbound_qos2_once_witness:
  "\<exists>h1. handle_packet cx0 tick0 conn5 hub1 (PktPublish publish5) = Some (Continue, conn5, h1, [pubrec 5]) \<and>
     handle_packet cx0 tick0 conn5 (hub_flush h1) (PktPublish publish5) = Some (Continue, conn5, hub_flush h1, [pubrec 5])"
proof -
  have "hub_ok hub0" unfolding hub0_def by (rule hub_ok_in_memory)
  have hub1: "hub_ok hub1"
    using connect_ok [OF \<open>hub_ok hub0\<close>, of "''c''" False 60 7 0] unfolding hub1_def by (force simp: hub0_def hub_new_def loaded_empty_def)
  have live: "live hub1 1" "\<not> is_awaiting hub1 1 5" by code_simp+
  have p: "qos2_publish conn5 1 5 publish5" by code_simp
  obtain n h1 where h1: "publish (snd (inbound_qos2_seen hub1 1 5)) (p_topic publish5) (p_payload publish5) ExactlyOnce
        (p_retain publish5) (tk_now tick0) (tk_ts tick0) = Some (n, h1)"
      "handle_packet cx0 tick0 conn5 hub1 (PktPublish publish5) = respond tick0 conn5 h1 (pubrec 5)"
      "\<forall>h2. (unreleased_step list_db 1 5)\<^sup>*\<^sup>* h1 h2 \<longrightarrow>
         handle_packet cx0 tick0 conn5 h2 (PktPublish publish5) = respond tick0 conn5 h2 (pubrec 5)"
    using inbound_qos2_once [OF hub1 live p p, of tick0 cx0 list_db cx0 tick0] by blast
  have "awaiting h1 1 = Some {5}" unfolding awaiting_publish [OF h1(1)] by code_simp
  then have "awaiting (hub_flush h1) 1 = Some {5}" "awaiting (inbound_qos2_release h1 1 5) 1 = Some {}"
    by (simp_all add: awaiting_subs awaiting_release)
  then have "hub_flush h1 \<noteq> inbound_qos2_release h1 1 5" "live (hub_flush h1) 1"
    by (auto simp: live_iff_awaiting)
  then have "unreleased_step list_db 1 5 h1 (hub_flush h1)" by (simp add: unreleased_step_def step_flush)
  with h1 show ?thesis by (auto simp: respond_def tick0_def)
qed

end
