(* ===== verification/Redelivery.thy ===== *)
theory Redelivery
  imports Session "HOL-Library.Multiset"
begin

text \<open>
  Liveness of redelivery: a client that never acknowledges cannot hold a message in flight for ever.
\<close>

fun tick_many :: "RetryConfig \<Rightarrow> Session \<Rightarrow> Instant list \<Rightarrow> DeadMsg list \<times> Session" where
  "tick_many cfg s [] = ([], s)"
| "tick_many cfg s (now # clock) =
     (let ((dead, _), s, _) = tick_retries s now cfg;
          (dead', s) = tick_many cfg s clock
      in (dead @ dead', s))"

text \<open>Ticks of the timer at least one maximal back-off apart.\<close>

fun spaced :: "RetryConfig \<Rightarrow> Instant \<Rightarrow> Instant list \<Rightarrow> bool" where
  "spaced cfg prev [] \<longleftrightarrow> True"
| "spaced cfg prev (now # clock) \<longleftrightarrow> prev + cap cfg \<le> now \<and> spaced cfg now clock"

definition undelivered_msgs :: "Session \<Rightarrow> Publish list" where
  "undelivered_msgs s = List.map_filter drainable (s_inflight s)"

lemma backoff_le_cap: "backoff cfg a \<le> cap cfg"
  by (simp add: backoff_def Let_def)

lemma drainable_bump [simp]: "drainable (bump now cfg e) = drainable e"
  by (simp add: drainable_def)

lemma tick_retries_dead:
  "fst (fst (tick_retries s now cfg)) =
     List.map_filter dead_of (filter (\<lambda>e. due now e \<and> exhausted cfg e) (s_inflight s))"
  using tick_loop_spec [of now cfg "[]" "s_inflight s" "[]" "[]" False] by (simp add: tick_retries_def)

lemma tick_many_Cons:
  "tick_many cfg s (now # clock) =
     (let (dead, s') = tick_many cfg (fst (snd (tick_retries s now cfg))) clock
      in (fst (fst (tick_retries s now cfg)) @ dead, s'))"
  by (simp add: case_prod_beta Let_def)

text \<open>No message disappears in a tick: it stays in flight or becomes a dead letter.\<close>

lemma tick_keeps:
  "mset (map d_publish (fst (fst (tick_retries s now cfg)))) + mset (undelivered_msgs (fst (snd (tick_retries s now cfg)))) =
     mset (undelivered_msgs s)"
proof -
  have "mset (map d_publish (List.map_filter dead_of (filter (\<lambda>e. due now e \<and> exhausted cfg e) es))) +
      mset (List.map_filter drainable (map (bump now cfg) (filter (\<lambda>e. \<not> (due now e \<and> exhausted cfg e)) es))) =
      mset (List.map_filter drainable es)" for es
    by (induction es) (auto simp: map_filter_simps dead_of_def exhausted_def split: option.split)
  then show ?thesis by (simp add: tick_retries_dead tick_retries_inflight undelivered_msgs_def)
qed

text \<open>
  After \<open>k\<close> ticks every undelivered message in flight was attempted at least \<open>k\<close> times, and is due
  again within a maximal back-off.
\<close>

definition attempted :: "RetryConfig \<Rightarrow> Instant \<Rightarrow> nat \<Rightarrow> Session \<Rightarrow> bool" where
  "attempted cfg prev k s \<longleftrightarrow> list_all (\<lambda>e. e_next_due e \<le> prev + cap cfg \<and>
     (drainable e \<noteq> None \<longrightarrow> k \<le> unat (e_attempts e))) (s_inflight s)"

lemma attempted_tick:
  assumes "attempted cfg prev k s" "prev + cap cfg \<le> now"
  shows "attempted cfg now (Suc k) (fst (snd (tick_retries s now cfg)))"
proof -
  have "e_next_due (bump now cfg e) \<le> now + cap cfg \<and>
      (drainable (bump now cfg e) \<noteq> None \<longrightarrow> Suc k \<le> unat (e_attempts (bump now cfg e)))"
    if e: "e \<in> set (s_inflight s)" "\<not> (due now e \<and> exhausted cfg e)" for e
  proof -
    have d: "e_next_due e \<le> prev + cap cfg" and k: "drainable e \<noteq> None \<longrightarrow> k \<le> unat (e_attempts e)"
      using assms(1) e(1) by (auto simp: attempted_def list_all_iff)
    then have due: "due now e" using assms(2) by (simp add: due_def)
    have "Suc k \<le> unat (e_attempts e + 1)" if dr: "drainable e \<noteq> None"
    proof -
      have "e_attempts e < max_attempts cfg" using e(2) due dr by (simp add: exhausted_def not_le)
      then have "e_attempts e \<noteq> - 1" using word_order.extremum_strict by metis
      then have "e_attempts e + 1 \<noteq> 0" by (simp add: eq_neg_iff_add_eq_0)
      then have "unat (e_attempts e + 1) = Suc (unat (e_attempts e))" by (metis unatSuc add.commute)
      with k dr show ?thesis by simp
    qed
    moreover have "e_attempts (bump now cfg e) = e_attempts e + 1"
        "e_next_due (bump now cfg e) = now + backoff cfg (e_attempts e + 1)"
      using due by (simp_all add: bump_def)
    ultimately show ?thesis using backoff_le_cap by simp
  qed
  then show ?thesis by (auto simp: attempted_def tick_retries_inflight list_all_iff)
qed

lemma tick_drains:
  assumes "attempted cfg prev k s" "prev + cap cfg \<le> now" "unat (max_attempts cfg) \<le> k"
  shows "undelivered_msgs (fst (snd (tick_retries s now cfg))) = []"
proof -
  have "due now e \<and> exhausted cfg e" if "e \<in> set (s_inflight s)" "drainable e \<noteq> None" for e
  proof -
    from that assms(1) have "e_next_due e \<le> prev + cap cfg" "k \<le> unat (e_attempts e)"
      by (auto simp: attempted_def list_all_iff)
    with assms(2,3) that(2) show ?thesis by (simp add: due_def exhausted_def word_le_nat_alt)
  qed
  then show ?thesis
    by (auto simp: undelivered_msgs_def tick_retries_inflight List.map_filter_def filter_map filter_empty_conv comp_def)
qed

lemma tick_many_keeps:
  "mset (map d_publish (fst (tick_many cfg s clock))) + mset (undelivered_msgs (snd (tick_many cfg s clock))) =
     mset (undelivered_msgs s)"
proof (induction clock arbitrary: s)
  case (Cons now clock)
  show ?case
    using Cons [of "fst (snd (tick_retries s now cfg))"] tick_keeps [of s now cfg]
    by (simp add: tick_many_Cons case_prod_beta Let_def add.assoc del: tick_many.simps)
qed simp

lemma tick_many_drains:
  "attempted cfg prev k s \<Longrightarrow> spaced cfg prev clock \<Longrightarrow> unat (max_attempts cfg) < k + length clock \<Longrightarrow>
     unat (max_attempts cfg) < k \<longrightarrow> undelivered_msgs s = [] \<Longrightarrow>
     undelivered_msgs (snd (tick_many cfg s clock)) = []"
proof (induction clock arbitrary: prev k s)
  case (Cons now clock)
  let ?s = "fst (snd (tick_retries s now cfg))"
  have "attempted cfg now (Suc k) ?s" using Cons.prems attempted_tick by simp
  moreover have "unat (max_attempts cfg) < Suc k \<longrightarrow> undelivered_msgs ?s = []"
    using tick_drains [OF Cons.prems(1)] Cons.prems(2) by simp
  ultimately have "undelivered_msgs (snd (tick_many cfg ?s clock)) = []"
    using Cons.IH [of now "Suc k" ?s] Cons.prems(2,3) by simp
  then show ?case by (simp add: tick_many_Cons case_prod_beta Let_def del: tick_many.simps)
qed simp



end
